(* ===== verification/Prelude.thy ===== *)
theory Prelude
  imports Main "HOL-Library.Word" "HOL-Library.AList"
begin

text \<open>
  The prelude of the development: the types of Go the sources use, the integer arithmetic
  of Go's 64-bit integers, the saturating subtraction of \<^verbatim>\<open>time.Time.Sub\<close>, the list
  representation of Go maps, and reachability of state machines with the locale
  \<open>inv_system\<close> that every component with a step relation interprets and the locales
  \<open>progress\<close>, \<open>winding_down\<close> and \<open>fair_progress\<close> of those that shut down.

  A Go string and a \<^verbatim>\<open>[]byte\<close> are both lists of 8-bit characters. A time is the
  reading of the monotonic clock in nanoseconds, and every call of \<^verbatim>\<open>time.Now\<close> in
  the sources is an argument of its own. A Go map is an association list whose keys are
  distinct; where the sources range over a map, the order is an argument.
\<close>

named_theorems inv_defs \<open>definitions of the components' invariants\<close>

type_synonym bytes = "char list"
type_synonym time = int
type_synonym duration = int
type_synonym 'v gomap = "(string \<times> 'v) list"

section \<open>Integers of 64 bits\<close>

definition max_int64 :: int where
  "max_int64 = 2 ^ 63 - 1"

definition min_int64 :: int where
  "min_int64 = - (2 ^ 63)"

definition in_int64 :: "int \<Rightarrow> bool" where
  "in_int64 x \<longleftrightarrow> min_int64 \<le> x \<and> x \<le> max_int64"

text \<open>Addition, subtraction and increment of \<^verbatim>\<open>int\<close> and \<^verbatim>\<open>int64\<close> wrap around.\<close>

definition wrap64 :: "int \<Rightarrow> int" where
  "wrap64 x = (x + 2 ^ 63) mod 2 ^ 64 - 2 ^ 63"

lemma wrap64_word: "wrap64 x = sint (word_of_int x :: 64 word)"
  by (simp add: wrap64_def signed_of_int signed_take_bit_eq_take_bit_shift take_bit_eq_mod)

lemma wrap64_range [simp]: "in_int64 (wrap64 x)"
  by (simp add: in_int64_def wrap64_def min_int64_def max_int64_def)

lemma wrap64_le_max [simp]: "wrap64 x \<le> max_int64"
  and min_le_wrap64 [simp]: "min_int64 \<le> wrap64 x"
  using wrap64_range [of x] by (simp_all add: in_int64_def)

lemma wrap64_id: "in_int64 x \<Longrightarrow> wrap64 x = x"
  by (simp add: in_int64_def wrap64_def min_int64_def max_int64_def)

lemma wrap64_wrap64 [simp]: "wrap64 (wrap64 x) = wrap64 x"
  by (simp add: wrap64_id)

lemma wrap64_add: "wrap64 (wrap64 x + y) = wrap64 (x + y)"
proof -
  have "wrap64 x + y + 2 ^ 63 = (x + 2 ^ 63) mod 2 ^ 64 + y" by (simp add: wrap64_def)
  moreover have "((x + 2 ^ 63) mod 2 ^ 64 + y) mod 2 ^ 64 = (x + y + 2 ^ 63) mod (2 ^ 64 :: int)"
    unfolding mod_add_left_eq by (simp only: ac_simps)
  ultimately show ?thesis by (simp only: wrap64_def [of "wrap64 x + y"] wrap64_def [of "x + y"])
qed

lemma wrap64_diff: "wrap64 (wrap64 x - y) = wrap64 (x - y)"
  using wrap64_add [of x "- y"] by simp

lemma wrap64_add': "wrap64 (y + wrap64 x) = wrap64 (y + x)"
  using wrap64_add [of x y] by (simp add: add.commute)

lemmas wrap64_ops = wrap64_add wrap64_add' wrap64_diff

text \<open>Decimal notation, as \<^verbatim>\<open>fmt\<close> prints an integer with \<^verbatim>\<open>%d\<close>.\<close>

fun itoa_nat :: "nat \<Rightarrow> string" where
  "itoa_nat n = (if n < 10 then [char_of (48 + n)] else itoa_nat (n div 10) @ [char_of (48 + n mod 10)])"

declare itoa_nat.simps [simp del]

definition itoa :: "int \<Rightarrow> string" where
  "itoa i = (if i < 0 then ''-'' @ itoa_nat (nat (- i)) else itoa_nat (nat i))"

section \<open>Time\<close>

text \<open>
  \<^verbatim>\<open>t.Sub(u)\<close> and \<^verbatim>\<open>time.Since\<close>: the difference, capped at the least and the
  greatest duration.
\<close>

definition time_sub :: "time \<Rightarrow> time \<Rightarrow> duration" where
  "time_sub t u = max min_int64 (min max_int64 (t - u))"

definition second :: duration where
  "second = 1000000000"

definition minute :: duration where
  "minute = 60 * second"

lemma time_sub_range [simp]: "in_int64 (time_sub t u)"
  by (auto simp: time_sub_def in_int64_def min_int64_def max_int64_def)

lemma time_sub_nonneg: "u \<le> t \<Longrightarrow> 0 \<le> time_sub t u"
  by (auto simp: time_sub_def min_int64_def max_int64_def)

lemma time_sub_le: "u \<le> t \<Longrightarrow> time_sub t u \<le> t - u"
  by (auto simp: time_sub_def min_int64_def max_int64_def)

lemma time_sub_mono: "t \<le> t' \<Longrightarrow> time_sub t u \<le> time_sub t' u"
  by (auto simp: time_sub_def)

lemma time_sub_gt_iff: "d < max_int64 \<Longrightarrow> min_int64 \<le> d \<Longrightarrow> d < time_sub t u \<longleftrightarrow> d < t - u"
  by (auto simp: time_sub_def)

section \<open>Go maps\<close>

abbreviation go_get :: "'v gomap \<Rightarrow> string \<Rightarrow> 'v option" where
  "go_get m k \<equiv> map_of m k"

abbreviation go_put :: "string \<Rightarrow> 'v \<Rightarrow> 'v gomap \<Rightarrow> 'v gomap" where
  "go_put k v m \<equiv> AList.update k v m"

abbreviation go_delete :: "string \<Rightarrow> 'v gomap \<Rightarrow> 'v gomap" where
  "go_delete k m \<equiv> AList.delete k m"

abbreviation go_len :: "'v gomap \<Rightarrow> int" where
  "go_len m \<equiv> int (length m)"

definition go_map :: "'v gomap \<Rightarrow> bool" where
  "go_map m \<longleftrightarrow> distinct (map fst m)"

lemma go_map_Nil [simp]: "go_map []"
  by (simp add: go_map_def)

lemma go_map_put [simp]: "go_map m \<Longrightarrow> go_map (go_put k v m)"
  by (simp add: go_map_def distinct_update)

lemma go_map_delete [simp]: "go_map m \<Longrightarrow> go_map (go_delete k m)"
  by (simp add: go_map_def distinct_delete)

lemma go_get_put [simp]: "go_get (go_put k v m) k' = (if k' = k then Some v else go_get m k')"
  by (simp add: update_conv')

lemma go_get_delete [simp]: "go_get (go_delete k m) k' = (if k' = k then None else go_get m k')"
  by (simp add: delete_conv')

lemma length_put_new: "go_get m k = None \<Longrightarrow> length (go_put k v m) = Suc (length m)"
  by (induction m) (auto split: if_splits)

lemma length_put_old: "go_get m k = Some w \<Longrightarrow> length (go_put k v m) = length m"
  by (induction m) (auto split: if_splits)

lemma length_delete_le [simp]: "length (go_delete k m) \<le> length m"
  by (simp add: AList.length_delete_le)

lemma go_len_delete: "go_len m \<le> b \<Longrightarrow> go_len (go_delete k m) \<le> b"
  using AList.length_delete_le [of k m] by linarith

lemma set_delete_sub: "x \<in> set (go_delete k m) \<Longrightarrow> x \<in> set m"
  by (auto simp: AList.delete_eq)

lemma distinct_snd_delete: "distinct (map snd m) \<Longrightarrow> distinct (map snd (go_delete k m))"
  by (auto simp: AList.delete_eq distinct_map intro: inj_on_subset)

lemma put_new_append: "go_get m k = None \<Longrightarrow> go_put k v m = m @ [(k, v)]"
  by (induction m) (auto split: if_splits)

lemma go_get_perm: "go_map m \<Longrightarrow> go_map m' \<Longrightarrow> set m' = set m \<Longrightarrow> go_get m' = go_get m"
  by (simp add: go_map_def map_of_inject_set)

section \<open>State machines\<close>

text \<open>
  The states a machine reaches from its initial states. Every component whose operations
  run in several goroutines has a step relation with one rule per critical section, and
  its invariant is proved once for one step and lifted here.
\<close>

inductive reach :: "('s \<Rightarrow> bool) \<Rightarrow> ('s \<Rightarrow> 's \<Rightarrow> bool) \<Rightarrow> 's \<Rightarrow> bool"
  for init :: "'s \<Rightarrow> bool" and step :: "'s \<Rightarrow> 's \<Rightarrow> bool" where
  reach_init: "init s \<Longrightarrow> reach init step s"
| reach_step: "reach init step s \<Longrightarrow> step s t \<Longrightarrow> reach init step t"

lemma reach_star: "reach init step s \<Longrightarrow> step\<^sup>*\<^sup>* s t \<Longrightarrow> reach init step t"
  by (rotate_tac, induction rule: rtranclp_induct) (auto intro: reach_step)

locale inv_system =
  fixes init :: "'s \<Rightarrow> bool"
    and step :: "'s \<Rightarrow> 's \<Rightarrow> bool"
    and inv :: "'s \<Rightarrow> bool"
  assumes inv_init: "init s \<Longrightarrow> inv s"
    and inv_step: "inv s \<Longrightarrow> step s t \<Longrightarrow> inv t"
begin

lemma reach_inv: "reach init step s \<Longrightarrow> inv s"
  by (induction rule: reach.induct) (auto intro: inv_init inv_step)

lemma reach_step_inv: "reach init step s \<Longrightarrow> step s t \<Longrightarrow> inv s \<and> inv t"
  by (blast intro: reach_inv inv_step)

lemma star_inv: "step\<^sup>*\<^sup>* s t \<Longrightarrow> inv s \<Longrightarrow> inv t"
  by (induction rule: rtranclp_induct) (auto intro: inv_step)

end

text \<open>
  Ways out. In a \<open>progress\<close> system some step always leads nearer to the goal, so the goal
  can be reached; in a \<open>winding_down\<close> system every step does and only the goal is final, so
  every run ends there, after a number of steps known beforehand.
\<close>

locale progress =
  fixes step :: "'s \<Rightarrow> 's \<Rightarrow> bool"
    and region :: "'s \<Rightarrow> bool"
    and goal :: "'s \<Rightarrow> bool"
    and left :: "'s \<Rightarrow> nat"
  assumes advance: "region s \<Longrightarrow> \<not> goal s \<Longrightarrow> \<exists>t. step s t \<and> region t \<and> left t < left s"
begin

lemma goal_reachable: "region s \<Longrightarrow> \<exists>t. step\<^sup>*\<^sup>* s t \<and> region t \<and> goal t"
proof (induction "left s" arbitrary: s rule: less_induct)
  case less
  show ?case
  proof (cases "goal s")
    case False
    from advance [OF less.prems this] obtain t where t: "step s t" "region t" "left t < left s" by blast
    from less.hyps [OF t(3,2)] t(1) show ?thesis by (blast intro: converse_rtranclp_into_rtranclp)
  qed (use less.prems in blast)
qed

end

locale winding_down =
  fixes step :: "'s \<Rightarrow> 's \<Rightarrow> bool"
    and region :: "'s \<Rightarrow> bool"
    and goal :: "'s \<Rightarrow> bool"
    and left :: "'s \<Rightarrow> nat"
  assumes descends: "region s \<Longrightarrow> step s t \<Longrightarrow> region t \<and> left t < left s"
    and not_stuck: "region s \<Longrightarrow> \<not> goal s \<Longrightarrow> \<exists>t. step s t"
begin

lemma run_bounded: "(step ^^ n) s t \<Longrightarrow> region s \<Longrightarrow> region t \<and> n + left t \<le> left s"
proof (induction n arbitrary: t)
  case (Suc n)
  from Suc.prems(1) obtain u where u: "(step ^^ n) s u" "step u t" by auto
  with Suc.IH [OF u(1) Suc.prems(2)] descends [of u t] show ?case by auto
qed simp

lemma final_goal: "(step ^^ n) s t \<Longrightarrow> region s \<Longrightarrow> \<nexists>u. step t u \<Longrightarrow> goal t"
  using run_bounded not_stuck by blast

end

sublocale winding_down \<subseteq> progress
  by unfold_locales (meson descends not_stuck)

text \<open>
  Fair runs. An action is treated fairly when it is not passed over for ever while it stays
  enabled, as the scheduler of Go treats a goroutine that can go on. In a \<open>fair_progress\<close> system
  no step leads away from the goal, and one action, the helper of the state, is enabled and
  leads nearer; other steps may come between, but no fair run stays away from the goal.
\<close>

definition weakly_fair :: "('s \<Rightarrow> 's \<Rightarrow> bool) \<Rightarrow> (nat \<Rightarrow> 's) \<Rightarrow> bool" where
  "weakly_fair act run \<longleftrightarrow> (\<forall>n. (\<forall>i\<ge>n. \<exists>t. act (run i) t) \<longrightarrow> (\<exists>i\<ge>n. act (run i) (run (Suc i))))"

locale fair_progress =
  fixes step :: "'s \<Rightarrow> 's \<Rightarrow> bool"
    and region :: "'s \<Rightarrow> bool"
    and goal :: "'s \<Rightarrow> bool"
    and left :: "'s \<Rightarrow> nat"
    and helper :: "'s \<Rightarrow> 'k"
    and act :: "'k \<Rightarrow> 's \<Rightarrow> 's \<Rightarrow> bool"
  assumes keeps: "region s \<Longrightarrow> \<not> goal s \<Longrightarrow> step s t \<Longrightarrow> region t \<and> left t \<le> left s \<and> (left t = left s \<longrightarrow> helper t = helper s)"
    and enabled: "region s \<Longrightarrow> \<not> goal s \<Longrightarrow> \<exists>t. act (helper s) s t"
    and helps: "region s \<Longrightarrow> \<not> goal s \<Longrightarrow> act (helper s) s t \<Longrightarrow> left t < left s"
begin

lemma run_keeps:
  assumes "\<And>i. step (run i) (run (Suc i))" "region (run n)" "\<And>i. n \<le> i \<Longrightarrow> \<not> goal (run i)"
  shows "region (run (n + k)) \<and> left (run (n + k)) \<le> left (run n)
    \<and> (left (run (n + k)) = left (run n) \<longrightarrow> helper (run (n + k)) = helper (run n))"
proof (induction k)
  case (Suc k)
  from keeps [of "run (n + k)" "run (n + Suc k)"] Suc assms(1) [of "n + k"] assms(3) [of "n + k"] show ?case by auto
qed (use assms(2) in simp)

lemma fair_goal:
  assumes "\<And>i. step (run i) (run (Suc i))" "\<And>k. weakly_fair (act k) run" "region (run n)"
  shows "\<exists>i\<ge>n. goal (run i)"
  using assms(3)
proof (induction "left (run n)" arbitrary: n rule: less_induct)
  case less
  show ?case
  proof (rule ccontr)
    assume "\<not> (\<exists>i\<ge>n. goal (run i))"
    then have away: "\<not> goal (run i)" if "n \<le> i" for i using that by blast
    have at: "region (run i) \<and> left (run i) \<le> left (run n) \<and> (left (run i) = left (run n) \<longrightarrow> helper (run i) = helper (run n))"
      if "n \<le> i" for i using run_keeps [OF assms(1) less.prems away, of "i - n"] that by simp
    have same: "left (run i) = left (run n)" if "n \<le> i" for i
    proof (rule ccontr)
      assume "left (run i) \<noteq> left (run n)"
      with less.hyps [of i] at [OF that] obtain j where "i \<le> j" "goal (run j)" by auto
      with away [of j] that show False by simp
    qed
    have "\<exists>t. act (helper (run n)) (run i) t" if "n \<le> i" for i
      using enabled [of "run i"] at [OF that] same [OF that] away [OF that] by simp
    then obtain i where i: "n \<le> i" "act (helper (run n)) (run i) (run (Suc i))"
      using assms(2) [of "helper (run n)"] by (auto simp: weakly_fair_def)
    with helps [of "run i" "run (Suc i)"] at [OF i(1)] same [OF i(1)] same [of "Suc i"] away [OF i(1)] show False by simp
  qed
qed

end

text \<open>A run that comes to a state where no action is enabled, and can stay there, is fair.\<close>

lemma star_run:
  assumes "step\<^sup>*\<^sup>* s t" "step t t"
  obtains run n where "run 0 = s" "\<And>i. step (run i) (run (Suc i))" "\<And>i. n \<le> i \<Longrightarrow> run i = t"
proof -
  from assms(1) obtain n where "(step ^^ n) s t" by (auto dest: rtranclp_imp_relpowp)
  then obtain f where f: "f 0 = s" "f n = t" "\<forall>i<n. step (f i) (f (Suc i))" by (auto simp: relpowp_fun_conv)
  show ?thesis
  proof (rule that [of "\<lambda>i. f (min i n)" n])
    show "step (f (min i n)) (f (min (Suc i) n))" for i
      using f(2,3) assms(2) by (cases "i < n") (simp_all add: min_def)
  qed (use f in \<open>simp_all add: min_def\<close>)
qed

lemma settled_fair: "(\<And>i. n \<le> i \<Longrightarrow> run i = t) \<Longrightarrow> (\<And>u. \<not> act t u) \<Longrightarrow> weakly_fair act run"
  unfolding weakly_fair_def by (metis nle_le)

end
