(* ===== verification/Float64.thy ===== *)
theory Float64
  imports Complex_Main "HOL-Library.Log_Nat" Prelude
begin

text \<open>
  The part of Go's \<^verbatim>\<open>float64\<close> arithmetic the rate limiter uses
  (\<^verbatim>\<open>src/pkg/ratelimit/ratelimit.go:61-65\<close>): a float is its rational value, and
  \<open>fl64\<close> rounds a rational to 53 significant bits, to the nearest, ties to even, as
  IEEE 754 does. The sources only form values between \<open>10\<^sup>-\<^sup>9\<close> and \<open>2\<^sup>9\<^sup>7\<close> in
  magnitude, so subnormal numbers and infinities do not occur. Shown: the relative error
  of one rounding, exactness on small integers, and the bound on
  \<^verbatim>\<open>int64(elapsed * float64(rate))\<close> the rate limiter's guarantee rests on.
\<close>

definition round_even :: "rat \<Rightarrow> int" where
  "round_even y = (let n = \<lfloor>y\<rfloor>; f = y - of_int n in
     if f < 1 / 2 then n else if f > 1 / 2 then n + 1 else if even n then n else n + 1)"

text \<open>The exponent \<open>e\<close> with \<open>2\<^sup>5\<^sup>2 \<le> x / 2\<^sup>e < 2\<^sup>5\<^sup>3\<close>, for positive \<open>x\<close>.\<close>

definition fl_exp :: "rat \<Rightarrow> int" where
  "fl_exp x = (let k = bitlen (fst (quotient_of x)) - bitlen (snd (quotient_of x)) - 53 in
     if 2 ^ 53 \<le> x * 2 powi (- k) then k + 1 else k)"

definition fl64 :: "rat \<Rightarrow> rat" where
  "fl64 x = (if x = 0 then 0 else
     sgn x * of_int (round_even (\<bar>x\<bar> * 2 powi (- fl_exp \<bar>x\<bar>))) * 2 powi (fl_exp \<bar>x\<bar>))"

text \<open>
  \<^verbatim>\<open>Duration.Seconds\<close>: the whole seconds plus the nanoseconds divided by \<open>10\<^sup>9\<close>, each
  operation rounded; Go's integer division truncates.
\<close>

definition trunc_div :: "int \<Rightarrow> int \<Rightarrow> int" where
  "trunc_div a b = sgn a * sgn b * (\<bar>a\<bar> div \<bar>b\<bar>)"

definition Seconds :: "duration \<Rightarrow> rat" where
  "Seconds d = (let sec = trunc_div d second; nsec = d - second * sec in
     fl64 (fl64 (of_int sec) + fl64 (fl64 (of_int nsec) / fl64 1000000000)))"

text \<open>
  The conversion of a float to \<^verbatim>\<open>int64\<close> truncates; when the value does not fit, the
  language leaves the result to the implementation, here the argument \<open>ov\<close>.
\<close>

definition float_to_int64 :: "(rat \<Rightarrow> int) \<Rightarrow> rat \<Rightarrow> int" where
  "float_to_int64 ov x = (let n = (if 0 \<le> x then \<lfloor>x\<rfloor> else \<lceil>x\<rceil>) in if in_int64 n then n else ov x)"

section \<open>Rounding\<close>

lemma round_even_error: "\<bar>of_int (round_even y) - y\<bar> \<le> 1 / 2"
  unfolding round_even_def Let_def by (simp add: abs_if) linarith

lemma round_even_of_int [simp]: "round_even (of_int n) = n"
  by (simp add: round_even_def)

lemma round_even_nonneg: "0 \<le> y \<Longrightarrow> 0 \<le> round_even y"
  unfolding round_even_def Let_def by (simp add: le_floor_iff)

lemma powi_of_int:
  assumes "0 \<le> k"
  shows "(2::rat) powi k \<le> of_int n \<longleftrightarrow> 2 ^ nat k \<le> n"
    and "of_int n < (2::rat) powi k \<longleftrightarrow> n < 2 ^ nat k"
proof -
  have "(2::rat) powi k = of_int (2 ^ nat k)" using assms by (simp add: power_int_def)
  then show "(2::rat) powi k \<le> of_int n \<longleftrightarrow> 2 ^ nat k \<le> n"
    and "of_int n < (2::rat) powi k \<longleftrightarrow> n < 2 ^ nat k"
    by (simp_all only: of_int_le_iff of_int_less_iff)
qed

text \<open>The two candidates for the exponent bracket a positive rational.\<close>

lemma quotient_bracket:
  fixes x :: rat
  assumes "0 < x"
  defines "k \<equiv> bitlen (fst (quotient_of x)) - bitlen (snd (quotient_of x))"
  shows "2 powi (k - 1) < x \<and> x < 2 powi (k + 1)"
proof -
  obtain p q where pq: "quotient_of x = (p, q)" by (cases "quotient_of x")
  have q: "0 < q" using quotient_of_denom_pos [OF pq] .
  have x: "x = of_int p / of_int q" using quotient_of_div [OF pq] .
  have p: "0 < p" using assms(1) q x by (simp add: zero_less_divide_iff)
  let ?a = "bitlen p" and ?b = "bitlen q"
  have pos: "1 \<le> ?a" "1 \<le> ?b" using p q by (simp_all add: bitlen_alt_def)
  have pb: "2 powi (?a - 1) \<le> (of_int p :: rat)" "(of_int p :: rat) < 2 powi ?a"
    using bitlen_bounds [OF p] pos by (simp_all add: powi_of_int)
  have qb: "2 powi (?b - 1) \<le> (of_int q :: rat)" "(of_int q :: rat) < 2 powi ?b"
    using bitlen_bounds [OF q] pos by (simp_all add: powi_of_int)
  have q0: "(0::rat) < of_int q" using q by simp
  have lo: "2 powi (?a - ?b - 1) < x"
  proof -
    have "(2::rat) powi (?a - ?b - 1) * of_int q < 2 powi (?a - ?b - 1) * 2 powi ?b"
      using qb(2) by (simp add: mult_strict_left_mono)
    also have "\<dots> = 2 powi (?a - 1)" by (simp flip: power_int_add)
    finally show ?thesis using pb(1) q0 unfolding x by (simp add: pos_less_divide_eq)
  qed
  have hi: "x < 2 powi (?a - ?b + 1)"
  proof -
    have "(2::rat) powi ?a = 2 powi (?a - ?b + 1) * 2 powi (?b - 1)" by (simp flip: power_int_add)
    also have "\<dots> \<le> 2 powi (?a - ?b + 1) * of_int q" using qb(1) by (simp add: mult_left_mono)
    finally show ?thesis using pb(2) q0 unfolding x by (simp add: pos_divide_less_eq)
  qed
  from lo hi show ?thesis by (simp add: k_def pq)
qed

lemma half_step: "(2::rat) powi (- k) = 2 powi (- (k + 1)) * 2"
proof -
  have "(2::rat) powi (- k) = 2 powi (- (k + 1) + 1)" by simp
  also have "\<dots> = 2 powi (- (k + 1)) * 2" by (subst power_int_add) simp_all
  finally show ?thesis .
qed

lemma halve: "2 ^ 53 \<le> y * 2 \<Longrightarrow> 2 ^ 52 \<le> (y :: rat)"
  by simp

lemma fl_exp_lower:
  assumes "0 < x"
  shows "2 ^ 52 \<le> x * 2 powi (- fl_exp x)"
proof -
  let ?k = "bitlen (fst (quotient_of x)) - bitlen (snd (quotient_of x)) - 53"
  have b: "2 powi (?k + 52) < x" using quotient_bracket [OF assms] by (simp add: algebra_simps)
  have c: "(2::rat) ^ 52 \<le> x * 2 powi (- ?k)"
  proof -
    have "(2::rat) ^ 52 = 2 powi (?k + 52) * 2 powi (- ?k)" by (simp flip: power_int_add)
    also have "\<dots> \<le> x * 2 powi (- ?k)" using b by (simp add: mult_right_mono)
    finally show ?thesis .
  qed
  show ?thesis
  proof (cases "2 ^ 53 \<le> x * 2 powi (- ?k)")
    case True
    then have e: "fl_exp x = ?k + 1" unfolding fl_exp_def Let_def by (rule if_P)
    have "2 ^ 53 \<le> (x * 2 powi (- (?k + 1))) * 2"
      using True unfolding half_step [of ?k] mult.assoc .
    then show ?thesis unfolding e by (rule halve)
  next
    case False
    then have "fl_exp x = ?k" unfolding fl_exp_def Let_def by (rule if_not_P)
    with c show ?thesis by (simp only:)
  qed
qed

text \<open>One rounding changes a positive number by at most one part in \<open>2\<^sup>5\<^sup>3\<close>.\<close>

lemma fl64_error:
  assumes "0 < x"
  shows "\<bar>fl64 x - x\<bar> \<le> x / 2 ^ 53"
proof -
  let ?y = "x * 2 powi (- fl_exp x)" and ?s = "(2::rat) powi (fl_exp x)"
  have s: "0 < ?s" by simp
  have xy: "x = ?y * ?s" by (simp flip: power_int_add)
  have "fl64 x - x = (of_int (round_even ?y) - ?y) * ?s"
    using assms by (simp add: fl64_def left_diff_distrib flip: power_int_add)
  then have "\<bar>fl64 x - x\<bar> \<le> 1 / 2 * ?s"
    using round_even_error [of ?y] s by (simp add: abs_mult mult_right_mono)
  also have "\<dots> \<le> ?y / 2 ^ 53 * ?s"
    using fl_exp_lower [OF assms] s by (intro mult_right_mono) simp_all
  also have "\<dots> = x / 2 ^ 53" by (subst (3) xy) simp
  finally show ?thesis .
qed

lemma fl64_0 [simp]: "fl64 0 = 0"
  by (simp add: fl64_def)

lemma fl64_le:
  assumes "0 \<le> x"
  shows "fl64 x \<le> x * (1 + 1 / 2 ^ 53)"
proof (cases "x = 0")
  case False
  with assms have "fl64 x - x \<le> x / 2 ^ 53" using abs_le_D1 [OF fl64_error [of x]] by simp
  moreover have "x * (1 + 1 / 2 ^ 53) = x + x / 2 ^ 53"
    by (simp only: distrib_left mult_1_right times_divide_eq_right)
  ultimately show ?thesis by linarith
qed simp

lemma fl64_nonneg: "0 \<le> x \<Longrightarrow> 0 \<le> fl64 x"
  by (auto simp: fl64_def round_even_nonneg)

lemma fl64_of_int:
  assumes "0 \<le> n" and "n < 2 ^ 53"
  shows "fl64 (of_int n) = of_int n"
proof (cases "n = 0")
  case True
  then show ?thesis by simp
next
  case False
  with assms have x: "(0::rat) < of_int n" by simp
  have e: "fl_exp (of_int n) \<le> 0"
  proof (rule ccontr)
    assume "\<not> ?thesis"
    then have "(2::rat) powi (- fl_exp (of_int n)) \<le> 2 powi (-1)"
      by (intro power_int_increasing) simp_all
    then have "of_int n * (2::rat) powi (- fl_exp (of_int n)) \<le> of_int n * (1 / 2)"
      using x by (intro mult_left_mono) (simp_all add: power_int_minus)
    then have "(2::rat) ^ 52 \<le> of_int n / 2" using fl_exp_lower [OF x] by simp
    then have "(2::rat) ^ 53 \<le> of_int n" by simp
    then show False using assms(2) by (metis not_le of_int_le_iff of_int_numeral of_int_power)
  qed
  then have "of_int n * (2::rat) powi (- fl_exp (of_int n)) = of_int (n * 2 ^ nat (- fl_exp (of_int n)))"
    by (simp add: power_int_def)
  then have "of_int (round_even (of_int n * (2::rat) powi (- fl_exp (of_int n))))
      = of_int n * (2::rat) powi (- fl_exp (of_int n))"
    by (simp only: round_even_of_int)
  then have "fl64 (of_int n) = of_int n * (2::rat) powi (- fl_exp (of_int n)) * 2 powi (fl_exp (of_int n))"
    using x by (simp add: fl64_def)
  then show ?thesis by (simp add: mult.assoc flip: power_int_add)
qed

lemma fl64_numeral [simp]: "numeral n < (2 ^ 53 :: int) \<Longrightarrow> fl64 (numeral n) = numeral n"
  using fl64_of_int [of "numeral n"] by simp

lemma fl64_1 [simp]: "fl64 1 = 1"
  using fl64_of_int [of 1] by simp

section \<open>The refill product\<close>

text \<open>
  The relative error allowed for the four roundings of
  \<^verbatim>\<open>now.Sub(last).Seconds() * float64(rate)\<close>.
\<close>

definition slack :: rat where
  "slack = 1 + 1 / 2 ^ 50"

lemma slack_ge_1: "1 \<le> slack" and slack_pos: "0 < slack"
  by (simp_all add: slack_def)

lemma fl64_le_mono:
  assumes "0 \<le> x" and "x \<le> y * c" and "0 \<le> y"
  shows "fl64 x \<le> y * (c * (1 + 1 / 2 ^ 53))"
proof -
  have "fl64 x \<le> x * (1 + 1 / 2 ^ 53)" using assms(1) by (rule fl64_le)
  also have "\<dots> \<le> (y * c) * (1 + 1 / 2 ^ 53)" using assms(2) by (intro mult_right_mono) simp_all
  finally show ?thesis by (simp only: mult.assoc)
qed

lemma second_split:
  assumes "0 \<le> d"
  shows "trunc_div d second = d div second" and "d - second * trunc_div d second = d mod second"
proof -
  show q: "trunc_div d second = d div second"
    using assms by (cases "d = 0") (simp_all add: trunc_div_def second_def)
  show "d - second * trunc_div d second = d mod second"
    unfolding q by (simp add: minus_mult_div_eq_mod)
qed

text \<open>The value of \<open>Seconds\<close> on a non-negative duration, with its nanoseconds exact.\<close>

lemma Seconds_nonneg_eq:
  assumes "0 \<le> d"
  shows "Seconds d = fl64 (fl64 (of_int (d div second)) + fl64 (of_int (d mod second) / 1000000000))"
proof -
  have "0 \<le> d mod second" and "d mod second < 2 ^ 53"
    using pos_mod_bound [of second d] by (simp_all add: second_def)
  then have "fl64 (of_int (d mod second)) = of_int (d mod second)" by (rule fl64_of_int)
  then show ?thesis
    unfolding Seconds_def Let_def second_split(2) [OF assms] unfolding second_split(1) [OF assms] by simp
qed

lemma second_quotient: "(of_int (d div second) :: rat) + of_int (d mod second) / 1000000000
    = of_int d / 1000000000"
proof -
  have "(of_int d :: rat) = of_int (d div second * second + d mod second)"
    by (simp only: div_mult_mod_eq)
  also have "\<dots> = of_int (d div second) * 1000000000 + of_int (d mod second)"
    by (simp only: of_int_add of_int_mult) (simp add: second_def)
  finally show ?thesis by (simp add: add_divide_distrib)
qed

lemma Seconds_bounds:
  assumes "0 \<le> d"
  shows "0 \<le> Seconds d \<and> Seconds d \<le> of_int d / 1000000000 * ((1 + 1 / 2 ^ 53) * (1 + 1 / 2 ^ 53))"
proof -
  let ?u = "of_int (d div second) :: rat" and ?v = "of_int (d mod second) / 1000000000 :: rat"
  let ?c = "1 + 1 / 2 ^ 53 :: rat"
  have u: "0 \<le> ?u" and v: "0 \<le> ?v" using assms by (simp_all add: second_def pos_imp_zdiv_nonneg_iff)
  have "fl64 ?u + fl64 ?v \<le> ?u * ?c + ?v * ?c" using u v by (intro add_mono fl64_le)
  also have "\<dots> = (?u + ?v) * ?c" by (rule distrib_right [symmetric])
  also have "\<dots> = of_int d / 1000000000 * ?c" by (simp only: second_quotient)
  finally have "fl64 ?u + fl64 ?v \<le> of_int d / 1000000000 * ?c" .
  moreover have nn: "0 \<le> fl64 ?u + fl64 ?v" using u v by (intro add_nonneg_nonneg fl64_nonneg)
  ultimately show ?thesis
    unfolding Seconds_nonneg_eq [OF assms] using assms
    by (intro conjI fl64_nonneg fl64_le_mono) simp_all
qed

lemma slack_product: "(1 + 1 / 2 ^ 53) * (1 + 1 / 2 ^ 53) * (1 + 1 / 2 ^ 53) * (1 + 1 / 2 ^ 53) \<le> slack"
  by (simp add: slack_def power_numeral divide_simps)

text \<open>\<^verbatim>\<open>int64(elapsed * float64(rate))\<close> never exceeds the exact product by more than \<open>slack\<close>.\<close>

lemma refill_product:
  assumes "0 \<le> d" and "0 \<le> r"
  shows "0 \<le> fl64 (Seconds d * fl64 (of_int r)) \<and>
    fl64 (Seconds d * fl64 (of_int r)) \<le> slack * (of_int r * of_int d / 1000000000)"
proof -
  let ?c = "1 + 1 / 2 ^ 53 :: rat" and ?e = "of_int d / 1000000000 :: rat"
  have s: "0 \<le> Seconds d" "Seconds d \<le> ?e * (?c * ?c)" using Seconds_bounds [OF assms(1)] by simp_all
  have r: "0 \<le> fl64 (of_int r)" "fl64 (of_int r) \<le> of_int r * ?c"
    using assms(2) by (intro fl64_nonneg fl64_le; simp)+
  have e: "0 \<le> ?e" using assms(1) by simp
  have "Seconds d * fl64 (of_int r) \<le> (?e * (?c * ?c)) * (of_int r * ?c)"
    using s r e by (intro mult_mono) simp_all
  also have "\<dots> = (of_int r * ?e) * (?c * ?c * ?c)" by (simp only: mult.assoc mult.commute mult.left_commute)
  finally have p: "Seconds d * fl64 (of_int r) \<le> (of_int r * ?e) * (?c * ?c * ?c)" .
  have nn: "0 \<le> Seconds d * fl64 (of_int r)" using s r by simp
  have re: "0 \<le> of_int r * ?e" using assms e by simp
  have "fl64 (Seconds d * fl64 (of_int r)) \<le> (of_int r * ?e) * (?c * ?c * ?c * ?c)"
    using fl64_le_mono [OF nn p re] .
  also have "\<dots> \<le> (of_int r * ?e) * slack" by (rule mult_left_mono [OF slack_product re])
  finally show ?thesis using fl64_nonneg [OF nn] by (simp only: mult.commute times_divide_eq_right)
qed

lemma float_to_int64_nonneg:
  assumes "0 \<le> x" and "x < 2 ^ 63"
  shows "float_to_int64 ov x = \<lfloor>x\<rfloor>"
  using assms by (simp add: float_to_int64_def in_int64_def min_int64_def max_int64_def Let_def
      floor_le_iff le_floor_iff)

end
