(* ===== verification/Errors.thy ===== *)
theory Errors
  imports Prelude
begin

text \<open>
  Error values (\<^verbatim>\<open>src/pkg/errors/errors.go\<close>) and the part of Go's package
  \<^verbatim>\<open>errors\<close> the sources use. A nil error is \<^term>\<open>None\<close>. A package-level
  \<^verbatim>\<open>errors.New\<close> value is a \<open>Sentinel\<close> with its qualified name, which stands
  for the identity of the pointer, and its text; an error with \<^verbatim>\<open>%w\<close> made by
  \<^verbatim>\<open>fmt.Errorf\<close> is \<open>Wrapf\<close> with the text before and after the wrapped error.
\<close>

datatype err =
    Sentinel string string
  | Wrapf string err string
  | Join "err list"
  | ProxyError string string string string err

text \<open>The common error values (errors.go:13-40).\<close>

definition ErrUnauthorized :: err where
  "ErrUnauthorized = Sentinel ''errors.ErrUnauthorized'' ''unauthorized''"

definition ErrInvalidInput :: err where
  "ErrInvalidInput = Sentinel ''errors.ErrInvalidInput'' ''invalid input''"

definition ErrTimeout :: err where
  "ErrTimeout = Sentinel ''errors.ErrTimeout'' ''timeout''"

definition ErrConnectionClosed :: err where
  "ErrConnectionClosed = Sentinel ''errors.ErrConnectionClosed'' ''connection closed''"

definition ErrProtocolViolation :: err where
  "ErrProtocolViolation = Sentinel ''errors.ErrProtocolViolation'' ''protocol violation''"

definition ErrBackendUnavailable :: err where
  "ErrBackendUnavailable = Sentinel ''errors.ErrBackendUnavailable'' ''backend unavailable''"

definition ErrRateLimited :: err where
  "ErrRateLimited = Sentinel ''errors.ErrRateLimited'' ''rate limit exceeded''"

definition ErrSizeLimitExceeded :: err where
  "ErrSizeLimitExceeded = Sentinel ''errors.ErrSizeLimitExceeded'' ''size limit exceeded''"

definition ErrInvalidOrigin :: err where
  "ErrInvalidOrigin = Sentinel ''errors.ErrInvalidOrigin'' ''invalid origin''"

text \<open>\<^verbatim>\<open>io.EOF\<close> of Go's standard library.\<close>

definition EOF :: err where
  "EOF = Sentinel ''io.EOF'' ''EOF''"

text \<open>The text of an error; \<^verbatim>\<open>errors.Join\<close> puts one error per line.\<close>

fun join_lines :: "string list \<Rightarrow> string" where
  "join_lines [] = []"
| "join_lines [s] = s"
| "join_lines (s # t # ss) = s @ [CHR 0x0A] @ join_lines (t # ss)"

fun Error :: "err \<Rightarrow> string" where
  "Error (Sentinel i txt) = txt"
| "Error (Wrapf pre e post) = pre @ Error e @ post"
| "Error (Join es) = join_lines (map Error es)"
| "Error (ProxyError op protocol sessionID remoteAddr e) =
     (if sessionID \<noteq> [] then
        protocol @ '' '' @ op @ '' ['' @ sessionID @ ''] '' @ remoteAddr @ '': '' @ Error e
      else protocol @ '' '' @ op @ '' '' @ remoteAddr @ '': '' @ Error e)"

text \<open>\<^verbatim>\<open>Unwrap\<close>: the wrapped error of an error that has exactly one.\<close>

fun Unwrap :: "err \<Rightarrow> err option" where
  "Unwrap (Wrapf pre e post) = Some e"
| "Unwrap (ProxyError op protocol sessionID remoteAddr e) = Some e"
| "Unwrap (Sentinel i txt) = None"
| "Unwrap (Join es) = None"

text \<open>\<^verbatim>\<open>errors.Is\<close> with a package-level error value as its target.\<close>

fun Is :: "err \<Rightarrow> err \<Rightarrow> bool" where
  "Is (Sentinel i txt) target = (target = Sentinel i txt)"
| "Is (Wrapf pre e post) target = Is e target"
| "Is (Join es) target = list_ex (\<lambda>e. Is e target) es"
| "Is (ProxyError op protocol sessionID remoteAddr e) target = Is e target"

text \<open>\<^verbatim>\<open>New\<close> and \<^verbatim>\<open>Wrap\<close> (errors.go:65-84); nil stays nil.\<close>

definition errors_New :: "string \<Rightarrow> string \<Rightarrow> string \<Rightarrow> string \<Rightarrow> err option \<Rightarrow> err option" where
  "errors_New op protocol sessionID remoteAddr e =
     (case e of None \<Rightarrow> None
      | Some e' \<Rightarrow> Some (ProxyError op protocol sessionID remoteAddr e'))"

definition errors_Wrap :: "err option \<Rightarrow> string \<Rightarrow> err option" where
  "errors_Wrap e message =
     (case e of None \<Rightarrow> None
      | Some e' \<Rightarrow> Some (Wrapf (message @ '': '') e' []))"

text \<open>An optional error matches a target when it is there and \<^const>\<open>Is\<close> holds.\<close>

definition Is_opt :: "err option \<Rightarrow> err \<Rightarrow> bool" where
  "Is_opt e target = (case e of None \<Rightarrow> False | Some e' \<Rightarrow> Is e' target)"

lemma Is_Unwrap: "Unwrap e = Some e' \<Longrightarrow> Is e target = Is e' target"
  by (cases e) auto

lemma Is_opt_New [simp]:
  "Is_opt (errors_New op protocol sessionID remoteAddr e) target = Is_opt e target"
  by (cases e) (simp_all add: Is_opt_def errors_New_def)

lemma Is_opt_Wrap [simp]: "Is_opt (errors_Wrap e message) target = Is_opt e target"
  by (cases e) (simp_all add: Is_opt_def errors_Wrap_def)

lemma errors_nil_iff:
  "errors_New op protocol sessionID remoteAddr e = None \<longleftrightarrow> e = None"
  "errors_Wrap e message = None \<longleftrightarrow> e = None"
  by (simp_all add: errors_New_def errors_Wrap_def split: option.splits)

lemma Unwrap_New: "Option.bind (errors_New op protocol sessionID remoteAddr e) Unwrap = e"
  by (cases e) (simp_all add: errors_New_def)

lemma Unwrap_Wrap: "Option.bind (errors_Wrap e message) Unwrap = e"
  by (cases e) (simp_all add: errors_Wrap_def)

end
