(* ===== verification/Metrics.thy ===== *)
theory Metrics
  imports Float64 Errors
begin

text \<open>
  Metrics (\<^verbatim>\<open>src/pkg/metrics/metrics.go\<close>). The Prometheus library is not part of the
  sources: what is modelled is the list of the vectors that \<^verbatim>\<open>New\<close> registers, with their
  names, help texts, buckets and label names, and the trace of the operations the code performs on them. The
  library panics when a name is registered twice and when an operation gives another number
  of label values than the vector has label names; \<open>well_labelled\<close> says that this does not
  happen. The value of a gauge or counter is read off the trace.
\<close>

section \<open>Definitions\<close>

datatype metric_kind = GaugeVec | CounterVec | HistogramVec

text \<open>The buckets of a histogram; \<^verbatim>\<open>prometheus.DefBuckets\<close> belongs to the library.\<close>

datatype metric_buckets = NoBuckets | DefBuckets | Buckets "rat list"

text \<open>A vector: the field of the struct, its kind, its name, help text, buckets and label names.\<close>

record metric_desc =
  md_field :: string
  md_kind :: metric_kind
  md_name :: string
  md_help :: string
  md_buckets :: metric_buckets
  md_labels :: "string list"

definition vec :: "string \<Rightarrow> metric_kind \<Rightarrow> string \<Rightarrow> string \<Rightarrow> metric_buckets \<Rightarrow> string list \<Rightarrow> metric_desc" where
  "vec field kind name help buckets labels =
     \<lparr>md_field = field, md_kind = kind, md_name = name, md_help = help, md_buckets = buckets, md_labels = labels\<rparr>"

text \<open>The vectors, in the groups the struct has them.\<close>

definition connection_vecs :: "metric_desc list" where
  "connection_vecs = [
     vec ''ActiveConnections'' GaugeVec ''active_connections''
       ''Number of currently active connections'' NoBuckets [''protocol'', ''type''],
     vec ''TotalConnections'' CounterVec ''connections_total''
       ''Total number of connections'' NoBuckets [''protocol'', ''type'', ''status''],
     vec ''ConnectionErrors'' CounterVec ''connection_errors_total''
       ''Total number of connection errors'' NoBuckets [''protocol'', ''type'', ''error_type''],
     vec ''ConnectionDuration'' HistogramVec ''connection_duration_seconds''
       ''Connection duration in seconds'' (Buckets [1 / 100, 5 / 100, 1 / 10, 1 / 2, 1, 5, 10, 30, 60, 300, 600]) [''protocol'', ''type'']]"

definition request_vecs :: "metric_desc list" where
  "request_vecs = [
     vec ''RequestsTotal'' CounterVec ''requests_total''
       ''Total number of requests processed'' NoBuckets [''protocol'', ''method'', ''status''],
     vec ''RequestDuration'' HistogramVec ''request_duration_seconds''
       ''Request duration in seconds'' DefBuckets [''protocol'', ''method''],
     vec ''RequestSize'' HistogramVec ''request_size_bytes''
       ''Request size in bytes'' (Buckets [100, 1000, 10000, 100000, 1000000, 10000000]) [''protocol''],
     vec ''ResponseSize'' HistogramVec ''response_size_bytes''
       ''Response size in bytes'' (Buckets [100, 1000, 10000, 100000, 1000000, 10000000]) [''protocol'']]"

definition backend_vecs :: "metric_desc list" where
  "backend_vecs = [
     vec ''BackendRequestsTotal'' CounterVec ''backend_requests_total''
       ''Total number of backend requests'' NoBuckets [''backend'', ''status''],
     vec ''BackendErrors'' CounterVec ''backend_errors_total''
       ''Total number of backend errors'' NoBuckets [''backend'', ''error_type''],
     vec ''BackendDuration'' HistogramVec ''backend_duration_seconds''
       ''Backend request duration in seconds'' DefBuckets [''backend''],
     vec ''BackendActiveConnections'' GaugeVec ''backend_active_connections''
       ''Number of active backend connections'' NoBuckets [''backend'']]"

definition breaker_vecs :: "metric_desc list" where
  "breaker_vecs = [
     vec ''CircuitBreakerState'' GaugeVec ''circuit_breaker_state''
       ''Circuit breaker state (0=closed, 1=half_open, 2=open)'' NoBuckets [''backend''],
     vec ''CircuitBreakerTrips'' CounterVec ''circuit_breaker_trips_total''
       ''Total number of circuit breaker trips'' NoBuckets [''backend'']]"

definition limiter_vecs :: "metric_desc list" where
  "limiter_vecs = [
     vec ''RateLimitedRequests'' CounterVec ''rate_limited_requests_total''
       ''Total number of rate limited requests'' NoBuckets [''protocol'', ''limiter_type'']]"

definition resource_vecs :: "metric_desc list" where
  "resource_vecs = [
     vec ''GoroutinesActive'' GaugeVec ''goroutines_active''
       ''Number of active goroutines by component'' NoBuckets [''component''],
     vec ''MemoryAllocated'' GaugeVec ''memory_allocated_bytes''
       ''Memory allocated in bytes'' NoBuckets [''type'']]"

definition auth_vecs :: "metric_desc list" where
  "auth_vecs = [
     vec ''AuthAttempts'' CounterVec ''auth_attempts_total''
       ''Total number of authentication attempts'' NoBuckets [''protocol'', ''type''],
     vec ''AuthFailures'' CounterVec ''auth_failures_total''
       ''Total number of authentication failures'' NoBuckets [''protocol'', ''type'', ''reason'']]"

definition protocol_vecs :: "metric_desc list" where
  "protocol_vecs = [
     vec ''MQTTPackets'' CounterVec ''mqtt_packets_total''
       ''Total number of MQTT packets'' NoBuckets [''packet_type'', ''direction''],
     vec ''HTTPRequests'' CounterVec ''http_requests_total''
       ''Total number of HTTP requests'' NoBuckets [''method'', ''path'', ''status''],
     vec ''CoAPMessages'' CounterVec ''coap_messages_total''
       ''Total number of CoAP messages'' NoBuckets [''method'', ''code''],
     vec ''WebSocketFrames'' CounterVec ''websocket_frames_total''
       ''Total number of WebSocket frames'' NoBuckets [''frame_type'', ''direction'']]"

definition Metrics_fields :: "metric_desc list" where
  "Metrics_fields = connection_vecs @ request_vecs @ backend_vecs @ breaker_vecs @ limiter_vecs @ resource_vecs @ auth_vecs @ protocol_vecs"

text \<open>\<^verbatim>\<open>New\<close>: the full names registered, and the vectors.\<close>

definition metrics_New :: "string \<Rightarrow> string list \<times> metric_desc list" where
  "metrics_New namespace = (
     let namespace = (if namespace = [] then ''mproxy'' else namespace)
     in (map (\<lambda>d. namespace @ ''_'' @ md_name d) Metrics_fields, Metrics_fields))"

text \<open>
  One operation on the child of a vector with the given label values; \<open>SetTo\<close> and \<open>ObserveVal\<close>
  carry the value, a 64-bit float.
\<close>

datatype metric_op =
    Inc string "string list"
  | Dec string "string list"
  | SetTo string "string list" rat
  | ObserveVal string "string list" rat

type_synonym metrics = "metric_op list"

text \<open>
  \<^verbatim>\<open>ObserveConnection\<close>: the deferred calls run last in, first out, so the duration is
  observed before the gauge goes down. \<open>f\<close> runs on the state of the caller; \<open>t0\<close> and \<open>t1\<close>
  are the clock readings.
\<close>

definition ObserveConnection :: "string \<Rightarrow> string \<Rightarrow> ('s \<Rightarrow> err option \<times> 's) \<Rightarrow> time \<Rightarrow> time \<Rightarrow> metrics \<times> 's
    \<Rightarrow> err option \<times> metrics \<times> 's" where
  "ObserveConnection protocol connType f t0 t1 ms = (case ms of (m, s) \<Rightarrow>
     (let m = m @ [Inc ''ActiveConnections'' [protocol, connType]]
      in case f s of (e, s) \<Rightarrow>
        (let status = (if e \<noteq> None then ''error'' else ''success'');
             m = m @ [Inc ''TotalConnections'' [protocol, connType, status]];
             m = m @ [ObserveVal ''ConnectionDuration'' [protocol, connType] (Seconds (time_sub t1 t0))];
             m = m @ [Dec ''ActiveConnections'' [protocol, connType]]
         in (e, m, s))))"

definition ObserveRequest :: "string \<Rightarrow> string \<Rightarrow> ('s \<Rightarrow> (string \<times> err option) \<times> 's) \<Rightarrow> time \<Rightarrow> time \<Rightarrow> metrics \<times> 's
    \<Rightarrow> err option \<times> metrics \<times> 's" where
  "ObserveRequest protocol meth f t0 t1 ms = (case ms of (m, s) \<Rightarrow>
     (case f s of ((status, e), s) \<Rightarrow>
        (e, m @ [Inc ''RequestsTotal'' [protocol, meth, status],
                 ObserveVal ''RequestDuration'' [protocol, meth] (Seconds (time_sub t1 t0))], s)))"

section \<open>Reading a trace\<close>

text \<open>The value of a gauge or counter: increments less decrements since it was last set.\<close>

fun metric_value :: "string \<Rightarrow> string list \<Rightarrow> rat \<Rightarrow> metrics \<Rightarrow> rat" where
  "metric_value f ls v [] = v"
| "metric_value f ls v (Inc g ks # ms) = metric_value f ls (if g = f \<and> ks = ls then v + 1 else v) ms"
| "metric_value f ls v (Dec g ks # ms) = metric_value f ls (if g = f \<and> ks = ls then v - 1 else v) ms"
| "metric_value f ls v (SetTo g ks x # ms) = metric_value f ls (if g = f \<and> ks = ls then x else v) ms"
| "metric_value f ls v (ObserveVal g ks x # ms) = metric_value f ls v ms"

text \<open>An operation fits the registered vector: its kind has the operation, and the number of labels agrees.\<close>

definition desc_of :: "string \<Rightarrow> metric_desc option" where
  "desc_of f = find (\<lambda>d. md_field d = f) Metrics_fields"

definition shape_of :: "string \<Rightarrow> (metric_kind \<times> nat) option" where
  "shape_of f = map_option (\<lambda>d. (md_kind d, length (md_labels d))) (desc_of f)"

fun op_kinds :: "metric_op \<Rightarrow> metric_kind list" where
  "op_kinds (Inc f ls) = [GaugeVec, CounterVec]"
| "op_kinds (Dec f ls) = [GaugeVec]"
| "op_kinds (SetTo f ls x) = [GaugeVec]"
| "op_kinds (ObserveVal f ls x) = [HistogramVec]"

fun op_target :: "metric_op \<Rightarrow> string \<times> string list" where
  "op_target (Inc f ls) = (f, ls)"
| "op_target (Dec f ls) = (f, ls)"
| "op_target (SetTo f ls x) = (f, ls)"
| "op_target (ObserveVal f ls x) = (f, ls)"

definition well_labelled :: "metric_op \<Rightarrow> bool" where
  "well_labelled m \<longleftrightarrow> (case shape_of (fst (op_target m)) of
     None \<Rightarrow> False
   | Some (k, n) \<Rightarrow> k \<in> set (op_kinds m) \<and> length (snd (op_target m)) = n)"

text \<open>
  What the library demands of a vector, else it panics: distinct label names, and for a histogram
  strictly increasing buckets and no label \<^verbatim>\<open>le\<close>.
\<close>

definition valid_desc :: "metric_desc \<Rightarrow> bool" where
  "valid_desc d \<longleftrightarrow> distinct (md_labels d) \<and> (md_kind d = HistogramVec \<longleftrightarrow> md_buckets d \<noteq> NoBuckets)
     \<and> (md_kind d = HistogramVec \<longrightarrow> ''le'' \<notin> set (md_labels d))
     \<and> (case md_buckets d of Buckets bs \<Rightarrow> sorted_wrt (<) bs | _ \<Rightarrow> True)"

section \<open>Lemmas\<close>

lemma metric_value_append: "metric_value f ls v (ms @ ns) = metric_value f ls (metric_value f ls v ms) ns"
  by (induction f ls v ms rule: metric_value.induct) simp_all

text \<open>The label counts the code uses.\<close>

lemma shape_simps:
  "shape_of ''ActiveConnections'' = Some (GaugeVec, 2)"
  "shape_of ''TotalConnections'' = Some (CounterVec, 3)"
  "shape_of ''ConnectionDuration'' = Some (HistogramVec, 2)"
  "shape_of ''RequestsTotal'' = Some (CounterVec, 3)"
  "shape_of ''RequestDuration'' = Some (HistogramVec, 2)"
  "shape_of ''RequestSize'' = Some (HistogramVec, 1)"
  "shape_of ''RateLimitedRequests'' = Some (CounterVec, 2)"
  "shape_of ''AuthAttempts'' = Some (CounterVec, 2)"
  "shape_of ''AuthFailures'' = Some (CounterVec, 3)"
  "shape_of ''MQTTPackets'' = Some (CounterVec, 2)"
  "shape_of ''CircuitBreakerState'' = Some (GaugeVec, 1)"
  "shape_of ''CircuitBreakerTrips'' = Some (CounterVec, 1)"
  "shape_of ''GoroutinesActive'' = Some (GaugeVec, 1)"
  "shape_of ''MemoryAllocated'' = Some (GaugeVec, 1)"
  "shape_of ''BackendActiveConnections'' = Some (GaugeVec, 1)"
  by code_simp+

lemmas labelled_simps = well_labelled_def shape_simps

section \<open>Observed connections\<close>

text \<open>The names registered are distinct, so that registration in an empty registry does not panic.\<close>

lemma metrics_registered_once: "distinct (fst (metrics_New namespace)) \<and> distinct (map md_field (snd (metrics_New namespace)))"
proof -
  have "distinct (map md_name Metrics_fields)" and f: "distinct (map md_field Metrics_fields)" by code_simp+
  then have "distinct (map (\<lambda>x. (if namespace = [] then ''mproxy'' else namespace) @ ''_'' @ x) (map md_name Metrics_fields))"
    by (simp only: distinct_map) (simp add: inj_on_def)
  with f show ?thesis by (simp add: metrics_New_def Let_def comp_def)
qed

lemma metrics_valid: "list_all valid_desc (snd (metrics_New namespace))"
proof -
  have "list_all valid_desc Metrics_fields" by code_simp
  then show ?thesis by (simp add: metrics_New_def Let_def)
qed

text \<open>A connection observed from beginning to end leaves the gauge where it was, whatever
  the observed function does, and every operation fits its vector.\<close>

lemma observed_connection_balanced:
  "case ObserveConnection protocol connType f t0 t1 (m, s) of (e, m', s') \<Rightarrow>
     (e, s') = f s \<and> metric_value ''ActiveConnections'' ls v m' = metric_value ''ActiveConnections'' ls v m
     \<and> (\<exists>ops. m' = m @ ops \<and> list_all well_labelled ops)"
  by (auto simp: ObserveConnection_def Let_def metric_value_append labelled_simps split: prod.splits)

end
