(* ===== verification/Ratelimit.thy ===== *)
theory Ratelimit
  imports Float64 Errors
begin

text \<open>
  The rate limiter (\<^verbatim>\<open>src/pkg/ratelimit/ratelimit.go\<close>): the token bucket and the
  limiter that keeps one bucket per client. Buckets live in the store \<open>lim_buckets\<close> and
  the Go map holds references, because a goroutine may use a bucket after the map has
  forgotten it. \<^verbatim>\<open>Limiter.AllowN\<close> is three critical sections (lookup, admission, the
  bucket's own), and the step relation interleaves them. Shown: the amortised rate bound,
  through the locale \<open>budget_gate\<close> that the bucket and the limiter both interpret, exact
  refill, the bound on the number of clients under every interleaving, isolation of
  clients, and that the periodic cleanup never evicts anybody.
\<close>

section \<open>Definitions\<close>

definition ErrRateLimitExceeded :: err where
  "ErrRateLimitExceeded = Sentinel ''ratelimit.ErrRateLimitExceeded'' ''rate limit exceeded''"

record TokenBucket =
  tb_capacity :: int
  tb_tokens :: int
  tb_refillRate :: int
  tb_lastRefill :: time

definition NewTokenBucket :: "int \<Rightarrow> int \<Rightarrow> time \<Rightarrow> TokenBucket" where
  "NewTokenBucket capacity refillRate now =
     \<lparr>tb_capacity = capacity, tb_tokens = capacity, tb_refillRate = refillRate, tb_lastRefill = now\<rparr>"

text \<open>\<open>ov\<close> is the target's conversion of a float that does not fit an \<^verbatim>\<open>int64\<close>.\<close>

definition refill :: "(rat \<Rightarrow> int) \<Rightarrow> time \<Rightarrow> TokenBucket \<Rightarrow> TokenBucket" where
  "refill ov now tb = (
     let elapsed = Seconds (time_sub now (tb_lastRefill tb));
         tokensToAdd = float_to_int64 ov (fl64 (elapsed * fl64 (of_int (tb_refillRate tb))))
     in if tokensToAdd > 0 then
          let tb = tb\<lparr>tb_tokens := wrap64 (tb_tokens tb + tokensToAdd)\<rparr>;
              tb = (if tb_tokens tb > tb_capacity tb then tb\<lparr>tb_tokens := tb_capacity tb\<rparr> else tb)
          in tb\<lparr>tb_lastRefill := now\<rparr>
        else tb)"

definition bucket_AllowN :: "(rat \<Rightarrow> int) \<Rightarrow> time \<Rightarrow> int \<Rightarrow> TokenBucket \<Rightarrow> bool \<times> TokenBucket" where
  "bucket_AllowN ov now n tb = (
     let tb = refill ov now tb
     in if tb_tokens tb \<ge> n then (True, tb\<lparr>tb_tokens := wrap64 (tb_tokens tb - n)\<rparr>)
        else (False, tb))"

definition bucket_Allow :: "(rat \<Rightarrow> int) \<Rightarrow> time \<Rightarrow> TokenBucket \<Rightarrow> bool \<times> TokenBucket" where
  "bucket_Allow ov now tb = bucket_AllowN ov now 1 tb"

definition Available :: "(rat \<Rightarrow> int) \<Rightarrow> time \<Rightarrow> TokenBucket \<Rightarrow> int \<times> TokenBucket" where
  "Available ov now tb = (let tb = refill ov now tb in (tb_tokens tb, tb))"

text \<open>
  The limiter. \<open>lim_timer\<close> says whether a cleanup is scheduled (\<^verbatim>\<open>time.AfterFunc\<close>).
\<close>

record Limiter =
  lim_limiters :: "nat gomap"
  lim_capacity :: int
  lim_refillRate :: int
  lim_maxClients :: int
  lim_timer :: bool
  lim_buckets :: "TokenBucket list"

definition NewLimiter :: "int \<Rightarrow> int \<Rightarrow> int \<Rightarrow> Limiter" where
  "NewLimiter capacity refillRate maxClients = (
     let maxClients = (if maxClients = 0 then 10000 else maxClients)
     in \<lparr>lim_limiters = [], lim_capacity = capacity, lim_refillRate = refillRate,
         lim_maxClients = maxClients, lim_timer = True, lim_buckets = []\<rparr>)"

text \<open>The read-locked lookup, the write-locked admission, and the bucket's critical section.\<close>

definition limiter_lookup :: "string \<Rightarrow> Limiter \<Rightarrow> nat option" where
  "limiter_lookup clientID l = go_get (lim_limiters l) clientID"

definition limiter_admit :: "string \<Rightarrow> time \<Rightarrow> Limiter \<Rightarrow> nat option \<times> Limiter" where
  "limiter_admit clientID now l = (case go_get (lim_limiters l) clientID of
     Some tb \<Rightarrow> (Some tb, l)
   | None \<Rightarrow>
       (if go_len (lim_limiters l) \<ge> lim_maxClients l then (None, l)
        else let tb = length (lim_buckets l)
             in (Some tb, l\<lparr>lim_buckets := lim_buckets l
                              @ [NewTokenBucket (lim_capacity l) (lim_refillRate l) now],
                            lim_limiters := go_put clientID tb (lim_limiters l)\<rparr>)))"

definition limiter_take :: "(rat \<Rightarrow> int) \<Rightarrow> nat \<Rightarrow> time \<Rightarrow> int \<Rightarrow> Limiter \<Rightarrow> bool \<times> Limiter" where
  "limiter_take ov tb now n l = (case bucket_AllowN ov now n (lim_buckets l ! tb) of
     (b, tb') \<Rightarrow> (b, l\<lparr>lim_buckets := (lim_buckets l)[tb := tb']\<rparr>))"

text \<open>\<^verbatim>\<open>AllowN\<close> of one goroutine alone; \<open>t0\<close> is read when a bucket is made, \<open>t1\<close> at its refill.\<close>

definition limiter_AllowN :: "(rat \<Rightarrow> int) \<Rightarrow> string \<Rightarrow> int \<Rightarrow> time \<Rightarrow> time \<Rightarrow> Limiter \<Rightarrow> bool \<times> Limiter"
where
  "limiter_AllowN ov clientID n t0 t1 l = (case limiter_lookup clientID l of
     Some tb \<Rightarrow> limiter_take ov tb t1 n l
   | None \<Rightarrow> (case limiter_admit clientID t0 l of
       (None, l') \<Rightarrow> (False, l')
     | (Some tb, l') \<Rightarrow> limiter_take ov tb t1 n l'))"

definition limiter_Allow :: "(rat \<Rightarrow> int) \<Rightarrow> string \<Rightarrow> time \<Rightarrow> time \<Rightarrow> Limiter \<Rightarrow> bool \<times> Limiter" where
  "limiter_Allow ov clientID t0 t1 l = limiter_AllowN ov clientID 1 t0 t1 l"

definition limiter_Remove :: "string \<Rightarrow> Limiter \<Rightarrow> Limiter" where
  "limiter_Remove clientID l = l\<lparr>lim_limiters := go_delete clientID (lim_limiters l)\<rparr>"

text \<open>\<open>order\<close> is the order in which the range loop visits the entries of the map.\<close>

fun keep_first :: "int \<Rightarrow> nat gomap \<Rightarrow> int \<Rightarrow> nat gomap \<Rightarrow> nat gomap" where
  "keep_first count newLimiters target [] = newLimiters"
| "keep_first count newLimiters target ((k, v) # order) =
     (if count < target then keep_first (count + 1) (go_put k v newLimiters) target order
      else keep_first count newLimiters target order)"

definition limiter_cleanup :: "nat gomap \<Rightarrow> Limiter \<Rightarrow> Limiter" where
  "limiter_cleanup order l = (
     let l = (if go_len (lim_limiters l) > wrap64 (lim_maxClients l * 2)
              then l\<lparr>lim_limiters := keep_first 0 [] (lim_maxClients l) order\<rparr> else l)
     in l\<lparr>lim_timer := True\<rparr>)"

definition limiter_Stats :: "Limiter \<Rightarrow> int" where
  "limiter_Stats l = go_len (lim_limiters l)"

definition limiter_Close :: "Limiter \<Rightarrow> Limiter" where
  "limiter_Close l = l\<lparr>lim_timer := False\<rparr>"

text \<open>
  Several goroutines: \<open>ls_missed\<close> are those whose lookup found nothing and who wait for
  the write lock, \<open>ls_ready\<close> those who hold a bucket and have not taken from it yet.
\<close>

record limiter_sys =
  ls_lim :: Limiter
  ls_missed :: "string list"
  ls_ready :: "(string \<times> nat) list"

inductive limiter_step :: "(rat \<Rightarrow> int) \<Rightarrow> limiter_sys \<Rightarrow> limiter_sys \<Rightarrow> bool" for ov where
  hit: "limiter_lookup c (ls_lim s) = Some tb \<Longrightarrow>
     limiter_step ov s (s\<lparr>ls_ready := (c, tb) # ls_ready s\<rparr>)"
| miss: "limiter_lookup c (ls_lim s) = None \<Longrightarrow>
     limiter_step ov s (s\<lparr>ls_missed := c # ls_missed s\<rparr>)"
| admit: "c \<in> set (ls_missed s) \<Longrightarrow> limiter_admit c now (ls_lim s) = (Some tb, l) \<Longrightarrow>
     limiter_step ov s (s\<lparr>ls_lim := l, ls_missed := remove1 c (ls_missed s),
                          ls_ready := (c, tb) # ls_ready s\<rparr>)"
| deny: "c \<in> set (ls_missed s) \<Longrightarrow> limiter_admit c now (ls_lim s) = (None, l) \<Longrightarrow>
     limiter_step ov s (s\<lparr>ls_lim := l, ls_missed := remove1 c (ls_missed s)\<rparr>)"
| take: "(c, tb) \<in> set (ls_ready s) \<Longrightarrow> limiter_take ov tb now n (ls_lim s) = (b, l) \<Longrightarrow>
     limiter_step ov s (s\<lparr>ls_lim := l, ls_ready := remove1 (c, tb) (ls_ready s)\<rparr>)"
| remove: "limiter_step ov s (s\<lparr>ls_lim := limiter_Remove c (ls_lim s)\<rparr>)"
| cleanup: "lim_timer (ls_lim s) \<Longrightarrow> go_map order \<Longrightarrow> set order = set (lim_limiters (ls_lim s)) \<Longrightarrow>
     limiter_step ov s (s\<lparr>ls_lim := limiter_cleanup order (ls_lim s)\<rparr>)"
| close: "limiter_step ov s (s\<lparr>ls_lim := limiter_Close (ls_lim s)\<rparr>)"

inductive_simps limiter_step_iff: "limiter_step ov s t"

definition limiter_init :: "limiter_sys \<Rightarrow> bool" where
  "limiter_init s \<longleftrightarrow> (\<exists>c r m. s = \<lparr>ls_lim = NewLimiter c r m, ls_missed = [], ls_ready = []\<rparr>)"

text \<open>The bucket the map holds for a client.\<close>

definition bucket_of :: "Limiter \<Rightarrow> string \<Rightarrow> TokenBucket option" where
  "bucket_of l c = map_option (\<lambda>tb. lim_buckets l ! tb) (go_get (lim_limiters l) c)"

definition lim_inv :: "Limiter \<Rightarrow> bool" where
  [inv_defs]: "lim_inv l \<longleftrightarrow> go_map (lim_limiters l)
     \<and> distinct (map snd (lim_limiters l))
     \<and> list_all (\<lambda>(c, tb). tb < length (lim_buckets l)) (lim_limiters l)
     \<and> go_len (lim_limiters l) \<le> max 0 (lim_maxClients l)
     \<and> list_all (\<lambda>b. tb_capacity b = lim_capacity l \<and> tb_refillRate b = lim_refillRate l) (lim_buckets l)"

definition limiter_sys_inv :: "limiter_sys \<Rightarrow> bool" where
  [inv_defs]: "limiter_sys_inv s \<longleftrightarrow> lim_inv (ls_lim s)
     \<and> list_all (\<lambda>(c, tb). tb < length (lim_buckets (ls_lim s))) (ls_ready s)"

text \<open>
  What a run of requests is granted in total, for any operation that answers a request
  with the amount it grants.
\<close>

fun granted :: "('q \<Rightarrow> 's \<Rightarrow> int \<times> 's) \<Rightarrow> 'q list \<Rightarrow> 's \<Rightarrow> int" where
  "granted ask [] s = 0"
| "granted ask (q # qs) s = fst (ask q s) + granted ask qs (snd (ask q s))"

fun in_time_order :: "('q \<Rightarrow> time) \<Rightarrow> ('q \<Rightarrow> time) \<Rightarrow> time \<Rightarrow> 'q list \<Rightarrow> bool" where
  "in_time_order begun clock t [] = True"
| "in_time_order begun clock t (q # qs) =
     (t \<le> begun q \<and> begun q \<le> clock q \<and> in_time_order begun clock (clock q) qs)"

definition last_time :: "('q \<Rightarrow> time) \<Rightarrow> time \<Rightarrow> 'q list \<Rightarrow> time" where
  "last_time clock t qs = last (t # map clock qs)"

text \<open>A request to a bucket, and one client's requests among those to the limiter.\<close>

definition bucket_ask :: "(rat \<Rightarrow> int) \<Rightarrow> time \<times> int \<Rightarrow> TokenBucket \<Rightarrow> int \<times> TokenBucket" where
  "bucket_ask ov q tb = (case bucket_AllowN ov (fst q) (snd q) tb of
     (b, tb') \<Rightarrow> (if b then snd q else 0, tb'))"

record request =
  rq_t0 :: time
  rq_t1 :: time
  rq_client :: string
  rq_n :: int

definition client_ask :: "(rat \<Rightarrow> int) \<Rightarrow> string \<Rightarrow> request \<Rightarrow> Limiter \<Rightarrow> int \<times> Limiter" where
  "client_ask ov c q l = (case limiter_AllowN ov (rq_client q) (rq_n q) (rq_t0 q) (rq_t1 q) l of
     (b, l') \<Rightarrow> (if b \<and> rq_client q = c then rq_n q else 0, l'))"

text \<open>
  The contract of a gate that spends from a budget: the grant and what is left are paid
  for by what was there before and by the time that has passed on the gate's own clock.
\<close>

locale budget_gate =
  fixes ask :: "'q \<Rightarrow> 's \<Rightarrow> int \<times> 's"
    and begun :: "'q \<Rightarrow> time"
    and clock :: "'q \<Rightarrow> time"
    and proper :: "'q \<Rightarrow> bool"
    and ok :: "'s \<Rightarrow> bool"
    and level :: "'s \<Rightarrow> int"
    and stamp :: "'s \<Rightarrow> time"
    and rate :: "'s \<Rightarrow> rat"
  assumes ok_ask: "ok s \<Longrightarrow> stamp s \<le> begun q \<Longrightarrow> begun q \<le> clock q \<Longrightarrow> proper q \<Longrightarrow> ok (snd (ask q s))"
    and rate_ask: "ok s \<Longrightarrow> stamp s \<le> begun q \<Longrightarrow> begun q \<le> clock q \<Longrightarrow> proper q \<Longrightarrow> rate (snd (ask q s)) = rate s"
    and stamp_ask: "ok s \<Longrightarrow> stamp s \<le> begun q \<Longrightarrow> begun q \<le> clock q \<Longrightarrow> proper q \<Longrightarrow>
      stamp s \<le> stamp (snd (ask q s)) \<and> stamp (snd (ask q s)) \<le> clock q"
    and spend: "ok s \<Longrightarrow> stamp s \<le> begun q \<Longrightarrow> begun q \<le> clock q \<Longrightarrow> proper q \<Longrightarrow>
      of_int (fst (ask q s) + level (snd (ask q s)))
        \<le> of_int (level s) + rate s * of_int (stamp (snd (ask q s)) - stamp s)"
    and level_nonneg: "ok s \<Longrightarrow> 0 \<le> level s"
    and rate_nonneg: "ok s \<Longrightarrow> 0 \<le> rate s"
begin

lemma granted_bound:
  "ok s \<Longrightarrow> stamp s \<le> t \<Longrightarrow> in_time_order begun clock t qs \<Longrightarrow> list_all proper qs \<Longrightarrow>
   of_int (granted ask qs s) \<le> of_int (level s) + rate s * of_int (last_time clock t qs - stamp s)"
proof (induction qs arbitrary: s t)
  case Nil
  then show ?case
    using level_nonneg [of s] rate_nonneg [of s] by (simp add: last_time_def flip: of_int_diff)
next
  case (Cons q qs)
  let ?s = "snd (ask q s)"
  from Cons.prems have c: "stamp s \<le> begun q" "begun q \<le> clock q" "proper q" by auto
  note laws = ok_ask [OF Cons.prems(1) c] rate_ask [OF Cons.prems(1) c] stamp_ask [OF Cons.prems(1) c]
  have "of_int (granted ask qs ?s) \<le>
      of_int (level ?s) + rate s * of_int (last_time clock (clock q) qs - stamp ?s)"
    using Cons.IH [of ?s "clock q"] laws Cons.prems by simp
  with spend [OF Cons.prems(1) c]
  have "of_int (granted ask (q # qs) s) \<le>
      of_int (level s) + rate s * of_int (last_time clock (clock q) qs - stamp s)"
    by (simp add: algebra_simps)
  then show ?case by (simp add: last_time_def)
qed

end

section \<open>The token bucket\<close>

text \<open>The conversion of an out-of-range float yields some \<^verbatim>\<open>int64\<close>.\<close>

definition ov_ok :: "(rat \<Rightarrow> int) \<Rightarrow> bool" where
  "ov_ok ov \<longleftrightarrow> (\<forall>x. in_int64 (ov x))"

definition tokensToAdd :: "(rat \<Rightarrow> int) \<Rightarrow> time \<Rightarrow> TokenBucket \<Rightarrow> int" where
  "tokensToAdd ov now tb = float_to_int64 ov
     (fl64 (Seconds (time_sub now (tb_lastRefill tb)) * fl64 (of_int (tb_refillRate tb))))"

definition bucket_ok :: "TokenBucket \<Rightarrow> bool" where
  [inv_defs]: "bucket_ok tb \<longleftrightarrow> 0 \<le> tb_refillRate tb \<and> min_int64 \<le> tb_tokens tb
     \<and> tb_tokens tb \<le> tb_capacity tb \<and> tb_capacity tb \<le> max_int64"

lemma refill_eq:
  "refill ov now tb = (if tokensToAdd ov now tb > 0
     then tb\<lparr>tb_tokens := min (tb_capacity tb) (wrap64 (tb_tokens tb + tokensToAdd ov now tb)),
             tb_lastRefill := now\<rparr>
     else tb)"
  by (simp add: refill_def tokensToAdd_def Let_def min_def not_le)

lemma wrap64_le_pos: "min_int64 \<le> x \<Longrightarrow> wrap64 x \<le> x"
  using zmod_le_nonneg_dividend [of "x + 2 ^ 63" "2 ^ 64"] by (simp add: wrap64_def min_int64_def)

lemma float_to_int64_le:
  assumes "ov_ok ov" and "0 \<le> x"
  shows "of_int (float_to_int64 ov x) \<le> x"
proof (cases "in_int64 \<lfloor>x\<rfloor>")
  case True
  then show ?thesis using assms(2) by (simp add: float_to_int64_def Let_def)
next
  case False
  moreover have "0 \<le> \<lfloor>x\<rfloor>" using assms(2) by simp
  ultimately have "max_int64 < \<lfloor>x\<rfloor>" by (simp add: in_int64_def min_int64_def)
  moreover have "ov x \<le> max_int64" using assms(1) by (simp add: ov_ok_def in_int64_def)
  ultimately have "ov x \<le> \<lfloor>x\<rfloor>" by simp
  then show ?thesis using False assms(2) by (simp add: float_to_int64_def Let_def le_floor_iff)
qed

lemma tokensToAdd_le:
  assumes "ov_ok ov" and "tb_lastRefill tb \<le> now" and "0 \<le> tb_refillRate tb"
  shows "of_int (tokensToAdd ov now tb)
    \<le> slack * of_int (tb_refillRate tb) / 1000000000 * of_int (now - tb_lastRefill tb)"
proof -
  let ?d = "time_sub now (tb_lastRefill tb)" and ?r = "tb_refillRate tb"
  have d: "0 \<le> ?d" "?d \<le> now - tb_lastRefill tb"
    using assms(2) by (simp_all add: time_sub_nonneg time_sub_le)
  note p = refill_product [OF d(1) assms(3)]
  have "of_int (tokensToAdd ov now tb) \<le> fl64 (Seconds ?d * fl64 (of_int ?r))"
    unfolding tokensToAdd_def using p by (intro float_to_int64_le [OF assms(1)]) simp
  also have "\<dots> \<le> slack * (of_int ?r * of_int ?d / 1000000000)" using p by simp
  also have "\<dots> = slack * of_int ?r / 1000000000 * of_int ?d" by simp
  also have "\<dots> \<le> slack * of_int ?r / 1000000000 * of_int (now - tb_lastRefill tb)"
    using d slack_pos assms(3) by (intro mult_left_mono) simp_all
  finally show ?thesis .
qed

lemma refill_fields [simp]:
  "tb_capacity (refill ov now tb) = tb_capacity tb"
  "tb_refillRate (refill ov now tb) = tb_refillRate tb"
  by (simp_all add: refill_eq)

lemma AllowN_fields [simp]:
  "tb_capacity (snd (bucket_AllowN ov now n tb)) = tb_capacity tb"
  "tb_refillRate (snd (bucket_AllowN ov now n tb)) = tb_refillRate tb"
  "tb_lastRefill (snd (bucket_AllowN ov now n tb)) = tb_lastRefill (refill ov now tb)"
  by (simp_all add: bucket_AllowN_def Let_def)

lemma refill_stamp: "tb_lastRefill tb \<le> now \<Longrightarrow>
   tb_lastRefill tb \<le> tb_lastRefill (refill ov now tb) \<and> tb_lastRefill (refill ov now tb) \<le> now"
  by (simp add: refill_eq)

lemma bucket_ok_refill: "bucket_ok tb \<Longrightarrow> bucket_ok (refill ov now tb)"
  by (auto simp: bucket_ok_def refill_eq)

lemma spend_no_wrap: "min_int64 \<le> t \<Longrightarrow> t \<le> max_int64 \<Longrightarrow> 0 \<le> n \<Longrightarrow> n \<le> t \<Longrightarrow> wrap64 (t - n) = t - n"
  by (rule wrap64_id) (auto simp: in_int64_def min_int64_def)

lemma bucket_ok_AllowN: "bucket_ok tb \<Longrightarrow> 0 \<le> n \<Longrightarrow> bucket_ok (snd (bucket_AllowN ov now n tb))"
  using bucket_ok_refill [of tb ov now]
  by (auto simp: bucket_AllowN_def Let_def bucket_ok_def spend_no_wrap min_int64_def)

lemma bucket_ok_New: "in_int64 capacity \<Longrightarrow> 0 \<le> rate \<Longrightarrow> bucket_ok (NewTokenBucket capacity rate now)"
  by (simp add: bucket_ok_def NewTokenBucket_def in_int64_def)

lemma refill_level:
  assumes "ov_ok ov" and "tb_lastRefill tb \<le> now" and "bucket_ok tb"
  shows "of_int (max 0 (tb_tokens (refill ov now tb))) \<le> of_int (max 0 (tb_tokens tb))
    + slack * of_int (tb_refillRate tb) / 1000000000 * of_int (tb_lastRefill (refill ov now tb) - tb_lastRefill tb)"
proof (cases "tokensToAdd ov now tb > 0")
  case True
  let ?a = "tokensToAdd ov now tb"
  have "min_int64 \<le> tb_tokens tb + ?a" using True assms(3) by (simp add: bucket_ok_def)
  then have "max 0 (tb_tokens (refill ov now tb)) \<le> max 0 (tb_tokens tb) + ?a"
    using True wrap64_le_pos [of "tb_tokens tb + ?a"] by (auto simp: refill_eq)
  then have "(of_int (max 0 (tb_tokens (refill ov now tb))) :: rat) \<le> of_int (max 0 (tb_tokens tb)) + of_int ?a"
    by (metis of_int_add of_int_le_iff)
  also have "\<dots> \<le> of_int (max 0 (tb_tokens tb))
      + slack * of_int (tb_refillRate tb) / 1000000000 * of_int (now - tb_lastRefill tb)"
    using tokensToAdd_le [OF assms(1,2)] assms(3) by (simp add: bucket_ok_def)
  finally show ?thesis using True by (simp add: refill_eq)
next
  case False
  then show ?thesis by (simp add: refill_eq)
qed

lemma AllowN_level:
  assumes "bucket_ok tb" and "0 \<le> n"
  shows "(if fst (bucket_AllowN ov now n tb) then n else 0)
      + max 0 (tb_tokens (snd (bucket_AllowN ov now n tb))) = max 0 (tb_tokens (refill ov now tb))"
  using bucket_ok_refill [OF assms(1), of ov now] assms(2)
  by (auto simp: bucket_AllowN_def Let_def bucket_ok_def spend_no_wrap min_int64_def)

interpretation bucket_gate: budget_gate "bucket_ask ov" fst fst "\<lambda>q. 0 \<le> snd q"
    "\<lambda>tb. ov_ok ov \<and> bucket_ok tb" "\<lambda>tb. max 0 (tb_tokens tb)" tb_lastRefill
    "\<lambda>tb. slack * of_int (tb_refillRate tb) / 1000000000"
  for ov
proof
  fix tb :: TokenBucket and q :: "time \<times> int"
  assume a: "ov_ok ov \<and> bucket_ok tb" "tb_lastRefill tb \<le> fst q" "fst q \<le> fst q" "0 \<le> snd q"
  have s: "snd (bucket_ask ov q tb) = snd (bucket_AllowN ov (fst q) (snd q) tb)"
    and f: "fst (bucket_ask ov q tb) = (if fst (bucket_AllowN ov (fst q) (snd q) tb) then snd q else 0)"
    by (simp_all add: bucket_ask_def split: prod.splits)
  show "ov_ok ov \<and> bucket_ok (snd (bucket_ask ov q tb))"
    using a by (simp add: s bucket_ok_AllowN)
  show "slack * of_int (tb_refillRate (snd (bucket_ask ov q tb))) / 1000000000
      = slack * of_int (tb_refillRate tb) / 1000000000" by (simp add: s)
  show "tb_lastRefill tb \<le> tb_lastRefill (snd (bucket_ask ov q tb))
      \<and> tb_lastRefill (snd (bucket_ask ov q tb)) \<le> fst q"
    using refill_stamp [OF a(2)] by (simp add: s)
  show "of_int (fst (bucket_ask ov q tb) + max 0 (tb_tokens (snd (bucket_ask ov q tb))))
      \<le> of_int (max 0 (tb_tokens tb)) + slack * of_int (tb_refillRate tb) / 1000000000
          * of_int (tb_lastRefill (snd (bucket_ask ov q tb)) - tb_lastRefill tb)"
    unfolding s f AllowN_fields AllowN_level [OF conjunct2 [OF a(1)] a(4)]
    using a by (intro refill_level) simp_all
next
  fix tb :: TokenBucket
  assume a: "ov_ok ov \<and> bucket_ok tb"
  show "0 \<le> max 0 (tb_tokens tb)" by simp
  show "0 \<le> slack * of_int (tb_refillRate tb) / 1000000000"
    using a slack_pos by (simp add: bucket_ok_def)
qed

text \<open>Below \<open>2\<^sup>5\<^sup>3\<close> the refill of whole seconds is exact.\<close>

lemma Seconds_whole:
  assumes "0 \<le> k" and "k < 2 ^ 53"
  shows "Seconds (k * second) = of_int k"
proof -
  have "(k * second) div second = k" and "(k * second) mod second = 0" by (simp_all add: second_def)
  moreover have "0 \<le> k * second" using assms by (simp add: second_def)
  ultimately show ?thesis by (simp add: Seconds_nonneg_eq fl64_of_int [OF assms])
qed

lemma tokensToAdd_whole:
  assumes "now = tb_lastRefill tb + k * second" and "0 \<le> k" and "k * second \<le> max_int64"
    and "0 \<le> tb_refillRate tb" and "tb_refillRate tb < 2 ^ 53" and "k * tb_refillRate tb < 2 ^ 53"
  shows "tokensToAdd ov now tb = k * tb_refillRate tb"
proof -
  have ts: "time_sub now (tb_lastRefill tb) = k * second"
    using assms(1-3) by (simp add: time_sub_def second_def min_int64_def max_int64_def)
  have "k < 2 ^ 53" using assms(2,3) by (simp add: second_def max_int64_def)
  then have "Seconds (time_sub now (tb_lastRefill tb)) * fl64 (of_int (tb_refillRate tb))
      = of_int (k * tb_refillRate tb)"
    unfolding ts using assms(2,4,5) by (simp add: Seconds_whole fl64_of_int)
  then have "tokensToAdd ov now tb = float_to_int64 ov (of_int (k * tb_refillRate tb))"
    unfolding tokensToAdd_def using assms(2,4,6) by (simp only: fl64_of_int mult_nonneg_nonneg)
  moreover have "(of_int (k * tb_refillRate tb) :: rat) < of_int (2 ^ 63)"
    using less_trans [OF assms(6), of "2 ^ 63"] by (simp only: of_int_less_iff) simp
  moreover have "(0 :: rat) \<le> of_int (k * tb_refillRate tb)" using assms(2,4) by simp
  ultimately show ?thesis by (simp add: float_to_int64_nonneg del: of_int_mult)
qed

text \<open>In the range where nothing overflows the tokens stay between zero and the capacity.\<close>

lemma tokensToAdd_small:
  assumes "ov_ok ov" and "tb_lastRefill tb \<le> now" and "0 \<le> tb_refillRate tb" and "tb_refillRate tb \<le> 2 ^ 28"
  shows "tokensToAdd ov now tb \<le> 2 ^ 62"
proof -
  let ?d = "time_sub now (tb_lastRefill tb)" and ?r = "tb_refillRate tb"
  have d: "0 \<le> ?d" "?d \<le> 2 ^ 63"
    using assms(2) time_sub_range [of now "tb_lastRefill tb"]
    by (simp_all add: time_sub_nonneg in_int64_def max_int64_def)
  note p = refill_product [OF d(1) assms(3)]
  have "of_int (tokensToAdd ov now tb) \<le> fl64 (Seconds ?d * fl64 (of_int ?r))"
    unfolding tokensToAdd_def using p by (intro float_to_int64_le [OF assms(1)]) simp
  also have "\<dots> \<le> slack * (of_int ?r * of_int ?d / 1000000000)" using p by simp
  also have "\<dots> \<le> slack * (of_int (2 ^ 28) * of_int (2 ^ 63) / 1000000000)"
    using d assms(3,4) slack_pos by (intro mult_left_mono divide_right_mono mult_mono) (simp_all only: of_int_le_iff, simp_all)
  also have "\<dots> \<le> of_int (2 ^ 62)" by (simp add: slack_def)
  finally show ?thesis by (simp only: of_int_le_iff)
qed

section \<open>The limiter\<close>

lemma limiter_take_simps [simp]:
  "lim_limiters (snd (limiter_take ov tb now n l)) = lim_limiters l"
  "lim_maxClients (snd (limiter_take ov tb now n l)) = lim_maxClients l"
  "lim_capacity (snd (limiter_take ov tb now n l)) = lim_capacity l"
  "lim_refillRate (snd (limiter_take ov tb now n l)) = lim_refillRate l"
  "lim_buckets (snd (limiter_take ov tb now n l)) =
     (lim_buckets l)[tb := snd (bucket_AllowN ov now n (lim_buckets l ! tb))]"
  "fst (limiter_take ov tb now n l) = fst (bucket_AllowN ov now n (lim_buckets l ! tb))"
  by (simp_all add: limiter_take_def split: prod.splits)

lemma limiter_admit_simps [simp]:
  "lim_maxClients (snd (limiter_admit c now l)) = lim_maxClients l"
  "lim_capacity (snd (limiter_admit c now l)) = lim_capacity l"
  "lim_refillRate (snd (limiter_admit c now l)) = lim_refillRate l"
  by (simp_all add: limiter_admit_def Let_def split: option.splits)

lemma lim_inv_New: "lim_inv (NewLimiter c r m)"
  by (simp add: lim_inv_def NewLimiter_def Let_def)

lemma lim_inv_take: "lim_inv l \<Longrightarrow> tb < length (lim_buckets l) \<Longrightarrow> lim_inv (snd (limiter_take ov tb now n l))"
  by (auto simp: lim_inv_def list_all_iff dest!: set_update_subset_insert [THEN subsetD])

lemma lim_inv_admit:
  assumes "lim_inv l"
  shows "lim_inv (snd (limiter_admit c now l))"
proof (cases "go_get (lim_limiters l) c = None \<and> go_len (lim_limiters l) < lim_maxClients l")
  case True
  have r: "\<forall>x \<in> set (lim_limiters l). snd x < length (lim_buckets l)"
    using assms by (auto simp: lim_inv_def list_all_iff)
  then have "length (lim_buckets l) \<notin> set (map snd (lim_limiters l))" by auto
  moreover have "c \<notin> fst ` set (lim_limiters l)" using True by (simp add: map_of_eq_None_iff)
  moreover have "\<forall>x \<in> set (lim_limiters l). snd x < Suc (length (lim_buckets l))" using r by auto
  ultimately show ?thesis
    using True assms by (simp add: limiter_admit_def lim_inv_def Let_def put_new_append go_map_def
        list_all_iff NewTokenBucket_def case_prod_beta)
next
  case False
  then show ?thesis using assms by (auto simp: limiter_admit_def split: option.splits)
qed

lemma admit_ref: "lim_inv l \<Longrightarrow> limiter_admit c now l = (Some tb, l') \<Longrightarrow>
   tb < length (lim_buckets l') \<and> go_get (lim_limiters l') c = Some tb"
  by (auto simp: limiter_admit_def lim_inv_def Let_def list_all_iff
      split: option.splits if_splits dest!: map_of_SomeD bspec)

lemma lookup_ref: "lim_inv l \<Longrightarrow> limiter_lookup c l = Some tb \<Longrightarrow> tb < length (lim_buckets l)"
  by (auto simp: limiter_lookup_def lim_inv_def list_all_iff dest!: map_of_SomeD)

lemma admit_buckets_grow: "length (lim_buckets l) \<le> length (lim_buckets (snd (limiter_admit c now l)))"
  by (simp add: limiter_admit_def Let_def split: option.splits)

lemma lim_inv_Remove: "lim_inv l \<Longrightarrow> lim_inv (limiter_Remove c l)"
  by (auto simp: lim_inv_def limiter_Remove_def list_all_iff distinct_snd_delete go_len_delete
      dest: set_delete_sub)

text \<open>With room for every entry, the loop of \<open>cleanup\<close> copies the whole map.\<close>

lemma keep_first_all:
  "go_map (m @ order) \<Longrightarrow> count + go_len order \<le> target \<Longrightarrow> keep_first count m target order = m @ order"
proof (induction order arbitrary: count m)
  case Nil
  then show ?case by simp
next
  case (Cons e order)
  obtain k v where e: "e = (k, v)" by (cases e)
  have "go_get m k = None" using Cons.prems by (auto simp: e go_map_def map_of_eq_None_iff)
  then show ?case using Cons.IH [of "m @ [(k, v)]" "count + 1"] Cons.prems
    by (simp add: e put_new_append)
qed

lemma cleanup_map:
  assumes "lim_inv l" and "go_map order" and "set order = set (lim_limiters l)"
  shows "lim_limiters (limiter_cleanup order l) = lim_limiters l
    \<or> lim_limiters (limiter_cleanup order l) = order"
proof -
  have "length order = length (lim_limiters l)"
    using assms by (metis distinct_card distinct_map go_map_def lim_inv_def)
  then have "0 + go_len order \<le> max 0 (lim_maxClients l)" using assms(1) by (simp add: lim_inv_def)
  then have "order = [] \<or> go_len order \<le> lim_maxClients l" by (cases order) auto
  then have "keep_first 0 [] (lim_maxClients l) order = order"
    using keep_first_all [of "[]" order 0 "lim_maxClients l"] assms(2) by auto
  then show ?thesis by (simp add: limiter_cleanup_def Let_def)
qed

lemma cleanup_same_map:
  assumes "lim_inv l" and "go_map order" and "set order = set (lim_limiters l)"
  shows "go_get (lim_limiters (limiter_cleanup order l)) = go_get (lim_limiters l)
    \<and> lim_inv (limiter_cleanup order l)"
proof -
  have len: "length order = length (lim_limiters l)"
    using assms by (metis distinct_card distinct_map go_map_def lim_inv_def)
  have g: "go_get order = go_get (lim_limiters l)"
    using go_get_perm [OF _ assms(2,3)] assms(1) by (simp add: lim_inv_def)
  have d: "distinct order" using assms(2) by (simp add: go_map_def distinct_map)
  have "distinct (map snd order)"
    using assms d by (auto simp: lim_inv_def distinct_map)
  then show ?thesis
    using cleanup_map [OF assms] assms len g
    by (auto simp: lim_inv_def limiter_cleanup_def Let_def list_all_iff)
qed

lemma limiter_sys_inv_step:
  assumes "limiter_sys_inv s" and "limiter_step ov s t"
  shows "limiter_sys_inv t"
  using assms(2)
proof cases
  case (hit c tb)
  then show ?thesis using assms(1) lookup_ref [of "ls_lim s" c tb] by (simp add: limiter_sys_inv_def)
next
  case (admit c now tb l)
  have l: "l = snd (limiter_admit c now (ls_lim s))" using admit by simp
  show ?thesis
    using assms(1) admit(1) admit_ref [OF _ admit(3)] lim_inv_admit [of "ls_lim s" c now]
      admit_buckets_grow [of "ls_lim s" c now]
    by (auto simp: limiter_sys_inv_def list_all_iff l)
next
  case (deny c now l)
  have "l = ls_lim s" using deny(3) by (auto simp: limiter_admit_def Let_def split: option.splits if_splits)
  then show ?thesis using assms(1) deny(1) by (simp add: limiter_sys_inv_def)
next
  case (take c tb now n b l)
  have l: "l = snd (limiter_take ov tb now n (ls_lim s))" using take by simp
  have "tb < length (lim_buckets (ls_lim s))"
    using assms(1) take(2) by (auto simp: limiter_sys_inv_def list_all_iff)
  then show ?thesis
    using assms(1) take(1) lim_inv_take [of "ls_lim s" tb ov now n]
    by (auto simp: limiter_sys_inv_def list_all_iff l dest!: set_remove1_subset [THEN subsetD])
next
  case (cleanup order)
  have "lim_buckets (limiter_cleanup order (ls_lim s)) = lim_buckets (ls_lim s)"
    by (simp add: limiter_cleanup_def Let_def)
  then show ?thesis
    using assms(1) cleanup cleanup_same_map [of "ls_lim s" order] by (simp add: limiter_sys_inv_def)
qed (use assms(1) lim_inv_Remove in \<open>auto simp: limiter_sys_inv_def limiter_Remove_def
      limiter_Close_def lim_inv_def\<close>)

interpretation limiter_machine: inv_system limiter_init "limiter_step ov" limiter_sys_inv for ov
proof
  show "limiter_init s \<Longrightarrow> limiter_sys_inv s" for s
    by (auto simp: limiter_init_def limiter_sys_inv_def lim_inv_New)
  show "limiter_sys_inv s \<Longrightarrow> limiter_step ov s t \<Longrightarrow> limiter_sys_inv t" for s t
    by (rule limiter_sys_inv_step)
qed

text \<open>A limiter whose configuration and buckets are in the range of the rate bound.\<close>

definition limiter_ok :: "Limiter \<Rightarrow> bool" where
  [inv_defs]: "limiter_ok l \<longleftrightarrow> lim_inv l \<and> in_int64 (lim_capacity l) \<and> 0 \<le> lim_refillRate l
     \<and> list_all bucket_ok (lim_buckets l)"

definition client_level :: "string \<Rightarrow> Limiter \<Rightarrow> int" where
  "client_level c l = max 0 (case bucket_of l c of None \<Rightarrow> lim_capacity l | Some tb \<Rightarrow> tb_tokens tb)"

definition client_stamp :: "time \<Rightarrow> string \<Rightarrow> Limiter \<Rightarrow> time" where
  "client_stamp t0 c l = (case bucket_of l c of None \<Rightarrow> t0 | Some tb \<Rightarrow> tb_lastRefill tb)"

lemma limiter_ok_take:
  assumes "limiter_ok l" and "tb < length (lim_buckets l)" and "0 \<le> n"
  shows "limiter_ok (snd (limiter_take ov tb now n l))"
  using assms lim_inv_take [of l tb ov now n]
  by (auto simp: limiter_ok_def list_all_iff bucket_ok_AllowN
      dest!: set_update_subset_insert [THEN subsetD])

lemma limiter_ok_admit: "limiter_ok l \<Longrightarrow> limiter_ok (snd (limiter_admit c now l))"
  using lim_inv_admit [of l c now]
  by (auto simp: limiter_ok_def limiter_admit_def Let_def bucket_ok_New split: option.splits if_splits)

lemma bucket_of_inj:
  assumes "lim_inv l" and "go_get (lim_limiters l) c = Some tb" and "go_get (lim_limiters l) c' = Some tb"
  shows "c = c'"
proof -
  have "(c, tb) \<in> set (lim_limiters l)" "(c', tb) \<in> set (lim_limiters l)"
    using assms by (auto dest: map_of_SomeD)
  moreover have "inj_on snd (set (lim_limiters l))" using assms(1) by (simp add: lim_inv_def distinct_map)
  ultimately show ?thesis by (metis fst_conv inj_on_def snd_conv)
qed

text \<open>The bucket of the client served and the buckets of the others.\<close>

lemma bucket_of_take:
  assumes "lim_inv l" and "go_get (lim_limiters l) c = Some tb" and "tb < length (lim_buckets l)"
  shows "bucket_of (snd (limiter_take ov tb now n l)) c'
    = (if c' = c then Some (snd (bucket_AllowN ov now n (lim_buckets l ! tb))) else bucket_of l c')"
proof (cases "c' = c")
  case True
  with assms show ?thesis by (simp add: bucket_of_def)
next
  case False
  then have "go_get (lim_limiters l) c' \<noteq> Some tb" using bucket_of_inj [OF assms(1,2), of c'] by blast
  with False show ?thesis by (cases "go_get (lim_limiters l) c'") (auto simp: bucket_of_def)
qed

lemma bucket_of_admit:
  assumes "lim_inv l"
  shows "bucket_of (snd (limiter_admit c now l)) c' = (if fst (limiter_admit c now l) \<noteq> None
      \<and> bucket_of l c = None \<and> c' = c then Some (NewTokenBucket (lim_capacity l) (lim_refillRate l) now)
      else bucket_of l c')"
proof -
  have "\<forall>tb. go_get (lim_limiters l) c' = Some tb \<longrightarrow> tb < length (lim_buckets l)"
    using lookup_ref [OF assms, of c'] by (simp add: limiter_lookup_def)
  then show ?thesis
    by (cases "go_get (lim_limiters l) c'")
      (auto simp: bucket_of_def limiter_admit_def Let_def nth_append split: option.splits)
qed

text \<open>\<^verbatim>\<open>AllowN\<close> as one operation on the clients' buckets.\<close>

lemma limiter_AllowN_cases:
  assumes "lim_inv l"
  obtains (full) "go_get (lim_limiters l) c = None" "lim_maxClients l \<le> go_len (lim_limiters l)"
      "limiter_AllowN ov c n t0 t1 l = (False, l)"
  | (served) l' tb b where "l' = snd (limiter_admit c t0 l)" "lim_inv l'"
      "go_get (lim_limiters l') c = Some tb" "tb < length (lim_buckets l')"
      "bucket_of l' c = Some b"
      "b = (case bucket_of l c of Some b' \<Rightarrow> b'
            | None \<Rightarrow> NewTokenBucket (lim_capacity l) (lim_refillRate l) t0)"
      "b = lim_buckets l' ! tb"
      "limiter_AllowN ov c n t0 t1 l = limiter_take ov tb t1 n l'"
proof (cases "go_get (lim_limiters l) c")
  case (Some tb)
  then have a: "limiter_admit c t0 l = (Some tb, l)" by (simp add: limiter_admit_def)
  have r: "tb < length (lim_buckets l)" using Some lookup_ref [OF assms, of c tb] by (simp add: limiter_lookup_def)
  show thesis
    by (rule served [of l tb "lim_buckets l ! tb"])
      (use Some assms a r in \<open>simp_all add: limiter_lookup_def limiter_AllowN_def bucket_of_def\<close>)
next
  case None
  show thesis
  proof (cases "lim_maxClients l \<le> go_len (lim_limiters l)")
    case True
    show thesis
      by (rule full) (use None True in \<open>simp_all add: limiter_AllowN_def limiter_lookup_def limiter_admit_def\<close>)
  next
    case False
    let ?l = "snd (limiter_admit c t0 l)"
    have a: "limiter_admit c t0 l = (Some (length (lim_buckets l)), ?l)"
      using None False by (simp add: limiter_admit_def Let_def)
    note r = admit_ref [OF assms a]
    have b: "bucket_of ?l c = Some (NewTokenBucket (lim_capacity l) (lim_refillRate l) t0)"
      using None False by (simp add: bucket_of_def limiter_admit_def Let_def)
    have e: "limiter_AllowN ov c n t0 t1 l = limiter_take ov (length (lim_buckets l)) t1 n ?l"
      by (subst limiter_AllowN_def, subst a) (simp add: None limiter_lookup_def)
    from r b have n: "NewTokenBucket (lim_capacity l) (lim_refillRate l) t0 = lim_buckets ?l ! length (lim_buckets l)"
      by (simp add: bucket_of_def)
    have o: "bucket_of l c = None" using None by (simp add: bucket_of_def)
    show thesis
      by (rule served [OF refl lim_inv_admit [OF assms] conjunct2 [OF r] conjunct1 [OF r] b _ n e])
        (simp add: o)
  qed
qed

lemma client_ask_other:
  assumes "lim_inv l" and "c' \<noteq> c"
  shows "bucket_of (snd (limiter_AllowN ov c n t0 t1 l)) c' = bucket_of l c'"
  using assms(1)
proof (cases rule: limiter_AllowN_cases [where c = c and ov = ov and n = n and ?t0.0 = t0 and ?t1.0 = t1])
  case full
  then show ?thesis by simp
next
  case (served l' tb b)
  then show ?thesis using assms bucket_of_take [OF served(2-4)] bucket_of_admit [OF assms(1)] by simp
qed

lemma bucket_of_ok: "limiter_ok l \<Longrightarrow> bucket_of l c = Some b \<Longrightarrow>
   bucket_ok b \<and> tb_refillRate b = lim_refillRate l"
  by (auto simp: bucket_of_def limiter_ok_def lim_inv_def list_all_iff dest!: map_of_SomeD)

lemma limiter_ok_AllowN:
  assumes "limiter_ok l" and "0 \<le> n"
  shows "limiter_ok (snd (limiter_AllowN ov c n t0 t1 l))
    \<and> lim_refillRate (snd (limiter_AllowN ov c n t0 t1 l)) = lim_refillRate l
    \<and> lim_capacity (snd (limiter_AllowN ov c n t0 t1 l)) = lim_capacity l"
proof -
  have "lim_inv l" using assms(1) by (simp add: limiter_ok_def)
  then show ?thesis
  proof (cases rule: limiter_AllowN_cases [where c = c and ov = ov and n = n and ?t0.0 = t0 and ?t1.0 = t1])
    case full
    then show ?thesis using assms by simp
  next
    case (served l' tb b)
    have "limiter_ok l'" using limiter_ok_admit [OF assms(1)] served(1) by simp
    then show ?thesis using limiter_ok_take [OF _ served(4) assms(2)] served(1,8) by simp
  qed
qed

lemma NewTokenBucket_fields [simp]:
  "tb_lastRefill (NewTokenBucket c r t) = t" "tb_tokens (NewTokenBucket c r t) = c"
  "tb_refillRate (NewTokenBucket c r t) = r" "tb_capacity (NewTokenBucket c r t) = c"
  by (simp_all add: NewTokenBucket_def)

text \<open>The accounting of one request, for the client it comes from.\<close>

lemma client_ask_own:
  assumes "ov_ok ov" and "limiter_ok l" and "client_stamp ts c l \<le> t0" and "t0 \<le> t1" and "0 \<le> n"
  shows "client_stamp ts c l \<le> client_stamp ts c (snd (limiter_AllowN ov c n t0 t1 l))
    \<and> client_stamp ts c (snd (limiter_AllowN ov c n t0 t1 l)) \<le> t1
    \<and> of_int ((if fst (limiter_AllowN ov c n t0 t1 l) then n else 0)
          + client_level c (snd (limiter_AllowN ov c n t0 t1 l)))
        \<le> of_int (client_level c l) + slack * of_int (lim_refillRate l) / 1000000000
            * of_int (client_stamp ts c (snd (limiter_AllowN ov c n t0 t1 l)) - client_stamp ts c l)"
proof -
  let ?k = "slack * of_int (lim_refillRate l) / 1000000000 :: rat"
  have inv: "lim_inv l" and k: "0 \<le> ?k" using assms(2) slack_pos by (simp_all add: limiter_ok_def)
  from inv show ?thesis
  proof (cases rule: limiter_AllowN_cases [where c = c and ov = ov and n = n and ?t0.0 = t0 and ?t1.0 = t1])
    case full
    then show ?thesis using assms(3,4) by simp
  next
    case (served l' tb b)
    let ?b = "snd (bucket_AllowN ov t1 n b)" and ?st = "client_stamp ts c l"
    have okl: "limiter_ok l'" using limiter_ok_admit [OF assms(2)] served(1) by simp
    have b: "bucket_ok b" "tb_refillRate b = lim_refillRate l"
      using bucket_of_ok [OF okl served(5)] served(1) by simp_all
    have new: "bucket_of (snd (limiter_AllowN ov c n t0 t1 l)) c = Some ?b"
      using bucket_of_take [OF served(2-4)] served(7,8) by simp
    have st: "?st \<le> tb_lastRefill b" "tb_lastRefill b \<le> t1"
      using served(6) assms(3,4) by (auto simp: client_stamp_def split: option.splits)
    have lv: "client_level c l = max 0 (tb_tokens b)"
      using served(6) by (simp add: client_level_def split: option.splits)
    note r = refill_stamp [OF st(2), of ov]
    have "of_int ((if fst (bucket_AllowN ov t1 n b) then n else 0) + max 0 (tb_tokens ?b))
        \<le> of_int (client_level c l) + ?k * of_int (tb_lastRefill (refill ov t1 b) - tb_lastRefill b)"
      unfolding AllowN_level [OF b(1) assms(5)] lv
      using refill_level [OF assms(1) st(2) b(1)] unfolding b(2) .
    also have "\<dots> \<le> of_int (client_level c l) + ?k * of_int (tb_lastRefill (refill ov t1 b) - ?st)"
      using st k by (intro add_left_mono mult_left_mono) simp_all
    finally show ?thesis
      using r st new served(8,7) by (simp add: client_stamp_def client_level_def)
  qed
qed

interpretation client_gate: budget_gate "client_ask ov c" rq_t0 rq_t1 "\<lambda>q. 0 \<le> rq_n q"
    "\<lambda>l. ov_ok ov \<and> limiter_ok l" "client_level c" "client_stamp ts c"
    "\<lambda>l. slack * of_int (lim_refillRate l) / 1000000000"
  for ov c ts
proof
  fix l :: Limiter and q :: request
  assume a: "ov_ok ov \<and> limiter_ok l" "client_stamp ts c l \<le> rq_t0 q" "rq_t0 q \<le> rq_t1 q" "0 \<le> rq_n q"
  let ?r = "limiter_AllowN ov (rq_client q) (rq_n q) (rq_t0 q) (rq_t1 q) l"
  have s: "snd (client_ask ov c q l) = snd ?r"
    and f: "fst (client_ask ov c q l) = (if fst ?r \<and> rq_client q = c then rq_n q else 0)"
    by (simp_all add: client_ask_def case_prod_beta)
  note keep = limiter_ok_AllowN [of l "rq_n q" ov "rq_client q" "rq_t0 q" "rq_t1 q"]
  show "ov_ok ov \<and> limiter_ok (snd (client_ask ov c q l))" using a keep by (simp add: s)
  show "slack * of_int (lim_refillRate (snd (client_ask ov c q l))) / 1000000000
      = slack * of_int (lim_refillRate l) / 1000000000" using a keep by (simp add: s)
  have "client_stamp ts c l \<le> client_stamp ts c (snd ?r) \<and> client_stamp ts c (snd ?r) \<le> rq_t1 q
    \<and> of_int (fst (client_ask ov c q l) + client_level c (snd ?r)) \<le> of_int (client_level c l)
        + slack * of_int (lim_refillRate l) / 1000000000 * of_int (client_stamp ts c (snd ?r) - client_stamp ts c l)"
  proof (cases "rq_client q = c")
    case True
    with a show ?thesis using client_ask_own [of ov l ts c "rq_t0 q" "rq_t1 q" "rq_n q"] by (simp add: f)
  next
    case False
    have "bucket_of (snd ?r) c = bucket_of l c" using False a(1) by (simp add: client_ask_other limiter_ok_def)
    then have "client_stamp ts c (snd ?r) = client_stamp ts c l" "client_level c (snd ?r) = client_level c l"
      using a keep by (simp_all add: client_stamp_def client_level_def split: option.splits)
    then show ?thesis using False a by (simp add: f)
  qed
  then show "client_stamp ts c l \<le> client_stamp ts c (snd (client_ask ov c q l))
      \<and> client_stamp ts c (snd (client_ask ov c q l)) \<le> rq_t1 q"
    and "of_int (fst (client_ask ov c q l) + client_level c (snd (client_ask ov c q l)))
      \<le> of_int (client_level c l) + slack * of_int (lim_refillRate l) / 1000000000
          * of_int (client_stamp ts c (snd (client_ask ov c q l)) - client_stamp ts c l)"
    unfolding s by simp_all
next
  fix l :: Limiter
  assume a: "ov_ok ov \<and> limiter_ok l"
  show "0 \<le> client_level c l" by (simp add: client_level_def)
  show "0 \<le> slack * of_int (lim_refillRate l) / 1000000000"
    using a slack_pos by (simp add: limiter_ok_def)
qed

section \<open>Properties\<close>

text \<open>What the AMD64 target yields for a float that is out of range; a small limiter.\<close>

definition ov_amd64 :: "rat \<Rightarrow> int" where
  "ov_amd64 x = min_int64"

lemma ov_ok_amd64 [simp]: "ov_ok ov_amd64"
  by (simp add: ov_ok_def ov_amd64_def in_int64_def min_int64_def max_int64_def)

text \<open>C6 (bounds). The rate guarantee of a token bucket: over any run of requests at
  non-decreasing times, the tokens granted in total are at most the capacity plus
  \<open>refillRate\<close> tokens per elapsed second, up to the relative rounding error \<open>2\<^sup>-\<^sup>5\<^sup>0\<close> of
  the floating-point product; 64-bit wrap-around and out-of-range conversions included.\<close>

theorem bucket_rate_bound:
  assumes "ov_ok ov" and "in_int64 capacity" and "0 \<le> capacity" and "0 \<le> refillRate"
    and "in_time_order fst fst t qs" and "list_all (\<lambda>q. 0 \<le> snd q) qs"
  shows "of_int (granted (bucket_ask ov) qs (NewTokenBucket capacity refillRate t))
    \<le> of_int capacity + slack * of_int refillRate / 1000000000 * of_int (last_time fst t qs - t)"
  using bucket_gate.granted_bound [of ov "NewTokenBucket capacity refillRate t" t qs] assms
  by (simp add: bucket_ok_New max_def)

theorem bucket_rate_bound_witness:
  "of_int (granted (bucket_ask ov_amd64) [(0, 3), (2 * second, 4), (2 * second, 7)] (NewTokenBucket 5 2 0))
    \<le> of_int 5 + slack * of_int 2 / 1000000000 * of_int (2 * second)"
  using bucket_rate_bound [of ov_amd64 5 2 0 "[(0, 3), (2 * second, 4), (2 * second, 7)]"]
  by (simp add: in_int64_def min_int64_def max_int64_def second_def last_time_def)

text \<open>Exactness where it matters: a request that arrives a whole number \<open>k\<close>
  of seconds after the last refill sees exactly \<open>k * refillRate\<close> more tokens, capped at the
  capacity, and is granted exactly when that covers it (the products below \<open>2\<^sup>5\<^sup>3\<close> and the
  sum below \<open>2\<^sup>6\<^sup>3\<close>).\<close>

lemma bucket_allows_iff:
  assumes "bucket_ok tb" and "0 < k" and "k * second \<le> max_int64" and "0 < tb_refillRate tb"
    and "k * tb_refillRate tb < 2 ^ 53" and "tb_tokens tb + k * tb_refillRate tb \<le> max_int64" and "0 \<le> n"
  shows "let avail = min (tb_capacity tb) (tb_tokens tb + k * tb_refillRate tb);
             now = tb_lastRefill tb + k * second
         in bucket_AllowN ov now n tb =
              (n \<le> avail, tb\<lparr>tb_tokens := if n \<le> avail then avail - n else avail, tb_lastRefill := now\<rparr>)"
proof -
  let ?now = "tb_lastRefill tb + k * second"
  have r: "tb_refillRate tb < 2 ^ 53"
    using assms(2,4,5) by (smt (verit) mult_le_cancel_right1)
  have a: "tokensToAdd ov ?now tb = k * tb_refillRate tb"
    using assms r by (intro tokensToAdd_whole) simp_all
  have pos: "0 < k * tb_refillRate tb" using assms by simp
  have w: "wrap64 (tb_tokens tb + k * tb_refillRate tb) = tb_tokens tb + k * tb_refillRate tb"
    using assms(1,6) pos by (intro wrap64_id) (simp add: in_int64_def bucket_ok_def)
  have w': "wrap64 (min (tb_capacity tb) (tb_tokens tb + k * tb_refillRate tb) - n)
      = min (tb_capacity tb) (tb_tokens tb + k * tb_refillRate tb) - n"
    if "n \<le> min (tb_capacity tb) (tb_tokens tb + k * tb_refillRate tb)"
    using that assms(1,7) by (intro spend_no_wrap) (auto simp: bucket_ok_def min_int64_def)
  show ?thesis using pos by (auto simp: bucket_AllowN_def refill_eq a w w' Let_def)
qed

theorem bucket_allows_iff_witness:
  "bucket_AllowN ov_amd64 (7 + 3 * second) 4 \<lparr>tb_capacity = 5, tb_tokens = 0, tb_refillRate = 2, tb_lastRefill = 7\<rparr>
   = (True, \<lparr>tb_capacity = 5, tb_tokens = 1, tb_refillRate = 2, tb_lastRefill = 7 + 3 * second\<rparr>)"
  using bucket_allows_iff [of "\<lparr>tb_capacity = 5, tb_tokens = 0, tb_refillRate = 2, tb_lastRefill = 7\<rparr>" 3 4 ov_amd64]
  by (simp add: bucket_ok_def min_int64_def max_int64_def second_def)

text \<open>With a capacity of at most \<open>2\<^sup>6\<^sup>2\<close> and a rate of at most \<open>2\<^sup>2\<^sup>8\<close> a bucket
  never overflows, however long it was idle: the tokens stay between zero and the capacity.\<close>

lemma bucket_tokens_range:
  assumes "ov_ok ov" and "0 \<le> tb_tokens tb" and "tb_tokens tb \<le> tb_capacity tb" and "tb_capacity tb \<le> 2 ^ 62 - 1"
    and "0 \<le> tb_refillRate tb" and "tb_refillRate tb \<le> 2 ^ 28" and "tb_lastRefill tb \<le> now" and "0 \<le> n"
  shows "0 \<le> tb_tokens (snd (bucket_AllowN ov now n tb))
    \<and> tb_tokens (snd (bucket_AllowN ov now n tb)) \<le> tb_capacity tb"
proof -
  have "tokensToAdd ov now tb \<le> 2 ^ 62" by (rule tokensToAdd_small) (use assms in simp_all)
  then have "tokensToAdd ov now tb > 0 \<Longrightarrow>
      wrap64 (tb_tokens tb + tokensToAdd ov now tb) = tb_tokens tb + tokensToAdd ov now tb"
    using assms by (intro wrap64_id) (simp add: in_int64_def min_int64_def max_int64_def)
  then have "0 \<le> tb_tokens (refill ov now tb) \<and> tb_tokens (refill ov now tb) \<le> tb_capacity tb"
    using assms by (simp add: refill_eq)
  then show ?thesis
    using assms spend_no_wrap [of "tb_tokens (refill ov now tb)" n]
    by (auto simp: bucket_AllowN_def Let_def min_int64_def max_int64_def)
qed

theorem bucket_tokens_range_witness:
  "0 \<le> tb_tokens (snd (bucket_AllowN ov_amd64 1000 5 (NewTokenBucket 10 100 0)))"
  using bucket_tokens_range [of ov_amd64 "NewTokenBucket 10 100 0" 1000 5] by simp

text \<open>C9 (bounds). The rate guarantee per client: whatever mix of clients asks the limiter, in
  time order, one client is granted in total at most its capacity plus its rate times the
  elapsed time; the other clients' requests neither use nor add to its tokens.\<close>

theorem client_rate_bound:
  assumes "ov_ok ov" and "in_int64 capacity" and "0 \<le> capacity" and "0 \<le> refillRate"
    and "in_time_order rq_t0 rq_t1 t qs" and "list_all (\<lambda>q. 0 \<le> rq_n q) qs"
  shows "of_int (granted (client_ask ov c) qs (NewLimiter capacity refillRate maxClients))
    \<le> of_int capacity + slack * of_int refillRate / 1000000000 * of_int (last_time rq_t1 t qs - t)"
proof -
  let ?l = "NewLimiter capacity refillRate maxClients"
  have ok: "limiter_ok ?l" using assms lim_inv_New [of capacity refillRate maxClients]
    by (simp add: limiter_ok_def NewLimiter_def Let_def)
  have "client_stamp t c ?l = t" "client_level c ?l = capacity" "lim_refillRate ?l = refillRate"
    using assms(3) by (simp_all add: client_stamp_def client_level_def bucket_of_def NewLimiter_def Let_def)
  then show ?thesis using client_gate.granted_bound [of ov ?l t c t qs] ok assms by simp
qed

theorem client_rate_bound_witness:
  "of_int (granted (client_ask ov_amd64 ''a'')
     [\<lparr>rq_t0 = 1, rq_t1 = 2, rq_client = ''a'', rq_n = 3\<rparr>,
      \<lparr>rq_t0 = 2, rq_t1 = second, rq_client = ''b'', rq_n = 9\<rparr>] (NewLimiter 5 2 0))
    \<le> of_int 5 + slack * of_int 2 / 1000000000 * of_int (second - 1)"
  using client_rate_bound [of ov_amd64 5 2 1 "[\<lparr>rq_t0 = 1, rq_t1 = 2, rq_client = ''a'', rq_n = 3\<rparr>,
      \<lparr>rq_t0 = 2, rq_t1 = second, rq_client = ''b'', rq_n = 9\<rparr>]" "''a''" 0]
  by (simp add: in_int64_def min_int64_def max_int64_def second_def last_time_def)

text \<open>C28 (invariant). Under every interleaving of lookups, admissions, takes, removals and
  cleanups the limiter tracks at most \<open>maxClients\<close> clients, and two clients never share a
  bucket (the second check under the write lock is what makes this true).\<close>

theorem limiter_bounded:
  assumes "reach limiter_init (limiter_step ov) s"
  shows "limiter_Stats (ls_lim s) \<le> max 0 (lim_maxClients (ls_lim s))
    \<and> go_map (lim_limiters (ls_lim s)) \<and> distinct (map snd (lim_limiters (ls_lim s)))"
  using limiter_machine.reach_inv [OF assms]
  by (simp add: limiter_sys_inv_def lim_inv_def limiter_Stats_def)

text \<open>Two goroutines of one client miss, one of them admits it.\<close>

definition sample_limiter_sys :: limiter_sys where
  "sample_limiter_sys = \<lparr>ls_lim = snd (limiter_admit ''a'' 0 (NewLimiter 5 1 2)),
     ls_missed = [''a''], ls_ready = [(''a'', 0)]\<rparr>"

lemma sample_limiter_reach: "reach limiter_init (limiter_step ov) sample_limiter_sys"
proof -
  let ?l = "NewLimiter 5 1 2"
  have look: "limiter_lookup ''a'' ?l = None" by (simp add: limiter_lookup_def NewLimiter_def Let_def)
  obtain l where a: "limiter_admit ''a'' 0 ?l = (Some 0, l)"
    by (simp add: limiter_admit_def NewLimiter_def Let_def)
  have r0: "reach limiter_init (limiter_step ov) \<lparr>ls_lim = ?l, ls_missed = [], ls_ready = []\<rparr>"
    by (rule reach_init) (auto simp: limiter_init_def)
  let ?s1 = "\<lparr>ls_lim = ?l, ls_missed = [''a''], ls_ready = []\<rparr>"
  let ?s2 = "\<lparr>ls_lim = ?l, ls_missed = [''a'', ''a''], ls_ready = []\<rparr>"
  have m0: "limiter_step ov \<lparr>ls_lim = ?l, ls_missed = [], ls_ready = []\<rparr> ?s1"
    using limiter_step.miss [of "''a''" "\<lparr>ls_lim = ?l, ls_missed = [], ls_ready = []\<rparr>"] look by simp
  have m1: "limiter_step ov ?s1 ?s2" using limiter_step.miss [of "''a''" ?s1] look by simp
  have m2: "limiter_step ov ?s2 sample_limiter_sys"
    using limiter_step.admit [of "''a''" ?s2 0 0 l] a
    by (simp add: sample_limiter_sys_def)
  from reach_step [OF r0, OF m0] have "reach limiter_init (limiter_step ov) ?s1" .
  from reach_step [OF this, OF m1] have "reach limiter_init (limiter_step ov) ?s2" .
  from reach_step [OF this, OF m2] show ?thesis .
qed

lemmas sample_limiter_simps = sample_limiter_sys_def limiter_admit_def NewLimiter_def Let_def

theorem limiter_bounded_witness:
  "limiter_Stats (ls_lim sample_limiter_sys) = 1
   \<and> limiter_Stats (ls_lim sample_limiter_sys) \<le> max 0 (lim_maxClients (ls_lim sample_limiter_sys))"
  using limiter_bounded [OF sample_limiter_reach [of ov_amd64]]
  by (simp add: limiter_Stats_def sample_limiter_simps)

text \<open>No step but its own \<^verbatim>\<open>Remove\<close> takes a client's bucket away. In particular the
  periodic \<^verbatim>\<open>cleanup\<close> evicts nobody: its guard asks for more than twice
  \<open>maxClients\<close> entries, which no reachable state has, so a full limiter refuses new
  clients until some client is removed explicitly.\<close>

lemma limiter_no_eviction:
  assumes "reach limiter_init (limiter_step ov) s" and "limiter_step ov s t"
    and "t \<noteq> s\<lparr>ls_lim := limiter_Remove c (ls_lim s)\<rparr>"
    and "go_get (lim_limiters (ls_lim s)) c = Some tb"
  shows "go_get (lim_limiters (ls_lim t)) c = Some tb"
proof -
  have inv: "lim_inv (ls_lim s)"
    using limiter_machine.reach_inv [OF assms(1)] by (simp add: limiter_sys_inv_def)
  show ?thesis using assms(2)
  proof cases
    case (admit c' now tb' l)
    then have "l = snd (limiter_admit c' now (ls_lim s))" by simp
    then show ?thesis
      using admit(1) assms(4) by (auto simp: limiter_admit_def Let_def split: option.splits)
  next
    case (deny c' now l)
    then show ?thesis
      using assms(4) by (auto simp: limiter_admit_def Let_def split: option.splits if_splits)
  next
    case (take c' tb' now n b l)
    then have "l = snd (limiter_take ov tb' now n (ls_lim s))" by simp
    then show ?thesis using take(1) assms(4) by simp
  next
    case (cleanup order)
    then show ?thesis using cleanup_same_map [OF inv] assms(4) by simp
  next
    case (remove c')
    then have "c' \<noteq> c" using assms(3) by blast
    then show ?thesis using remove assms(4) by (simp add: limiter_Remove_def)
  qed (use assms(4) in \<open>simp_all add: limiter_Close_def\<close>)
qed

theorem limiter_no_eviction_witness:
  "let s = sample_limiter_sys; t = s\<lparr>ls_lim := limiter_cleanup [(''a'', 0)] (ls_lim s)\<rparr>
   in limiter_step ov_amd64 s t \<and> go_get (lim_limiters (ls_lim t)) ''a'' = Some 0"
proof -
  let ?s = sample_limiter_sys
  let ?t = "?s\<lparr>ls_lim := limiter_cleanup [(''a'', 0)] (ls_lim ?s)\<rparr>"
  have st: "limiter_step ov_amd64 ?s ?t"
    by (rule limiter_step.cleanup) (simp_all add: sample_limiter_simps go_map_def)
  have g: "go_get (lim_limiters (ls_lim ?s)) ''a'' = Some 0" by (simp add: sample_limiter_simps)
  have "?t \<noteq> ?s\<lparr>ls_lim := limiter_Remove ''a'' (ls_lim ?s)\<rparr>"
    by (simp add: sample_limiter_simps limiter_cleanup_def limiter_Remove_def wrap64_def)
  from limiter_no_eviction [OF sample_limiter_reach st this g] st show ?thesis by simp
qed

text \<open>The 64-bit sum in \<^verbatim>\<open>refill\<close> can wrap: a full bucket with the greatest
  capacity has, one second later, a negative number of tokens, and refuses a request
  that it would have granted before the refill.\<close>

lemma refill_overflow_refuses:
  "fst (bucket_Allow ov 0 (NewTokenBucket max_int64 1000 0))
   \<and> \<not> fst (bucket_Allow ov second (NewTokenBucket max_int64 1000 0))
   \<and> fst (Available ov second (NewTokenBucket max_int64 1000 0)) < 0"
proof -
  let ?tb = "NewTokenBucket max_int64 1000 0"
  have a: "tokensToAdd ov second ?tb = 1000" "tokensToAdd ov 0 ?tb = 0"
    using tokensToAdd_whole [of second ?tb 1 ov] tokensToAdd_whole [of 0 ?tb 0 ov]
    by (simp_all add: second_def max_int64_def)
  then show ?thesis
    by (simp add: bucket_Allow_def bucket_AllowN_def Available_def refill_eq Let_def wrap64_def max_int64_def)
qed

text \<open>Requests of one client leave the buckets of all other clients untouched.\<close>

theorem limiter_clients_isolated:
  assumes "lim_inv l" and "c' \<noteq> c"
  shows "bucket_of (snd (limiter_AllowN ov c n t0 t1 l)) c' = bucket_of l c'"
  using assms by (rule client_ask_other)

theorem limiter_clients_isolated_witness:
  "bucket_of (snd (limiter_AllowN ov_amd64 ''b'' 3 7 8 (ls_lim sample_limiter_sys))) ''a''
   = Some (NewTokenBucket 5 1 0)"
proof -
  have "lim_inv (ls_lim sample_limiter_sys)"
    using limiter_machine.reach_inv [OF sample_limiter_reach [of ov_amd64]] by (simp add: limiter_sys_inv_def)
  from limiter_clients_isolated [OF this, of "''a''" "''b''" ov_amd64 3 7 8] show ?thesis
    by (simp add: bucket_of_def sample_limiter_simps)
qed

end
