(* ===== verification/Handler.thy ===== *)
theory Handler
  imports Errors
begin

text \<open>
  The handler interface (\<^verbatim>\<open>src/pkg/handler/handler.go\<close>). \<open>Context\<close> is the struct
  \<^verbatim>\<open>handler.Context\<close>; \<open>Handler\<close> is the interface, a record of its methods over the
  state \<open>'h\<close> of the implementation. What a method changes through a pointer argument
  (the context, the topic, the payload, the list of topics) is part of its result. The
  request-scoped \<^verbatim>\<open>context.Context\<close> is not passed: no method of the sources reads it.
  The type \<open>'c\<close> is that of X.509 certificates.
\<close>

record 'c Context =
  SessionID :: string
  Username :: string
  Password :: bytes
  ClientID :: string
  RemoteAddr :: string
  Protocol :: string
  Cert :: "'c option"

type_synonym ('h, 'c) notify = "'h \<Rightarrow> 'c Context \<Rightarrow> err option \<times> 'c Context \<times> 'h"

record ('h, 'c) Handler =
  AuthConnect :: "('h, 'c) notify"
  AuthPublish :: "'h \<Rightarrow> 'c Context \<Rightarrow> string \<Rightarrow> bytes
    \<Rightarrow> err option \<times> 'c Context \<times> string \<times> bytes \<times> 'h"
  AuthSubscribe :: "'h \<Rightarrow> 'c Context \<Rightarrow> string list
    \<Rightarrow> err option \<times> 'c Context \<times> string list \<times> 'h"
  OnConnect :: "('h, 'c) notify"
  OnPublish :: "'h \<Rightarrow> 'c Context \<Rightarrow> string \<Rightarrow> bytes \<Rightarrow> err option \<times> 'c Context \<times> 'h"
  OnSubscribe :: "'h \<Rightarrow> 'c Context \<Rightarrow> string list \<Rightarrow> err option \<times> 'c Context \<times> 'h"
  OnUnsubscribe :: "'h \<Rightarrow> 'c Context \<Rightarrow> string list \<Rightarrow> err option \<times> 'c Context \<times> 'h"
  OnDisconnect :: "('h, 'c) notify"

text \<open>A composite literal \<^verbatim>\<open>&handler.Context{...}\<close>: the fields left out are zero.\<close>

definition zero_Context :: "'c Context" where
  "zero_Context = \<lparr>SessionID = [], Username = [], Password = [], ClientID = [],
     RemoteAddr = [], Protocol = [], Cert = None\<rparr>"

text \<open>\<^verbatim>\<open>NoopHandler\<close> (handler.go:93-129): every method returns nil and changes nothing.\<close>

definition NoopHandler :: "('h, 'c) Handler" where
  "NoopHandler = \<lparr>
     AuthConnect = (\<lambda>h hctx. (None, hctx, h)),
     AuthPublish = (\<lambda>h hctx topic payload. (None, hctx, topic, payload, h)),
     AuthSubscribe = (\<lambda>h hctx topics. (None, hctx, topics, h)),
     OnConnect = (\<lambda>h hctx. (None, hctx, h)),
     OnPublish = (\<lambda>h hctx topic payload. (None, hctx, h)),
     OnSubscribe = (\<lambda>h hctx topics. (None, hctx, h)),
     OnUnsubscribe = (\<lambda>h hctx topics. (None, hctx, h)),
     OnDisconnect = (\<lambda>h hctx. (None, hctx, h))\<rparr>"

text \<open>
  A handler that logs the names of the methods called, in order, in front of another one:
  the observation the properties on the order of calls use.
\<close>

definition logged :: "('h, 'c) Handler \<Rightarrow> (string list \<times> 'h, 'c) Handler" where
  "logged b = \<lparr>
     AuthConnect = (\<lambda>(l, h) hctx. case AuthConnect b h hctx of
       (e, hctx', h') \<Rightarrow> (e, hctx', l @ [''AuthConnect''], h')),
     AuthPublish = (\<lambda>(l, h) hctx t p. case AuthPublish b h hctx t p of
       (e, hctx', t', p', h') \<Rightarrow> (e, hctx', t', p', l @ [''AuthPublish''], h')),
     AuthSubscribe = (\<lambda>(l, h) hctx ts. case AuthSubscribe b h hctx ts of
       (e, hctx', ts', h') \<Rightarrow> (e, hctx', ts', l @ [''AuthSubscribe''], h')),
     OnConnect = (\<lambda>(l, h) hctx. case OnConnect b h hctx of
       (e, hctx', h') \<Rightarrow> (e, hctx', l @ [''OnConnect''], h')),
     OnPublish = (\<lambda>(l, h) hctx t p. case OnPublish b h hctx t p of
       (e, hctx', h') \<Rightarrow> (e, hctx', l @ [''OnPublish''], h')),
     OnSubscribe = (\<lambda>(l, h) hctx ts. case OnSubscribe b h hctx ts of
       (e, hctx', h') \<Rightarrow> (e, hctx', l @ [''OnSubscribe''], h')),
     OnUnsubscribe = (\<lambda>(l, h) hctx ts. case OnUnsubscribe b h hctx ts of
       (e, hctx', h') \<Rightarrow> (e, hctx', l @ [''OnUnsubscribe''], h')),
     OnDisconnect = (\<lambda>(l, h) hctx. case OnDisconnect b h hctx of
       (e, hctx', h') \<Rightarrow> (e, hctx', l @ [''OnDisconnect''], h'))\<rparr>"

lemmas handler_simps = NoopHandler_def logged_def

end
