(* ===== verification/Parser.thy ===== *)
theory Parser
  imports Handler
begin

text \<open>
  The parser interface (\<^verbatim>\<open>src/pkg/parser/parser.go\<close>). A parser reads one message from
  \<open>'r\<close>, asks the handler, and writes one message to \<open>'w\<close>; the session state it changes is
  the handler context and the handler's own state. The locale \<open>gatekeeper\<close> is the contract
  the servers rely on: what is read is forwarded only with the handler's approval, in the
  form the handler gave it, and a refusal writes nothing. The MQTT and the CoAP parser
  interpret it; the streaming loop of the TCP server is verified inside it.
\<close>

datatype Direction = Upstream | Downstream

fun Direction_String :: "Direction \<Rightarrow> string" where
  "Direction_String Upstream = ''upstream''"
| "Direction_String Downstream = ''downstream''"

text \<open>\<^verbatim>\<open>Parse\<close> with the reader, the writer, the handler context and the handler state.\<close>

type_synonym ('h, 'c) session = "'c Context \<times> 'h"

type_synonym ('r, 'w, 'h, 'c) parser =
  "Direction \<Rightarrow> ('h, 'c) Handler \<Rightarrow> 'r \<Rightarrow> 'w \<Rightarrow> ('h, 'c) session
   \<Rightarrow> err option \<times> 'r \<times> 'w \<times> ('h, 'c) session"

text \<open>
  A run of messages that were received, approved and sent, one after the other: \<open>recv\<close>
  and \<open>send\<close> are the message level of the two connections, \<open>verdict\<close> is the handler's
  answer, \<open>forwarded\<close> the message as the handler left it and \<open>after\<close> the session state
  once the message is dealt with.
\<close>

inductive relayed :: "('r \<Rightarrow> (err + 'm) \<times> 'r) \<Rightarrow> ('m \<Rightarrow> 'w \<Rightarrow> err option \<times> 'w) \<Rightarrow> ('m \<Rightarrow> 's \<Rightarrow> err option)
    \<Rightarrow> ('m \<Rightarrow> 's \<Rightarrow> 'm) \<Rightarrow> ('m \<Rightarrow> 's \<Rightarrow> 's) \<Rightarrow> 'r \<Rightarrow> 'w \<Rightarrow> 's \<Rightarrow> 'm list \<Rightarrow> 'r \<Rightarrow> 'w \<Rightarrow> 's \<Rightarrow> bool"
  for recv send verdict forwarded after where
  relayed_none: "relayed recv send verdict forwarded after r w s [] r w s"
| relayed_one: "recv r = (Inr m, r1) \<Longrightarrow> verdict m s = None \<Longrightarrow> send (forwarded m s) w = (None, w1) \<Longrightarrow>
     relayed recv send verdict forwarded after r1 w1 (after m s) ms r' w' s' \<Longrightarrow>
     relayed recv send verdict forwarded after r w s (m # ms) r' w' s'"

text \<open>How a stream ends: no message, a refusal, or a failed write; \<open>w'\<close> is what was written last.\<close>

definition stream_end :: "('r \<Rightarrow> (err + 'm) \<times> 'r) \<Rightarrow> ('m \<Rightarrow> 'w \<Rightarrow> err option \<times> 'w) \<Rightarrow> ('m \<Rightarrow> 's \<Rightarrow> err option)
    \<Rightarrow> ('m \<Rightarrow> 's \<Rightarrow> 'm) \<Rightarrow> ('m \<Rightarrow> 's \<Rightarrow> 's) \<Rightarrow> 'r \<Rightarrow> 'w \<Rightarrow> 's \<Rightarrow> err \<Rightarrow> 'w \<Rightarrow> 's \<Rightarrow> bool" where
  "stream_end recv send verdict forwarded after r w s e w' s' \<longleftrightarrow> (case fst (recv r) of
     Inl e0 \<Rightarrow> Is e = Is e0 \<and> w' = w \<and> s' = s
   | Inr m \<Rightarrow> (case verdict m s of
       Some e0 \<Rightarrow> Is e = Is e0 \<and> w' = w \<and> s' = after m s
     | None \<Rightarrow> (case send (forwarded m s) w of
         (None, w1) \<Rightarrow> False
       | (Some e0, w1) \<Rightarrow> Is e = Is e0 \<and> w' = w1 \<and> s' = after m s)))"

lemma stream_end_write:
  "stream_end recv send verdict forwarded after r w s e w' s' \<Longrightarrow>
   w' = w \<or> (\<exists>m e1. fst (recv r) = Inr m \<and> verdict m s = None \<and> send (forwarded m s) w = (Some e1, w'))"
  by (auto simp: stream_end_def split: sum.splits option.splits prod.splits)

locale gatekeeper =
  fixes parse :: "'r \<Rightarrow> 'w \<Rightarrow> 's \<Rightarrow> err option \<times> 'r \<times> 'w \<times> 's"
    and recv :: "'r \<Rightarrow> (err + 'm) \<times> 'r"
    and send :: "'m \<Rightarrow> 'w \<Rightarrow> err option \<times> 'w"
    and verdict :: "'m \<Rightarrow> 's \<Rightarrow> err option"
    and forwarded :: "'m \<Rightarrow> 's \<Rightarrow> 'm"
    and after :: "'m \<Rightarrow> 's \<Rightarrow> 's"
  assumes on_recv_error: "recv r = (Inl e, r') \<Longrightarrow> \<exists>e'. parse r w s = (Some e', r', w, s) \<and> Is e' = Is e"
    and on_denied: "recv r = (Inr m, r') \<Longrightarrow> verdict m s = Some e \<Longrightarrow>
      \<exists>e'. parse r w s = (Some e', r', w, after m s) \<and> Is e' = Is e"
    and on_allowed: "recv r = (Inr m, r') \<Longrightarrow> verdict m s = None \<Longrightarrow> send (forwarded m s) w = (None, w') \<Longrightarrow>
      parse r w s = (None, r', w', after m s)"
    and on_send_error: "recv r = (Inr m, r') \<Longrightarrow> verdict m s = None \<Longrightarrow> send (forwarded m s) w = (Some e, w') \<Longrightarrow>
      \<exists>e'. parse r w s = (Some e', r', w', after m s) \<and> Is e' = Is e"
begin

lemma parse_ok_iff: "fst (parse r w s) = None \<longleftrightarrow> (\<exists>m r' w'. recv r = (Inr m, r')
    \<and> verdict m s = None \<and> send (forwarded m s) w = (None, w') \<and> parse r w s = (None, r', w', after m s))"
proof (cases "recv r")
  case (Pair x r')
  show ?thesis
  proof (cases x)
    case (Inl e)
    then show ?thesis using on_recv_error [of r e r' w s] Pair by auto
  next
    case (Inr m)
    show ?thesis
    proof (cases "verdict m s")
      case None
      obtain e w' where s: "send (forwarded m s) w = (e, w')" by (cases "send (forwarded m s) w")
      then show ?thesis
        using on_allowed [of r m r' s w w'] on_send_error [of r m r' s w _ w'] Pair Inr None by (cases e) auto
    next
      case (Some e)
      then show ?thesis using on_denied [of r m r' s e w] Pair Inr by auto
    qed
  qed
qed

lemma parse_error_end:
  assumes "parse r w s = (Some e, r', w', s')"
  shows "stream_end recv send verdict forwarded after r w s e w' s'"
proof (cases "recv r")
  case (Pair x r1)
  show ?thesis
  proof (cases x)
    case (Inl e0)
    then show ?thesis using on_recv_error [of r e0 r1 w s] Pair assms by (auto simp: stream_end_def)
  next
    case (Inr m)
    show ?thesis
    proof (cases "verdict m s")
      case (Some e0)
      then show ?thesis using on_denied [of r m r1 s e0 w] Pair Inr assms by (auto simp: stream_end_def)
    next
      case None
      obtain e1 w1 where sd: "send (forwarded m s) w = (e1, w1)" by (cases "send (forwarded m s) w")
      show ?thesis
      proof (cases e1)
        case e1: None
        then show ?thesis using on_allowed [of r m r1 s w w1] Pair Inr None sd assms by simp
      next
        case (Some e2)
        then show ?thesis
          using on_send_error [of r m r1 s w e2 w1] Pair Inr None sd assms by (auto simp: stream_end_def)
      qed
    qed
  qed
qed

end

end
