(* ===== verification/MqttParser.thy ===== *)
theory MqttParser
  imports Parser
begin

text \<open>
  The MQTT parser (\<^verbatim>\<open>src/pkg/parser/mqtt/parser.go\<close>). The packet library is not part of
  the repository: reading and writing a packet are the parameters \<open>ReadPacket\<close> and
  \<open>Write\<close>, and a packet has the fields the parser uses and the rest of its fields as an
  opaque value. Shown: the gatekeeper contract, the form in which each kind of packet is
  forwarded, the alignment of topics and QoS levels, and where a refusal leaves the session.
\<close>

section \<open>Definitions\<close>

record 'x ConnectPacket =
  cp_ClientIdentifier :: string
  cp_Username :: string
  cp_Password :: bytes
  cp_rest :: 'x

record 'x PublishPacket =
  pp_TopicName :: string
  pp_Payload :: bytes
  pp_rest :: 'x

record 'x SubscribePacket =
  sp_Topics :: "string list"
  sp_Qoss :: "8 word list"
  sp_rest :: 'x

record 'x UnsubscribePacket =
  up_Topics :: "string list"
  up_rest :: 'x

datatype 'x ControlPacket =
    CONNECT "'x ConnectPacket"
  | PUBLISH "'x PublishPacket"
  | SUBSCRIBE "'x SubscribePacket"
  | UNSUBSCRIBE "'x UnsubscribePacket"
  | DISCONNECT 'x
  | OtherPacket 'x

text \<open>
  The handlers of the packet kinds return the error, the packet as it was changed in place,
  and the session. An error of a notification is dropped.
\<close>

definition handleConnect :: "('h, 'c) Handler \<Rightarrow> 'x ConnectPacket \<Rightarrow> ('h, 'c) session
    \<Rightarrow> err option \<times> 'x ConnectPacket \<times> ('h, 'c) session" where
  "handleConnect H packet s = (case s of (hctx, h) \<Rightarrow>
     (let hctx = hctx\<lparr>ClientID := cp_ClientIdentifier packet, Username := cp_Username packet,
                      Password := cp_Password packet\<rparr>;
          hctx = hctx\<lparr>Protocol := ''mqtt''\<rparr>
      in case AuthConnect H h hctx of
           (Some e, hctx, h) \<Rightarrow> (Some (Wrapf ''connection authorization failed: '' e []), packet, hctx, h)
         | (None, hctx, h) \<Rightarrow>
             (let packet = packet\<lparr>cp_ClientIdentifier := ClientID hctx, cp_Username := Username hctx,
                                  cp_Password := Password hctx\<rparr>
              in case OnConnect H h hctx of (e, hctx, h) \<Rightarrow> (None, packet, hctx, h))))"

definition handlePublish :: "('h, 'c) Handler \<Rightarrow> 'x PublishPacket \<Rightarrow> ('h, 'c) session
    \<Rightarrow> err option \<times> 'x PublishPacket \<times> ('h, 'c) session" where
  "handlePublish H packet s = (case s of (hctx, h) \<Rightarrow>
     (case AuthPublish H h hctx (pp_TopicName packet) (pp_Payload packet) of
        (Some e, hctx, topic, payload, h) \<Rightarrow>
          (Some (Wrapf ''publish authorization failed: '' e []), packet, hctx, h)
      | (None, hctx, topic, payload, h) \<Rightarrow>
          (let packet = packet\<lparr>pp_TopicName := topic, pp_Payload := payload\<rparr>
           in case OnPublish H h hctx topic payload of (e, hctx, h) \<Rightarrow> (None, packet, hctx, h))))"

text \<open>Padding and truncation of the QoS list (lines 171-184).\<close>

fun pad_qoss :: "8 word list \<Rightarrow> nat \<Rightarrow> 8 word list" where
  "pad_qoss qoss 0 = qoss"
| "pad_qoss qoss (Suc k) = pad_qoss (qoss @ [0]) k"

definition update_topics :: "string list \<Rightarrow> 'x SubscribePacket \<Rightarrow> 'x SubscribePacket" where
  "update_topics topics packet = (
     if length topics \<noteq> length (sp_Topics packet) then
       let packet = packet\<lparr>sp_Topics := topics\<rparr>
       in if length (sp_Qoss packet) < length topics then
            packet\<lparr>sp_Qoss := pad_qoss (sp_Qoss packet) (length topics - length (sp_Qoss packet))\<rparr>
          else if length (sp_Qoss packet) > length topics then
            packet\<lparr>sp_Qoss := take (length topics) (sp_Qoss packet)\<rparr>
          else packet
     else packet\<lparr>sp_Topics := topics\<rparr>)"

definition handleSubscribe :: "('h, 'c) Handler \<Rightarrow> 'x SubscribePacket \<Rightarrow> ('h, 'c) session
    \<Rightarrow> err option \<times> 'x SubscribePacket \<times> ('h, 'c) session" where
  "handleSubscribe H packet s = (case s of (hctx, h) \<Rightarrow>
     (case AuthSubscribe H h hctx (sp_Topics packet) of
        (Some e, hctx, topics, h) \<Rightarrow>
          (Some (Wrapf ''subscribe authorization failed: '' e []), packet, hctx, h)
      | (None, hctx, topics, h) \<Rightarrow>
          (let packet = update_topics topics packet
           in case OnSubscribe H h hctx topics of (e, hctx, h) \<Rightarrow> (None, packet, hctx, h))))"

definition handleUnsubscribe :: "('h, 'c) Handler \<Rightarrow> 'x UnsubscribePacket \<Rightarrow> ('h, 'c) session
    \<Rightarrow> err option \<times> ('h, 'c) session" where
  "handleUnsubscribe H packet s = (case s of (hctx, h) \<Rightarrow>
     (case OnUnsubscribe H h hctx (up_Topics packet) of (e, hctx, h) \<Rightarrow> (None, hctx, h)))"

definition handleDisconnect :: "('h, 'c) Handler \<Rightarrow> ('h, 'c) session \<Rightarrow> err option \<times> ('h, 'c) session" where
  "handleDisconnect H s = (case s of (hctx, h) \<Rightarrow>
     (case OnDisconnect H h hctx of (e, hctx, h) \<Rightarrow> (None, hctx, h)))"

fun mqtt_handleUpstream :: "('h, 'c) Handler \<Rightarrow> 'x ControlPacket \<Rightarrow> ('h, 'c) session
    \<Rightarrow> err option \<times> 'x ControlPacket \<times> ('h, 'c) session" where
  "mqtt_handleUpstream H (CONNECT packet) s =
     (case handleConnect H packet s of (e, packet, s) \<Rightarrow> (e, CONNECT packet, s))"
| "mqtt_handleUpstream H (PUBLISH packet) s =
     (case handlePublish H packet s of (e, packet, s) \<Rightarrow> (e, PUBLISH packet, s))"
| "mqtt_handleUpstream H (SUBSCRIBE packet) s =
     (case handleSubscribe H packet s of (e, packet, s) \<Rightarrow> (e, SUBSCRIBE packet, s))"
| "mqtt_handleUpstream H (UNSUBSCRIBE packet) s =
     (case handleUnsubscribe H packet s of (e, s) \<Rightarrow> (e, UNSUBSCRIBE packet, s))"
| "mqtt_handleUpstream H (DISCONNECT x) s =
     (case handleDisconnect H s of (e, s) \<Rightarrow> (e, DISCONNECT x, s))"
| "mqtt_handleUpstream H (OtherPacket x) s = (None, OtherPacket x, s)"

fun mqtt_handleDownstream :: "('h, 'c) Handler \<Rightarrow> 'x ControlPacket \<Rightarrow> ('h, 'c) session
    \<Rightarrow> err option \<times> 'x ControlPacket \<times> ('h, 'c) session" where
  "mqtt_handleDownstream H (PUBLISH packet) s = (case s of (hctx, h) \<Rightarrow>
     (case AuthSubscribe H h hctx [pp_TopicName packet] of
        (Some e, hctx, topics, h) \<Rightarrow> (Some e, PUBLISH packet, hctx, h)
      | (None, hctx, topics, h) \<Rightarrow>
          (None, PUBLISH (if topics \<noteq> [] then packet\<lparr>pp_TopicName := topics ! 0\<rparr> else packet), hctx, h)))"
| "mqtt_handleDownstream H pkt s = (None, pkt, s)"

definition mqtt_handle :: "Direction \<Rightarrow> ('h, 'c) Handler \<Rightarrow> 'x ControlPacket \<Rightarrow> ('h, 'c) session
    \<Rightarrow> err option \<times> 'x ControlPacket \<times> ('h, 'c) session" where
  "mqtt_handle dir H pkt s =
     (if dir = Upstream then mqtt_handleUpstream H pkt s else mqtt_handleDownstream H pkt s)"

definition mqtt_Parse :: "('r \<Rightarrow> (err + 'x ControlPacket) \<times> 'r) \<Rightarrow> ('x ControlPacket \<Rightarrow> 'w \<Rightarrow> err option \<times> 'w)
    \<Rightarrow> ('r, 'w, 'h, 'c) parser" where
  "mqtt_Parse ReadPacket Write dir H r w s = (case ReadPacket r of
     (Inl e, r) \<Rightarrow> (Some e, r, w, s)
   | (Inr pkt, r) \<Rightarrow> (case mqtt_handle dir H pkt s of
       (Some e, pkt, s) \<Rightarrow> (Some e, r, w, s)
     | (None, pkt, s) \<Rightarrow> (case Write pkt w of
         (Some e, w) \<Rightarrow> (Some (Wrapf ''failed to write packet: '' e []), r, w, s)
       | (None, w) \<Rightarrow> (None, r, w, s))))"

text \<open>
  The specification: which question a packet puts to the handler, and the handler's answer.
\<close>

definition connect_context :: "'x ConnectPacket \<Rightarrow> 'c Context \<Rightarrow> 'c Context" where
  "connect_context p hctx = hctx\<lparr>ClientID := cp_ClientIdentifier p, Username := cp_Username p,
     Password := cp_Password p, Protocol := ''mqtt''\<rparr>"

fun mqtt_verdict :: "Direction \<Rightarrow> ('h, 'c) Handler \<Rightarrow> 'x ControlPacket \<Rightarrow> ('h, 'c) session \<Rightarrow> err option" where
  "mqtt_verdict Upstream H (CONNECT p) (hctx, h) = fst (AuthConnect H h (connect_context p hctx))"
| "mqtt_verdict Upstream H (PUBLISH p) (hctx, h) = fst (AuthPublish H h hctx (pp_TopicName p) (pp_Payload p))"
| "mqtt_verdict Upstream H (SUBSCRIBE p) (hctx, h) = fst (AuthSubscribe H h hctx (sp_Topics p))"
| "mqtt_verdict Downstream H (PUBLISH p) (hctx, h) = fst (AuthSubscribe H h hctx [pp_TopicName p])"
| "mqtt_verdict dir H pkt s = None"

definition mqtt_forwarded :: "Direction \<Rightarrow> ('h, 'c) Handler \<Rightarrow> 'x ControlPacket \<Rightarrow> ('h, 'c) session \<Rightarrow> 'x ControlPacket"
where
  "mqtt_forwarded dir H pkt s = fst (snd (mqtt_handle dir H pkt s))"

definition mqtt_after :: "Direction \<Rightarrow> ('h, 'c) Handler \<Rightarrow> 'x ControlPacket \<Rightarrow> ('h, 'c) session \<Rightarrow> ('h, 'c) session"
where
  "mqtt_after dir H pkt s = snd (snd (mqtt_handle dir H pkt s))"

section \<open>Lemmas\<close>

lemmas mqtt_handlers = handleConnect_def handlePublish_def handleSubscribe_def handleUnsubscribe_def
  handleDisconnect_def connect_context_def Let_def

lemma pad_qoss_eq: "pad_qoss qoss k = qoss @ replicate k 0"
  by (induction k arbitrary: qoss) (simp_all add: replicate_app_Cons_same)

text \<open>The parser's own error is the handler's verdict, wrapped or not.\<close>

lemma mqtt_handle_verdict:
  "case mqtt_verdict dir H pkt s of
     None \<Rightarrow> fst (mqtt_handle dir H pkt s) = None
   | Some e \<Rightarrow> (\<exists>e'. fst (mqtt_handle dir H pkt s) = Some e' \<and> Is e' = Is e)"
  by (cases "(dir, H, pkt, s)" rule: mqtt_verdict.cases)
    (auto simp: mqtt_handle_def mqtt_handlers fun_eq_iff split: prod.splits option.splits)

interpretation mqtt_gate: gatekeeper "mqtt_Parse ReadPacket Write dir H" ReadPacket Write
    "mqtt_verdict dir H" "mqtt_forwarded dir H" "mqtt_after dir H"
  for ReadPacket Write dir H
proof (unfold_locales, goal_cases)
  case (1 r e r' w s)
  then show ?case by (simp add: mqtt_Parse_def)
next
  case (2 r m r' s e w)
  then show ?case using mqtt_handle_verdict [of dir H m s]
    by (auto simp: mqtt_Parse_def mqtt_after_def split: prod.splits)
next
  case (3 r m r' s w w')
  then show ?case using mqtt_handle_verdict [of dir H m s]
    by (auto simp: mqtt_Parse_def mqtt_after_def mqtt_forwarded_def split: prod.splits)
next
  case (4 r m r' s w e w')
  then show ?case using mqtt_handle_verdict [of dir H m s]
    by (auto simp: mqtt_Parse_def mqtt_after_def mqtt_forwarded_def fun_eq_iff split: prod.splits)
qed

section \<open>Properties\<close>

text \<open>A handler that refuses every publish and subscribe with \<open>ErrUnauthorized\<close>, and one that
  replaces the credentials of a connection.\<close>

definition refusing :: "('h, 'c) Handler" where
  "refusing = NoopHandler\<lparr>
     AuthPublish := (\<lambda>h hctx t p. (Some ErrUnauthorized, hctx, t, p, h)),
     AuthSubscribe := (\<lambda>h hctx ts. (Some ErrUnauthorized, hctx, ts, h))\<rparr>"

definition rewriting :: "(unit, unit) Handler" where
  "rewriting = NoopHandler\<lparr>
     AuthConnect := (\<lambda>h hctx. (None, hctx\<lparr>Username := ''backend-user''\<rparr>, h))\<rparr>"

lemmas sample_handlers = refusing_def rewriting_def NoopHandler_def

text \<open>A packet the handler refuses is not written: \<^verbatim>\<open>Parse\<close> returns an error
  that carries the handler's error (\<^verbatim>\<open>errors.Is\<close> finds the same targets in it), and the
  destination is untouched.\<close>

lemma mqtt_refusal_writes_nothing:
  assumes "ReadPacket r = (Inr pkt, r')" and "mqtt_verdict dir H pkt s = Some e"
  shows "\<exists>e'. mqtt_Parse ReadPacket Write dir H r w s = (Some e', r', w, mqtt_after dir H pkt s)
    \<and> Is e' = Is e"
  using assms by (rule mqtt_gate.on_denied)

theorem mqtt_refusal_writes_nothing_witness:
  "\<exists>e'. mqtt_Parse (\<lambda>r. (Inr (PUBLISH \<lparr>pp_TopicName = ''t'', pp_Payload = ''x'', pp_rest = ()\<rparr>), r))
       (\<lambda>m w. (None, w @ [m])) Upstream refusing () [] (zero_Context :: unit Context, ())
     = (Some e', (), [], zero_Context, ()) \<and> Is e' ErrUnauthorized"
  using mqtt_refusal_writes_nothing [of "\<lambda>r. (Inr (PUBLISH \<lparr>pp_TopicName = ''t'', pp_Payload = ''x'', pp_rest = ()\<rparr>), r)"
      "()" "PUBLISH \<lparr>pp_TopicName = ''t'', pp_Payload = ''x'', pp_rest = ()\<rparr>" "()" Upstream refusing
      "(zero_Context :: unit Context, ())" ErrUnauthorized "\<lambda>m w. (None, w @ [m])" "[]"]
  by (auto simp: sample_handlers mqtt_after_def mqtt_handle_def mqtt_handlers ErrUnauthorized_def)

text \<open>An approved packet is forwarded as the handler left it: a CONNECT with
  the handler's client identifier, user name and password, a PUBLISH with its topic and
  payload, a PUBLISH from the broker with the first topic the handler returned (its own when
  it returned none); every other field is kept, and an error of the notification that follows
  changes nothing.\<close>

lemma mqtt_forwards_handlers_version:
  "(AuthConnect H h (connect_context cp hctx) = (None, hctx1, h1) \<longrightarrow>
      mqtt_forwarded Upstream H (CONNECT cp) (hctx, h) = CONNECT (cp\<lparr>cp_ClientIdentifier := ClientID hctx1,
        cp_Username := Username hctx1, cp_Password := Password hctx1\<rparr>))
   \<and> (AuthPublish H h hctx (pp_TopicName pp) (pp_Payload pp) = (None, hctx2, topic, payload, h2) \<longrightarrow>
      mqtt_forwarded Upstream H (PUBLISH pp) (hctx, h) = PUBLISH (pp\<lparr>pp_TopicName := topic, pp_Payload := payload\<rparr>))
   \<and> (AuthSubscribe H h hctx [pp_TopicName pp] = (None, hctx3, topics, h3) \<longrightarrow>
      mqtt_forwarded Downstream H (PUBLISH pp) (hctx, h) =
        PUBLISH (pp\<lparr>pp_TopicName := (case topics of [] \<Rightarrow> pp_TopicName pp | t # ts \<Rightarrow> t)\<rparr>))"
  by (auto simp: mqtt_forwarded_def mqtt_handle_def mqtt_handlers split: prod.splits list.splits)

theorem mqtt_forwards_handlers_version_witness:
  "mqtt_forwarded Upstream rewriting
     (CONNECT \<lparr>cp_ClientIdentifier = ''c'', cp_Username = ''u'', cp_Password = ''p'', cp_rest = ()\<rparr>) (zero_Context, ())
   = CONNECT \<lparr>cp_ClientIdentifier = ''c'', cp_Username = ''backend-user'', cp_Password = ''p'', cp_rest = ()\<rparr>"
proof -
  let ?p = "\<lparr>cp_ClientIdentifier = ''c'', cp_Username = ''u'', cp_Password = ''p'', cp_rest = ()\<rparr>"
  let ?c = "(connect_context ?p zero_Context)\<lparr>Username := ''backend-user''\<rparr>"
  have "AuthConnect rewriting () (connect_context ?p zero_Context) = (None, ?c, ())"
    by (simp add: sample_handlers)
  from mp [OF conjunct1 [OF mqtt_forwards_handlers_version] this]
  show ?thesis by (simp add: connect_context_def)
qed

text \<open>The QoS list of a SUBSCRIBE stays aligned with its topics whatever list
  the handler returns: the lengths agree, the levels of the first topics are kept by
  position, and topics beyond the original number get QoS 0.\<close>

lemma subscribe_qos_aligned:
  assumes "length (sp_Qoss p) = length (sp_Topics p)"
  shows "sp_Topics (update_topics topics p) = topics
    \<and> length (sp_Qoss (update_topics topics p)) = length topics
    \<and> (\<forall>i < length topics. sp_Qoss (update_topics topics p) ! i
          = (if i < length (sp_Qoss p) then sp_Qoss p ! i else 0))"
  using assms by (auto simp: update_topics_def pad_qoss_eq Let_def nth_append)

theorem subscribe_qos_aligned_witness:
  "sp_Qoss (update_topics [''a'', ''b'', ''c''] \<lparr>sp_Topics = [''a''], sp_Qoss = [2], sp_rest = ()\<rparr>) ! 2 = 0"
  using subscribe_qos_aligned [of "\<lparr>sp_Topics = [''a''], sp_Qoss = [2], sp_rest = ()\<rparr>" "[''a'', ''b'', ''c'']"]
  by simp

text \<open>The alignment is by position, not by topic: when a handler drops the first
  topic of a subscription, the second one is sent to the broker with the QoS of the first.\<close>

theorem subscribe_qos_shifts:
  "update_topics [''b''] \<lparr>sp_Topics = [''a'', ''b''], sp_Qoss = [q1, q2], sp_rest = x\<rparr>
   = \<lparr>sp_Topics = [''b''], sp_Qoss = [q1], sp_rest = x\<rparr>"
  by (simp add: update_topics_def Let_def)

text \<open>The notification precedes the write: when the write of an approved PUBLISH
  fails, \<^verbatim>\<open>OnPublish\<close> has already been called for a packet that is never forwarded.\<close>

theorem mqtt_notifies_before_write:
  "mqtt_Parse (\<lambda>r. (Inr (PUBLISH p), r)) (\<lambda>m w. (Some e, w)) Upstream (logged NoopHandler) r w (hctx, [], h)
   = (Some (Wrapf ''failed to write packet: '' e []), r, w, hctx, [''AuthPublish'', ''OnPublish''], h)"
  by (simp add: mqtt_Parse_def mqtt_handle_def mqtt_handlers handler_simps)

end
