(* ===== verification/CoapParser.thy ===== *)
theory CoapParser
  imports Parser
begin

text \<open>
  The CoAP parser (\<^verbatim>\<open>src/pkg/parser/coap/parser.go\<close>). Decoding a message and reading its
  options is the work of a library that is not part of the repository: the record
  \<open>coap_lib\<close> has one field per call the parser makes. \<^verbatim>\<open>io.ReadAll\<close> on the datagram and
  the write are parameters too. Shown: the gatekeeper contract with the datagram forwarded
  byte for byte, the extraction of the key, and that a key stays in force for later
  datagrams of the same session.
\<close>

section \<open>Definitions\<close>

datatype coap_code = GET | POST | PUT | OtherCode nat

record 'm coap_lib =
  Unmarshal :: "bytes \<Rightarrow> err + 'm"
  Queries :: "'m \<Rightarrow> err + string list"
  Path :: "'m \<Rightarrow> err + string"
  Observe :: "'m \<Rightarrow> err + nat"
  Code :: "'m \<Rightarrow> coap_code"

fun find_auth :: "string list \<Rightarrow> string" where
  "find_auth [] = []"
| "find_auth (query # queries) =
     (if length query > 5 \<and> take 5 query = ''auth='' then drop 5 query else find_auth queries)"

definition extractAuthFromQuery :: "'m coap_lib \<Rightarrow> 'm \<Rightarrow> string" where
  "extractAuthFromQuery lib msg = (case Queries lib msg of Inl e \<Rightarrow> [] | Inr queries \<Rightarrow> find_auth queries)"

text \<open>The last phase of \<^verbatim>\<open>handleUpstream\<close>, by method code (lines 84-105).\<close>

definition coap_dispatch :: "'m coap_lib \<Rightarrow> ('h, 'c) Handler \<Rightarrow> 'm \<Rightarrow> string \<Rightarrow> ('h, 'c) session
    \<Rightarrow> err option \<times> ('h, 'c) session" where
  "coap_dispatch lib H msg path s = (case s of (hctx, h) \<Rightarrow>
     (if Code lib msg = POST \<or> Code lib msg = PUT then
        (case AuthPublish H h hctx path [] of
           (Some e, hctx, path, payload, h) \<Rightarrow> (Some (Wrapf ''publish authorization failed: '' e []), hctx, h)
         | (None, hctx, path, payload, h) \<Rightarrow>
             (case OnPublish H h hctx path payload of (e, hctx, h) \<Rightarrow> (None, hctx, h)))
      else if Code lib msg = GET then
        (case Observe lib msg of
           Inr 0 \<Rightarrow>
             (case AuthSubscribe H h hctx [path] of
                (Some e, hctx, topics, h) \<Rightarrow> (Some (Wrapf ''subscribe authorization failed: '' e []), hctx, h)
              | (None, hctx, topics, h) \<Rightarrow>
                  (case OnSubscribe H h hctx topics of (e, hctx, h) \<Rightarrow> (None, hctx, h)))
         | _ \<Rightarrow> (None, hctx, h))
      else (None, hctx, h)))"

definition coap_handleUpstream :: "'m coap_lib \<Rightarrow> ('h, 'c) Handler \<Rightarrow> 'm \<Rightarrow> ('h, 'c) session
    \<Rightarrow> err option \<times> ('h, 'c) session" where
  "coap_handleUpstream lib H msg s = (case s of (hctx, h) \<Rightarrow>
     (let hctx = hctx\<lparr>Protocol := ''coap''\<rparr>;
          authKey = extractAuthFromQuery lib msg;
          hctx = (if authKey \<noteq> [] then hctx\<lparr>Password := authKey\<rparr> else hctx);
          path = (case Path lib msg of Inl e \<Rightarrow> ''/'' | Inr path \<Rightarrow> path)
      in case AuthConnect H h hctx of
           (Some e, hctx, h) \<Rightarrow> (Some (Wrapf ''connection authorization failed: '' e []), hctx, h)
         | (None, hctx, h) \<Rightarrow> coap_dispatch lib H msg path (hctx, h)))"

definition coap_Parse :: "'m coap_lib \<Rightarrow> ('r \<Rightarrow> (err + bytes) \<times> 'r) \<Rightarrow> (bytes \<Rightarrow> 'w \<Rightarrow> err option \<times> 'w)
    \<Rightarrow> ('r, 'w, 'h, 'c) parser" where
  "coap_Parse lib ReadAll Write dir H r w s = (case ReadAll r of
     (Inl e, r) \<Rightarrow> (Some (Wrapf ''failed to read CoAP message: '' e []), r, w, s)
   | (Inr data, r) \<Rightarrow> (case Unmarshal lib data of
       Inl e \<Rightarrow> (Some (Wrapf ''failed to unmarshal CoAP message: '' e []), r, w, s)
     | Inr msg \<Rightarrow>
         (case (if dir = Upstream then coap_handleUpstream lib H msg s else (None, s)) of
            (Some e, s) \<Rightarrow> (Some e, r, w, s)
          | (None, s) \<Rightarrow> (case Write data w of
              (Some e, w) \<Rightarrow> (Some (Wrapf ''failed to write CoAP message: '' e []), r, w, s)
            | (None, w) \<Rightarrow> (None, r, w, s)))))"

text \<open>
  The specification: a message is received when it can be read and decoded; upstream the
  handler is asked to accept the connection, and then the publish or the subscription.
\<close>

definition coap_recv :: "'m coap_lib \<Rightarrow> ('r \<Rightarrow> (err + bytes) \<times> 'r) \<Rightarrow> 'r \<Rightarrow> (err + bytes) \<times> 'r" where
  "coap_recv lib ReadAll r = (case ReadAll r of
     (Inl e, r') \<Rightarrow> (Inl e, r')
   | (Inr data, r') \<Rightarrow> (case Unmarshal lib data of Inl e \<Rightarrow> (Inl e, r') | Inr msg \<Rightarrow> (Inr data, r')))"

definition coap_context :: "'m coap_lib \<Rightarrow> 'm \<Rightarrow> 'c Context \<Rightarrow> 'c Context" where
  "coap_context lib msg hctx = (let key = extractAuthFromQuery lib msg in
     hctx\<lparr>Protocol := ''coap'', Password := (if key = [] then Password hctx else key)\<rparr>)"

definition coap_path :: "'m coap_lib \<Rightarrow> 'm \<Rightarrow> string" where
  "coap_path lib msg = (case Path lib msg of Inl e \<Rightarrow> ''/'' | Inr path \<Rightarrow> path)"

definition coap_verdict_msg :: "'m coap_lib \<Rightarrow> ('h, 'c) Handler \<Rightarrow> 'm \<Rightarrow> ('h, 'c) session \<Rightarrow> err option" where
  "coap_verdict_msg lib H msg s = (case s of (hctx, h) \<Rightarrow>
     (case AuthConnect H h (coap_context lib msg hctx) of
        (Some e, hctx', h') \<Rightarrow> Some e
      | (None, hctx', h') \<Rightarrow>
          (if Code lib msg \<in> {POST, PUT} then fst (AuthPublish H h' hctx' (coap_path lib msg) [])
           else if Code lib msg = GET \<and> Observe lib msg = Inr 0
           then fst (AuthSubscribe H h' hctx' [coap_path lib msg]) else None)))"

definition coap_verdict :: "'m coap_lib \<Rightarrow> Direction \<Rightarrow> ('h, 'c) Handler \<Rightarrow> bytes \<Rightarrow> ('h, 'c) session \<Rightarrow> err option"
where
  "coap_verdict lib dir H data s = (case (dir, Unmarshal lib data) of
     (Upstream, Inr msg) \<Rightarrow> coap_verdict_msg lib H msg s | _ \<Rightarrow> None)"

definition coap_after :: "'m coap_lib \<Rightarrow> Direction \<Rightarrow> ('h, 'c) Handler \<Rightarrow> bytes \<Rightarrow> ('h, 'c) session \<Rightarrow> ('h, 'c) session"
where
  "coap_after lib dir H data s = (case (dir, Unmarshal lib data) of
     (Upstream, Inr msg) \<Rightarrow> snd (coap_handleUpstream lib H msg s) | _ \<Rightarrow> s)"

section \<open>Lemmas\<close>

lemma coap_handle_verdict:
  "case coap_verdict_msg lib H msg s of
     None \<Rightarrow> fst (coap_handleUpstream lib H msg s) = None
   | Some e \<Rightarrow> (\<exists>e'. fst (coap_handleUpstream lib H msg s) = Some e' \<and> Is e' = Is e)"
proof -
  obtain hctx h where s: "s = (hctx, h)" by (cases s)
  obtain e hctx' h' where a: "AuthConnect H h (coap_context lib msg hctx) = (e, hctx', h')"
    by (cases "AuthConnect H h (coap_context lib msg hctx)")
  have u: "coap_handleUpstream lib H msg s = (case e of
      Some e \<Rightarrow> (Some (Wrapf ''connection authorization failed: '' e []), hctx', h')
    | None \<Rightarrow> coap_dispatch lib H msg (coap_path lib msg) (hctx', h'))"
    using a by (auto simp: coap_handleUpstream_def s coap_context_def coap_path_def Let_def
        split: if_splits option.splits sum.splits)
  show ?thesis
    using a unfolding u
    by (auto simp: coap_verdict_msg_def s coap_dispatch_def fun_eq_iff
        split: option.splits prod.splits sum.splits nat.splits)
qed

interpretation coap_gate: gatekeeper "coap_Parse lib ReadAll Write dir H" "coap_recv lib ReadAll" Write
    "coap_verdict lib dir H" "\<lambda>m s. m" "coap_after lib dir H"
  for lib ReadAll Write dir H
proof (unfold_locales, goal_cases)
  case (1 r e r' w s)
  then show ?case by (auto simp: coap_Parse_def coap_recv_def fun_eq_iff split: prod.splits sum.splits)
next
  case (2 r m r' s e w)
  then obtain msg where "ReadAll r = (Inr m, r')" "Unmarshal lib m = Inr msg" "dir = Upstream"
    by (auto simp: coap_recv_def coap_verdict_def split: prod.splits sum.splits Direction.splits)
  then show ?case using 2 coap_handle_verdict [of lib H msg s]
    by (auto simp: coap_Parse_def coap_verdict_def coap_after_def split: prod.splits)
next
  case (3 r m r' s w w')
  then obtain msg where "ReadAll r = (Inr m, r')" "Unmarshal lib m = Inr msg"
    by (auto simp: coap_recv_def split: prod.splits sum.splits)
  then show ?case using 3 coap_handle_verdict [of lib H msg s]
    by (cases dir) (auto simp: coap_Parse_def coap_verdict_def coap_after_def split: prod.splits)
next
  case (4 r m r' s w e w')
  then obtain msg where "ReadAll r = (Inr m, r')" "Unmarshal lib m = Inr msg"
    by (auto simp: coap_recv_def split: prod.splits sum.splits)
  then show ?case using 4 coap_handle_verdict [of lib H msg s]
    by (cases dir) (auto simp: coap_Parse_def coap_verdict_def coap_after_def fun_eq_iff split: prod.splits)
qed

section \<open>Properties\<close>

text \<open>A library that decodes a datagram to itself, taken as one query option, always a GET with
  Observe 0; a handler that accepts one key.\<close>

definition sample_lib :: "bytes coap_lib" where
  "sample_lib = \<lparr>Unmarshal = Inr, Queries = (\<lambda>m. Inr [m]), Path = (\<lambda>m. Inr ''/p''), Observe = (\<lambda>m. Inr 0),
     Code = (\<lambda>m. GET)\<rparr>"

definition key_handler :: "bytes \<Rightarrow> (unit, unit) Handler" where
  "key_handler key = NoopHandler\<lparr>
     AuthConnect := (\<lambda>h hctx. (if Password hctx = key then None else Some ErrUnauthorized, hctx, h))\<rparr>"

lemmas sample_coap = sample_lib_def key_handler_def NoopHandler_def zero_Context_def

text \<open>The CoAP gate: a datagram that can be read and decoded is written to the
  destination exactly when the handler approves it, and then byte for byte as it came, even
  when the handler rewrites the path or the payload; a refused one is not written.\<close>

lemma coap_forwards_verbatim:
  assumes "ReadAll r = (Inr data, r')" and "Unmarshal lib data = Inr msg" and "Write data w = (None, w')"
  shows "if coap_verdict lib dir H data s = None
    then coap_Parse lib ReadAll Write dir H r w s = (None, r', w', coap_after lib dir H data s)
    else fst (coap_Parse lib ReadAll Write dir H r w s) \<noteq> None
      \<and> fst (snd (snd (coap_Parse lib ReadAll Write dir H r w s))) = w"
proof -
  have r: "coap_recv lib ReadAll r = (Inr data, r')" using assms by (simp add: coap_recv_def)
  show ?thesis
  proof (cases "coap_verdict lib dir H data s")
    case None
    then show ?thesis
      using coap_gate.on_allowed [of lib ReadAll r data r' dir H s Write w w'] r assms(3) by simp
  next
    case (Some e)
    then show ?thesis using coap_gate.on_denied [of lib ReadAll r data r' dir H s e Write w] r by auto
  qed
qed

theorem coap_forwards_verbatim_witness:
  "coap_Parse sample_lib (\<lambda>r. (Inr ''auth=k'', r)) (\<lambda>m w. (None, w @ m)) Upstream (key_handler ''k'') () [] (zero_Context, ())
   = (None, (), ''auth=k'', coap_after sample_lib Upstream (key_handler ''k'') ''auth=k'' (zero_Context, ()))"
proof -
  have v: "coap_verdict sample_lib Upstream (key_handler ''k'') ''auth=k'' (zero_Context, ()) = None"
    by (simp add: coap_verdict_def coap_verdict_msg_def coap_context_def extractAuthFromQuery_def Let_def sample_coap)
  show ?thesis
    using coap_forwards_verbatim [of "\<lambda>r. (Inr ''auth=k'', r)" "()" "''auth=k''" "()" sample_lib "''auth=k''"
        "\<lambda>m w. (None, w @ m)" "[]" "''auth=k''" Upstream "key_handler ''k''" "(zero_Context, ())"] v
    by (simp add: sample_lib_def)
qed

text \<open>The key of a request is the value of its first query option of the form
  \<open>auth=\<close> with a non-empty value; without one the key is empty.\<close>

theorem auth_key_is_first_match:
  "find_auth queries = (case filter (\<lambda>q. \<exists>v. v \<noteq> [] \<and> q = ''auth='' @ v) queries of
     [] \<Rightarrow> [] | q # qs \<Rightarrow> drop 5 q)"
proof (induction queries)
  case (Cons q queries)
  have "(length q > 5 \<and> take 5 q = ''auth='') \<longleftrightarrow> (\<exists>v. v \<noteq> [] \<and> q = ''auth='' @ v)" (is "?l \<longleftrightarrow> ?r")
  proof
    assume ?l
    then have "q = ''auth='' @ drop 5 q" and "drop 5 q \<noteq> []" by (metis append_take_drop_id, simp)
    then show ?r by blast
  qed auto
  with Cons show ?case by (auto split: list.splits)
qed simp

text \<open>A handler whose methods leave the password of the context alone.\<close>

definition keeps_password :: "('h, 'c) Handler \<Rightarrow> bool" where
  "keeps_password H \<longleftrightarrow> (\<forall>h hctx t p ts.
     Password (fst (snd (AuthConnect H h hctx))) = Password hctx
     \<and> Password (fst (snd (AuthPublish H h hctx t p))) = Password hctx
     \<and> Password (fst (snd (AuthSubscribe H h hctx ts))) = Password hctx
     \<and> Password (fst (snd (OnPublish H h hctx t p))) = Password hctx
     \<and> Password (fst (snd (OnSubscribe H h hctx ts))) = Password hctx)"

lemma coap_dispatch_password:
  "keeps_password H \<Longrightarrow> Password (fst (snd (coap_dispatch lib H msg path (hctx, h)))) = Password hctx"
  by (simp add: coap_dispatch_def keeps_password_def case_prod_beta split: option.split sum.split nat.split)

lemma coap_handle_password:
  assumes "keeps_password H"
  shows "Password (fst (snd (coap_handleUpstream lib H msg (hctx, h)))) = Password (coap_context lib msg hctx)"
proof -
  let ?c = "coap_context lib msg hctx"
  obtain e c h' where a: "AuthConnect H h ?c = (e, c, h')" by (cases "AuthConnect H h ?c")
  have "Password c = Password ?c"
    using assms a unfolding keeps_password_def by (metis fst_conv snd_conv)
  moreover have "coap_handleUpstream lib H msg (hctx, h) = (case e of
      Some e \<Rightarrow> (Some (Wrapf ''connection authorization failed: '' e []), c, h')
    | None \<Rightarrow> coap_dispatch lib H msg (coap_path lib msg) (c, h'))"
    using a by (auto simp: coap_handleUpstream_def coap_context_def coap_path_def Let_def
        split: if_splits option.splits sum.splits)
  ultimately show ?thesis
    using coap_dispatch_password [OF assms, of lib msg "coap_path lib msg" c h'] by (simp split: option.splits)
qed

text \<open>Credentials outlive their datagram: the context is shared by the datagrams of a
  session and a request without a key leaves the password in place, so after a request with
  a key, whether it was approved or refused, a later request without one is put to the
  handler with that same key.\<close>

lemma coap_key_persists:
  assumes "keeps_password H" and "extractAuthFromQuery lib msg1 = key" and "key \<noteq> []"
    and "extractAuthFromQuery lib msg2 = []"
  shows "Password (coap_context lib msg2 (fst (snd (coap_handleUpstream lib H msg1 (hctx, h))))) = key"
  using coap_handle_password [OF assms(1), of lib msg1 hctx h] assms(2-4)
  by (simp add: coap_context_def [of lib msg2] coap_context_def [of lib msg1] Let_def)

theorem coap_key_persists_witness:
  "Password (coap_context sample_lib ''x=y'' (fst (snd (coap_handleUpstream sample_lib (key_handler ''k'')
     ''auth=wrong'' (zero_Context, ()))))) = ''wrong''"
proof -
  have "keeps_password (key_handler ''k'')" by (simp add: keeps_password_def sample_coap)
  moreover have "extractAuthFromQuery sample_lib ''auth=wrong'' = ''wrong''"
    and "extractAuthFromQuery sample_lib ''x=y'' = []"
    by (simp_all add: extractAuthFromQuery_def sample_lib_def)
  ultimately show ?thesis by (intro coap_key_persists) simp_all
qed

end
