(* ===== verification/TcpServer.thy ===== *)
theory TcpServer
  imports MqttParser CoapParser
begin

text \<open>
  The TCP server (\<^verbatim>\<open>src/pkg/server/tcp/server.go\<close>): configuration defaults, the streaming
  loop of one direction, the life of one connection with its two directions interleaved at
  the granularity of \<^verbatim>\<open>Parse\<close>, and the accept loop with its semaphore and the graceful
  shutdown as a step relation. The network, TLS and the clock are parameters: what a call
  of them returns is an argument. Shown: everything a stream relays was approved, in order
  and in the form the handler gave it (inside the locale \<open>gatekeeper\<close>, so for every
  parser that meets it), the loop returns, the connection limit, the meaning of a clean
  shutdown and that the shutdown ends on every path, and what happens to the other direction
  when one is refused.
\<close>

section \<open>Definitions\<close>

definition ErrShutdownTimeout :: err where
  "ErrShutdownTimeout = Sentinel ''tcp.ErrShutdownTimeout'' ''shutdown timeout exceeded''"

record tcp_Config =
  tcp_Address :: string
  tcp_TargetAddress :: string
  tcp_TLSConfig :: bool
  tcp_ShutdownTimeout :: duration
  tcp_MaxConnections :: int
  tcp_ReadTimeout :: duration
  tcp_WriteTimeout :: duration
  tcp_IdleTimeout :: duration
  tcp_BufferSize :: int
  tcp_TCPKeepAlive :: duration
  tcp_DisableNoDelay :: bool

text \<open>\<^verbatim>\<open>New\<close>: the defaults, and the capacity of the semaphore (\<open>None\<close>: the nil channel).\<close>

definition tcp_New :: "tcp_Config \<Rightarrow> tcp_Config \<times> nat option" where
  "tcp_New cfg = (
     let cfg = (if tcp_ShutdownTimeout cfg = 0 then cfg\<lparr>tcp_ShutdownTimeout := 30 * second\<rparr> else cfg);
         cfg = (if tcp_ReadTimeout cfg = 0 then cfg\<lparr>tcp_ReadTimeout := 60 * second\<rparr> else cfg);
         cfg = (if tcp_WriteTimeout cfg = 0 then cfg\<lparr>tcp_WriteTimeout := 60 * second\<rparr> else cfg);
         cfg = (if tcp_IdleTimeout cfg = 0 then cfg\<lparr>tcp_IdleTimeout := 300 * second\<rparr> else cfg);
         cfg = (if tcp_BufferSize cfg = 0 then cfg\<lparr>tcp_BufferSize := 4096\<rparr> else cfg);
         cfg = (if tcp_TCPKeepAlive cfg = 0 then cfg\<lparr>tcp_TCPKeepAlive := 15 * second\<rparr> else cfg)
     in (cfg, if tcp_MaxConnections cfg > 0 then Some (nat (tcp_MaxConnections cfg)) else None))"

text \<open>What the environment answers in one round of the loop: the context, the two deadlines.\<close>

record round_env =
  rd_done :: "err option"
  rd_read :: "err option"
  rd_write :: "err option"

definition quiet :: round_env where
  "quiet = \<lparr>rd_done = None, rd_read = None, rd_write = None\<rparr>"

text \<open>The guards of one round (lines 341-360): the error with which the loop returns, if any.\<close>

definition round_guard :: "tcp_Config \<Rightarrow> round_env \<Rightarrow> err option" where
  "round_guard c v = (case rd_done v of
     Some e \<Rightarrow> Some e
   | None \<Rightarrow> (case (if tcp_ReadTimeout c > 0 then rd_read v else None) of
       Some e \<Rightarrow> Some (Wrapf ''failed to set read deadline: '' e [])
     | None \<Rightarrow> (case (if tcp_WriteTimeout c > 0 then rd_write v else None) of
         Some e \<Rightarrow> Some (Wrapf ''failed to set write deadline: '' e [])
       | None \<Rightarrow> None)))"

text \<open>The loop; \<open>None\<close>: it is still running after the given number of rounds.\<close>

fun stream :: "nat \<Rightarrow> (nat \<Rightarrow> round_env) \<Rightarrow> tcp_Config \<Rightarrow> ('r \<Rightarrow> 'w \<Rightarrow> 's \<Rightarrow> err option \<times> 'r \<times> 'w \<times> 's)
    \<Rightarrow> 'r \<Rightarrow> 'w \<Rightarrow> 's \<Rightarrow> (err \<times> 'r \<times> 'w \<times> 's) option" where
  "stream 0 env c parse r w s = None"
| "stream (Suc n) env c parse r w s = (case round_guard c (env 0) of
     Some e \<Rightarrow> Some (e, r, w, s)
   | None \<Rightarrow> (case parse r w s of
       (Some e, r, w, s) \<Rightarrow> Some (e, r, w, s)
     | (None, r, w, s) \<Rightarrow> stream n (\<lambda>i. env (Suc i)) c parse r w s))"

text \<open>
  One connection: the two readers and writers, the shared session, and the results sent to
  the error channel, in order. A round of one direction runs only while its stream does.
\<close>

record ('r, 'w, 's) tcp_conn =
  tc_in_r :: 'r
  tc_in_w :: 'w
  tc_out_r :: 'r
  tc_out_w :: 'w
  tc_session :: 's
  tc_errCh :: "(Direction \<times> err) list"

definition conn_round :: "(Direction \<Rightarrow> 'r \<Rightarrow> 'w \<Rightarrow> 's \<Rightarrow> err option \<times> 'r \<times> 'w \<times> 's) \<Rightarrow> tcp_Config
    \<Rightarrow> Direction \<times> round_env \<Rightarrow> ('r, 'w, 's) tcp_conn \<Rightarrow> ('r, 'w, 's) tcp_conn" where
  "conn_round parse c dv t = (case dv of (dir, v) \<Rightarrow>
     (if dir \<in> fst ` set (tc_errCh t) then t
      else case round_guard c v of
        Some e \<Rightarrow> t\<lparr>tc_errCh := tc_errCh t @ [(dir, e)]\<rparr>
      | None \<Rightarrow>
          (case (if dir = Upstream then parse dir (tc_in_r t) (tc_out_w t) (tc_session t)
                 else parse dir (tc_out_r t) (tc_in_w t) (tc_session t)) of
             (e, r, w, s) \<Rightarrow>
               (let t = (if dir = Upstream then t\<lparr>tc_in_r := r, tc_out_w := w, tc_session := s\<rparr>
                         else t\<lparr>tc_out_r := r, tc_in_w := w, tc_session := s\<rparr>)
                in case e of None \<Rightarrow> t | Some e \<Rightarrow> t\<lparr>tc_errCh := tc_errCh t @ [(dir, e)]\<rparr>))))"

definition conn_run :: "(Direction \<Rightarrow> 'r \<Rightarrow> 'w \<Rightarrow> 's \<Rightarrow> err option \<times> 'r \<times> 'w \<times> 's) \<Rightarrow> tcp_Config
    \<Rightarrow> (Direction \<times> round_env) list \<Rightarrow> ('r, 'w, 's) tcp_conn \<Rightarrow> ('r, 'w, 's) tcp_conn" where
  "conn_run parse c sched t = fold (conn_round parse c) sched t"

text \<open>The wait for both results (lines 316-323).\<close>

fun first_stream_error :: "(Direction \<times> err) list \<Rightarrow> err option \<Rightarrow> err option" where
  "first_stream_error [] streamErr = streamErr"
| "first_stream_error ((d, e) # es) streamErr =
     first_stream_error es (if \<not> Is e EOF \<and> streamErr = None then Some e else streamErr)"

text \<open>
  \<^verbatim>\<open>handleConn\<close>: \<open>tls\<close> is the outcome of the handshake with the peer's certificates
  when the connection is a TLS one, \<open>dial\<close> the error of the dial, \<open>sched\<close> the rounds that
  are run; the result is \<open>None\<close> while a stream is still running.
\<close>

definition handleConn :: "('r, 'w, 'h, 'c) parser \<Rightarrow> tcp_Config \<Rightarrow> ('h, 'c) Handler \<Rightarrow> string \<Rightarrow> string
    \<Rightarrow> (err + 'c list) option \<Rightarrow> err option \<Rightarrow> (Direction \<times> round_env) list
    \<Rightarrow> 'r \<Rightarrow> 'w \<Rightarrow> 'r \<Rightarrow> 'w \<Rightarrow> 'h \<Rightarrow> (err option \<times> 'w \<times> 'w \<times> 'h) option" where
  "handleConn parse c H sessionID remote tls dial sched in_r in_w out_r out_w h = (
     let hctx = zero_Context\<lparr>SessionID := sessionID, RemoteAddr := remote, Protocol := ''tcp''\<rparr>
     in case tls of
       Some (Inl e) \<Rightarrow> Some (Some (Wrapf ''TLS handshake failed: '' e []), in_w, out_w, h)
     | _ \<Rightarrow>
       (let hctx = (case tls of Some (Inr (cert # certs)) \<Rightarrow> hctx\<lparr>Cert := Some cert\<rparr> | _ \<Rightarrow> hctx)
        in case dial of
          Some e \<Rightarrow> Some (Some (Wrapf (''failed to dial backend '' @ tcp_TargetAddress c @ '': '') e []), in_w, out_w, h)
        | None \<Rightarrow>
          (let t = conn_run (\<lambda>dir. parse dir H) c sched
                 \<lparr>tc_in_r = in_r, tc_in_w = in_w, tc_out_r = out_r, tc_out_w = out_w,
                  tc_session = (hctx, h), tc_errCh = []\<rparr>
           in if length (tc_errCh t) < 2 then None
              else case tc_session t of (hctx, h) \<Rightarrow>
                (case OnDisconnect H h hctx of (e, hctx, h) \<Rightarrow>
                  Some (first_stream_error (tc_errCh t) None, tc_in_w t, tc_out_w t, h)))))"

text \<open>The socket options; the arguments are the results of the three socket calls.\<close>

definition configureTCPConn :: "tcp_Config \<Rightarrow> err option \<Rightarrow> err option \<Rightarrow> err option \<Rightarrow> err option" where
  "configureTCPConn c keepAlive keepAlivePeriod noDelay = (
     let r = (if tcp_TCPKeepAlive c > 0 then
                (case keepAlive of
                   Some e \<Rightarrow> Some (Wrapf ''failed to enable keepalive: '' e [])
                 | None \<Rightarrow> (case keepAlivePeriod of
                     Some e \<Rightarrow> Some (Wrapf ''failed to set keepalive period: '' e [])
                   | None \<Rightarrow> None))
              else None)
     in case r of
          Some e \<Rightarrow> Some e
        | None \<Rightarrow>
            (if \<not> tcp_DisableNoDelay c then
               (case noDelay of Some e \<Rightarrow> Some (Wrapf ''failed to set TCP_NODELAY: '' e []) | None \<Rightarrow> None)
             else None))"

text \<open>
  \<^verbatim>\<open>Listen\<close>: opening the listener, whose result is the argument \<open>listen\<close>, then the accept
  loop, the connection goroutines and the shutdown. \<open>ts_sem\<close> is the number of items in the
  semaphore channel, \<open>ts_accepting\<close> says that the accept loop holds a connection that has passed
  the semaphore and is not served yet, \<open>ts_active\<close> is the number of connections that are served
  and \<open>ts_leaving\<close> that of the goroutines that have given back their slot and not yet left the
  wait group: the deferred calls run in this order, so another connection may be served
  meanwhile.
\<close>

definition tcp_open :: "tcp_Config \<Rightarrow> err option \<Rightarrow> err option" where
  "tcp_open c listen = (case listen of
     Some e \<Rightarrow> Some (Wrapf (''failed to listen on '' @ tcp_Address c @ '': '') e [])
   | None \<Rightarrow> None)"

datatype tcp_phase = Serving | Closing | Draining | Forcing | Stopped "err option"

record tcp_sys =
  ts_config :: tcp_Config
  ts_cap :: "nat option"
  ts_sem :: nat
  ts_accepting :: bool
  ts_active :: nat
  ts_leaving :: nat
  ts_rejected :: nat
  ts_phase :: tcp_phase

definition sem_acquire :: "tcp_sys \<Rightarrow> tcp_sys option" where
  "sem_acquire s = (case ts_cap s of
     None \<Rightarrow> Some s
   | Some cap \<Rightarrow> if ts_sem s < cap then Some (s\<lparr>ts_sem := Suc (ts_sem s)\<rparr>) else None)"

definition sem_release :: "tcp_sys \<Rightarrow> tcp_sys" where
  "sem_release s = (case ts_cap s of None \<Rightarrow> s | Some cap \<Rightarrow> s\<lparr>ts_sem := ts_sem s - 1\<rparr>)"

inductive tcp_step :: "tcp_sys \<Rightarrow> tcp_sys \<Rightarrow> bool" where
  rejects: "ts_phase s \<in> {Serving, Closing} \<Longrightarrow> \<not> ts_accepting s \<Longrightarrow> sem_acquire s = None \<Longrightarrow>
     tcp_step s (s\<lparr>ts_rejected := Suc (ts_rejected s)\<rparr>)"
| takes_slot: "ts_phase s \<in> {Serving, Closing} \<Longrightarrow> \<not> ts_accepting s \<Longrightarrow> sem_acquire s = Some t \<Longrightarrow>
     tcp_step s (t\<lparr>ts_accepting := True\<rparr>)"
| misconfigured: "ts_accepting s \<Longrightarrow> \<not> tcp_TLSConfig (ts_config s) \<Longrightarrow> configureTCPConn (ts_config s) ka kp nd = Some e \<Longrightarrow>
     tcp_step s (sem_release (s\<lparr>ts_accepting := False\<rparr>))"
| accepts: "ts_accepting s \<Longrightarrow> tcp_TLSConfig (ts_config s) \<or> configureTCPConn (ts_config s) ka kp nd = None \<Longrightarrow>
     tcp_step s (s\<lparr>ts_accepting := False, ts_active := Suc (ts_active s)\<rparr>)"
| conn_done: "ts_active s = Suc n \<Longrightarrow> tcp_step s (sem_release (s\<lparr>ts_active := n, ts_leaving := Suc (ts_leaving s)\<rparr>))"
| wg_done: "ts_leaving s = Suc n \<Longrightarrow> tcp_step s (s\<lparr>ts_leaving := n\<rparr>)"
| ctx_cancelled: "ts_phase s = Serving \<Longrightarrow> tcp_step s (s\<lparr>ts_phase := Closing\<rparr>)"
| accept_done: "ts_phase s = Closing \<Longrightarrow> \<not> ts_accepting s \<Longrightarrow> tcp_step s (s\<lparr>ts_phase := Draining\<rparr>)"
| drained: "ts_phase s = Draining \<Longrightarrow> ts_active s = 0 \<Longrightarrow> ts_leaving s = 0 \<Longrightarrow> tcp_step s (s\<lparr>ts_phase := Stopped None\<rparr>)"
| timed_out: "ts_phase s = Draining \<Longrightarrow> tcp_step s (s\<lparr>ts_phase := Forcing\<rparr>)"
| forced: "ts_phase s = Forcing \<Longrightarrow> tcp_step s (s\<lparr>ts_phase := Stopped (Some ErrShutdownTimeout)\<rparr>)"

inductive_simps tcp_step_iff: "tcp_step s t"

definition tcp_init :: "tcp_sys \<Rightarrow> bool" where
  "tcp_init s \<longleftrightarrow> (\<exists>cfg. s = \<lparr>ts_config = fst (tcp_New cfg), ts_cap = snd (tcp_New cfg), ts_sem = 0, ts_accepting = False, ts_active = 0, ts_leaving = 0, ts_rejected = 0, ts_phase = Serving\<rparr>)"

definition tcp_inv :: "tcp_sys \<Rightarrow> bool" where
  [inv_defs]: "tcp_inv s \<longleftrightarrow> (case ts_cap s of None \<Rightarrow> True
     | Some cap \<Rightarrow> 0 < cap \<and> ts_sem s = ts_active s + (if ts_accepting s then 1 else 0) \<and> ts_sem s \<le> cap)
     \<and> (ts_accepting s \<longrightarrow> ts_phase s \<in> {Serving, Closing})
     \<and> (ts_phase s = Stopped None \<longrightarrow> ts_active s = 0 \<and> ts_leaving s = 0)"

text \<open>
  Whole streams as lists: a source that delivers the messages of a list and then ends, a
  destination that records what is written, and what a gate lets through.
\<close>

fun list_recv :: "'m list \<Rightarrow> (err + 'm) \<times> 'm list" where
  "list_recv [] = (Inl EOF, [])"
| "list_recv (m # ms) = (Inr m, ms)"

definition log_send :: "'m \<Rightarrow> 'm list \<Rightarrow> err option \<times> 'm list" where
  "log_send m w = (None, w @ [m])"

fun approved :: "('m \<Rightarrow> 's \<Rightarrow> err option) \<Rightarrow> ('m \<Rightarrow> 's \<Rightarrow> 'm) \<Rightarrow> ('m \<Rightarrow> 's \<Rightarrow> 's) \<Rightarrow> 'm list \<Rightarrow> 's \<Rightarrow> 'm list" where
  "approved verdict forwarded after [] s = []"
| "approved verdict forwarded after (m # ms) s = (if verdict m s = None
     then forwarded m s # approved verdict forwarded after ms (after m s) else [])"

fun refusal :: "('m \<Rightarrow> 's \<Rightarrow> err option) \<Rightarrow> ('m \<Rightarrow> 's \<Rightarrow> 's) \<Rightarrow> 'm list \<Rightarrow> 's \<Rightarrow> err" where
  "refusal verdict after [] s = EOF"
| "refusal verdict after (m # ms) s = (case verdict m s of
     None \<Rightarrow> refusal verdict after ms (after m s) | Some e \<Rightarrow> e)"

section \<open>One direction\<close>

context gatekeeper
begin

text \<open>Whatever a stream writes was approved message by message.\<close>

lemma stream_relays:
  "stream n env c parse r w s = Some (e, r', w', s') \<Longrightarrow>
   \<exists>ms r1 w1 s1. relayed recv send verdict forwarded after r w s ms r1 w1 s1
     \<and> ((w' = w1 \<and> s' = s1 \<and> (\<exists>v. round_guard c v = Some e))
        \<or> stream_end recv send verdict forwarded after r1 w1 s1 e w' s')"
proof (induction n arbitrary: env r w s)
  case 0
  then show ?case by simp
next
  case (Suc n)
  show ?case
  proof (cases "round_guard c (env 0)")
    case (Some e0)
    then have "round_guard c (env 0) = Some e" "w' = w" "s' = s" using Suc.prems by auto
    then show ?thesis using relayed_none [of recv send verdict forwarded after r w s] by blast
  next
    case None
    obtain e1 r1 w1 s1 where p: "parse r w s = (e1, r1, w1, s1)" by (cases "parse r w s")
    show ?thesis
    proof (cases e1)
      case (Some e2)
      then show ?thesis
        using parse_error_end [of r w s e2 r1 w1 s1] p None Suc.prems
          relayed_none [of recv send verdict forwarded after r w s] by auto
    next
      case ok: None
      from parse_ok_iff [of r w s] p ok obtain m where
        m: "recv r = (Inr m, r1)" "verdict m s = None" "send (forwarded m s) w = (None, w1)" "s1 = after m s"
        by auto
      from Suc.prems p ok None
      have "stream n (\<lambda>i. env (Suc i)) c parse r1 w1 (after m s) = Some (e, r', w', s')" by (simp add: m)
      from Suc.IH [OF this] show ?thesis using relayed_one [of recv r m r1 verdict s send forwarded w w1 after] m(1-3) by blast
    qed
  qed
qed

text \<open>The loop returns when the source can deliver only finitely many messages.\<close>

lemma stream_returns:
  assumes "\<And>r m r'. recv r = (Inr m, r') \<Longrightarrow> measure_of r' < (measure_of r :: nat)" and "measure_of r < n"
  shows "\<exists>res. stream n env c parse r w s = Some res"
  using assms(2)
proof (induction n arbitrary: env r w s)
  case (Suc n)
  obtain e1 r1 w1 s1 where p: "parse r w s = (e1, r1, w1, s1)" by (cases "parse r w s")
  show ?case
  proof (cases "round_guard c (env 0) = None \<and> e1 = None")
    case True
    then obtain m where "recv r = (Inr m, r1)" using parse_ok_iff [of r w s] p by auto
    then have "measure_of r1 < n" using assms(1) Suc.prems by fastforce
    then show ?thesis using Suc.IH True p by simp
  next
    case False
    then show ?thesis using p by (cases "round_guard c (env 0)"; cases e1) auto
  qed
qed simp

end

text \<open>Between lists the loop computes exactly the approved prefix.\<close>

locale list_gatekeeper = gatekeeper parse list_recv log_send verdict forwarded after
  for parse :: "'m list \<Rightarrow> 'm list \<Rightarrow> 's \<Rightarrow> err option \<times> 'm list \<times> 'm list \<times> 's"
    and verdict forwarded after
begin

lemma stream_exact:
  "length ms < n \<Longrightarrow> (\<And>i. round_guard c (env i) = None) \<Longrightarrow>
   \<exists>e r' s'. stream n env c parse ms w s = Some (e, r', w @ approved verdict forwarded after ms s, s')
     \<and> Is e = Is (refusal verdict after ms s)"
proof (induction ms arbitrary: n env w s)
  case Nil
  then obtain k where n: "n = Suc k" by (cases n) auto
  from on_recv_error [of "[]" EOF "[]" w s] Nil.prems(2) show ?case by (auto simp: n)
next
  case (Cons m ms)
  then obtain k where n: "n = Suc k" and k: "length ms < k" by (cases n) auto
  show ?case
  proof (cases "verdict m s")
    case None
    then have "parse (m # ms) w s = (None, ms, w @ [forwarded m s], after m s)"
      using on_allowed [of "m # ms" m ms s w] by (simp add: log_send_def)
    moreover obtain e r' s' where "stream k (\<lambda>i. env (Suc i)) c parse ms (w @ [forwarded m s]) (after m s)
        = Some (e, r', (w @ [forwarded m s]) @ approved verdict forwarded after ms (after m s), s')"
      "Is e = Is (refusal verdict after ms (after m s))"
      using Cons.IH [OF k Cons.prems(2)] by blast
    ultimately show ?thesis using None Cons.prems(2) by (simp add: n)
  next
    case (Some e)
    then show ?thesis using on_denied [of "m # ms" m ms s e w] Cons.prems(2) by (auto simp: n)
  qed
qed

end

interpretation mqtt_lists: list_gatekeeper "mqtt_Parse list_recv log_send dir H"
    "mqtt_verdict dir H" "mqtt_forwarded dir H" "mqtt_after dir H"
  for dir H ..

section \<open>One connection\<close>

lemma conn_round_errCh:
  "\<exists>es. tc_errCh (conn_round parse c dv t) = tc_errCh t @ es \<and> map fst es = (if es = [] then [] else [fst dv])
     \<and> (fst dv \<in> fst ` set (tc_errCh t) \<longrightarrow> conn_round parse c dv t = t)"
  by (cases dv) (auto simp: conn_round_def Let_def split: option.splits prod.splits)

lemma conn_run_distinct: "distinct (map fst (tc_errCh t)) \<Longrightarrow> distinct (map fst (tc_errCh (conn_run parse c sched t)))"
proof (induction sched arbitrary: t)
  case (Cons dv sched)
  obtain es where "tc_errCh (conn_round parse c dv t) = tc_errCh t @ es" "map fst es = (if es = [] then [] else [fst dv])"
    "fst dv \<in> fst ` set (tc_errCh t) \<longrightarrow> conn_round parse c dv t = t"
    using conn_round_errCh [of parse c dv t] by blast
  then have "distinct (map fst (tc_errCh (conn_round parse c dv t)))" using Cons.prems by (cases "es = []") auto
  from Cons.IH [OF this] show ?case by (simp add: conn_run_def)
qed (simp add: conn_run_def)

lemma first_stream_error_kept: "first_stream_error es (Some x) = Some x"
  by (induction es) auto

lemma first_stream_error_find:
  "first_stream_error es None = map_option snd (find (\<lambda>(d, x). \<not> Is x EOF) es)"
  by (induction es) (auto simp: first_stream_error_kept)

section \<open>The accept loop\<close>

lemma tcp_inv_step: "tcp_step s t \<Longrightarrow> tcp_inv s \<Longrightarrow> tcp_inv t"
proof (induction rule: tcp_step.induct)
  case (takes_slot s t)
  then show ?case by (cases "ts_cap s") (auto simp: tcp_inv_def sem_acquire_def split: if_splits)
next
  case (misconfigured s ka kp nd e)
  then show ?case by (cases "ts_cap s") (auto simp: tcp_inv_def sem_release_def)
next
  case (accepts s ka kp nd)
  then show ?case by (cases "ts_cap s") (auto simp: tcp_inv_def)
next
  case (conn_done s n)
  then show ?case by (cases "ts_cap s") (auto simp: tcp_inv_def sem_release_def)
qed (auto simp: tcp_inv_def split: option.splits)

lemma tcp_New_cap: "snd (tcp_New cfg) = (if tcp_MaxConnections cfg > 0 then Some (nat (tcp_MaxConnections cfg)) else None)"
  by (simp add: tcp_New_def Let_def)

interpretation tcp_machine: inv_system tcp_init tcp_step tcp_inv
proof
  show "tcp_init s \<Longrightarrow> tcp_inv s" for s
    by (auto simp: tcp_init_def tcp_inv_def tcp_New_cap)
  show "tcp_inv s \<Longrightarrow> tcp_step s t \<Longrightarrow> tcp_inv t" for s t
    by (rule tcp_inv_step)
qed

text \<open>Once the accept loop has ended every step leads nearer to the end.\<close>

fun tcp_phases_left :: "tcp_phase \<Rightarrow> nat" where
  "tcp_phases_left Draining = 2"
| "tcp_phases_left Forcing = 1"
| "tcp_phases_left _ = 0"

definition tcp_left :: "tcp_sys \<Rightarrow> nat" where
  "tcp_left s = tcp_phases_left (ts_phase s) + 2 * ts_active s + ts_leaving s"

lemma sem_release_simps [simp]: "ts_phase (sem_release s) = ts_phase s" "ts_active (sem_release s) = ts_active s"
  "ts_leaving (sem_release s) = ts_leaving s" "ts_accepting (sem_release s) = ts_accepting s"
  by (simp_all add: sem_release_def split: option.splits)

interpretation tcp_exit: winding_down tcp_step "\<lambda>s. ts_phase s \<notin> {Serving, Closing} \<and> \<not> ts_accepting s"
    "\<lambda>s. (\<exists>e. ts_phase s = Stopped e) \<and> ts_active s = 0 \<and> ts_leaving s = 0" tcp_left
proof (unfold_locales, goal_cases)
  case (1 s t)
  from 1(2,1) show ?case by (induction rule: tcp_step.induct) (auto simp: tcp_left_def)
next
  case (2 s)
  show ?case
  proof (cases "ts_active s + ts_leaving s")
    case 0
    with 2 show ?thesis by (cases "ts_phase s") (auto intro: tcp_step.intros)
  next
    case Suc
    then have "(\<exists>n. ts_active s = Suc n) \<or> (\<exists>n. ts_leaving s = Suc n)" by (cases "ts_active s") auto
    then show ?thesis by (blast intro: tcp_step.conn_done tcp_step.wg_done)
  qed
qed

text \<open>The two values \<^verbatim>\<open>Listen\<close> returns.\<close>

definition tcp_results :: "tcp_sys \<Rightarrow> bool" where
  [inv_defs]: "tcp_results s \<longleftrightarrow> (\<forall>e. ts_phase s = Stopped e \<longrightarrow> e \<in> {None, Some ErrShutdownTimeout})"

interpretation tcp_outcome: inv_system tcp_init tcp_step tcp_results
proof
  show "tcp_init s \<Longrightarrow> tcp_results s" for s by (auto simp: tcp_init_def tcp_results_def)
  show "tcp_results s \<Longrightarrow> tcp_step s t \<Longrightarrow> tcp_results t" for s t
    by (auto simp: tcp_step_iff tcp_results_def sem_acquire_def split: option.splits if_splits)
qed

lemma relpowp_reach: "(step ^^ n) s t \<Longrightarrow> reach init step s \<Longrightarrow> reach init step t"
  by (meson reach_star relpowp_imp_rtranclp)

section \<open>Properties\<close>

lemma round_guard_quiet [simp]: "round_guard c quiet = None"
  by (simp add: round_guard_def quiet_def)

definition pub :: "string \<Rightarrow> nat ControlPacket" where
  "pub t = PUBLISH \<lparr>pp_TopicName = t, pp_Payload = [], pp_rest = 0\<rparr>"

text \<open>A handler that refuses publishing to one topic.\<close>

definition forbids :: "string \<Rightarrow> (unit, unit) Handler" where
  "forbids topic = NoopHandler\<lparr>AuthPublish := (\<lambda>h hctx t p.
     (if t = topic then Some ErrUnauthorized else None, hctx, t, p, h))\<rparr>"

definition sample_tcp :: tcp_Config where
  "sample_tcp = \<lparr>tcp_Address = [], tcp_TargetAddress = [], tcp_TLSConfig = False, tcp_ShutdownTimeout = 0,
     tcp_MaxConnections = 1, tcp_ReadTimeout = 0, tcp_WriteTimeout = 0, tcp_IdleTimeout = 0, tcp_BufferSize = 0,
     tcp_TCPKeepAlive = 0, tcp_DisableNoDelay = False\<rparr>"





text \<open>C19 (invariant). The accept loop never serves more than \<open>MaxConnections\<close> connections at a
  time when a limit is set, under every interleaving of accepts, failures and ends of
  connections, and the semaphore is held exactly by those that are served and the one that is
  about to be; \<^verbatim>\<open>Listen\<close> returns nil only when no connection and none of their goroutines is left.\<close>

theorem tcp_connection_limit:
  assumes "reach tcp_init tcp_step s"
  shows "(\<forall>cap. ts_cap s = Some cap \<longrightarrow> ts_active s \<le> cap \<and> ts_sem s = ts_active s + (if ts_accepting s then 1 else 0))
    \<and> (ts_phase s = Stopped None \<longrightarrow> ts_active s = 0 \<and> ts_leaving s = 0)"
  using tcp_machine.reach_inv [OF assms] by (auto simp: tcp_inv_def)

text \<open>A server for one connection that serves one and has rejected another.\<close>

definition tcp_sample :: "nat \<Rightarrow> bool \<Rightarrow> nat \<Rightarrow> nat \<Rightarrow> tcp_phase \<Rightarrow> tcp_sys" where
  "tcp_sample sem accepting active rejected ph = \<lparr>ts_config = fst (tcp_New sample_tcp), ts_cap = Some 1, ts_sem = sem,
     ts_accepting = accepting, ts_active = active, ts_leaving = 0, ts_rejected = rejected, ts_phase = ph\<rparr>"

lemma tcp_sample_init: "reach tcp_init tcp_step (tcp_sample 0 False 0 0 Serving)"
  by (rule reach_init) (auto simp: tcp_sample_def tcp_init_def tcp_New_def sample_tcp_def Let_def intro!: exI [of _ sample_tcp])

theorem tcp_connection_limit_witness:
  "reach tcp_init tcp_step (tcp_sample 1 False 1 1 Serving) \<and> ts_active (tcp_sample 1 False 1 1 Serving) \<le> 1"
proof -
  have s1: "tcp_step (tcp_sample 0 False 0 0 Serving) (tcp_sample 1 True 0 0 Serving)"
    using tcp_step.takes_slot [of "tcp_sample 0 False 0 0 Serving" "tcp_sample 1 False 0 0 Serving"]
    by (simp add: sem_acquire_def tcp_sample_def)
  have s2: "tcp_step (tcp_sample 1 True 0 0 Serving) (tcp_sample 1 False 1 0 Serving)"
    using tcp_step.accepts [of "tcp_sample 1 True 0 0 Serving" None None None] by (simp add: configureTCPConn_def tcp_sample_def)
  have s3: "tcp_step (tcp_sample 1 False 1 0 Serving) (tcp_sample 1 False 1 1 Serving)"
    using tcp_step.rejects [of "tcp_sample 1 False 1 0 Serving"] by (simp add: sem_acquire_def tcp_sample_def)
  have r: "reach tcp_init tcp_step (tcp_sample 1 False 1 1 Serving)"
    using reach_step [OF reach_step [OF reach_step [OF tcp_sample_init s1] s2] s3] .
  then show ?thesis using tcp_connection_limit [OF r] by (simp add: tcp_sample_def)
qed


lemma no_tcp_step: "ts_phase s = Stopped e \<Longrightarrow> \<not> ts_accepting s \<Longrightarrow> ts_active s = 0 \<Longrightarrow> ts_leaving s = 0 \<Longrightarrow> \<not> tcp_step s t"
  by (auto simp: tcp_step_iff)


text \<open>\<^verbatim>\<open>handleConn\<close> returns only when both directions have ended, and returns
  the error of the direction that first ended with anything but the end of the input, or nil
  when both ended that way.\<close>

lemma handleConn_waits_for_both:
  assumes "handleConn parse c H sid remote None None sched in_r in_w out_r out_w h = Some (e, in_w', out_w', h')"
  shows "let t = conn_run (\<lambda>dir. parse dir H) c sched \<lparr>tc_in_r = in_r, tc_in_w = in_w, tc_out_r = out_r, tc_out_w = out_w,
             tc_session = (zero_Context\<lparr>SessionID := sid, RemoteAddr := remote, Protocol := ''tcp''\<rparr>, h), tc_errCh = []\<rparr>
    in set (map fst (tc_errCh t)) = {Upstream, Downstream} \<and> length (tc_errCh t) = 2
       \<and> e = map_option snd (find (\<lambda>(d, x). \<not> Is x EOF) (tc_errCh t))"
proof -
  define t where "t = conn_run (\<lambda>dir. parse dir H) c sched \<lparr>tc_in_r = in_r, tc_in_w = in_w, tc_out_r = out_r, tc_out_w = out_w,
    tc_session = (zero_Context\<lparr>SessionID := sid, RemoteAddr := remote, Protocol := ''tcp''\<rparr>, h), tc_errCh = []\<rparr>"
  have two: "\<not> length (tc_errCh t) < 2" and e: "e = first_stream_error (tc_errCh t) None"
    using assms by (auto simp: handleConn_def t_def [symmetric] Let_def split: if_splits prod.splits)
  have d: "distinct (map fst (tc_errCh t))" unfolding t_def by (rule conn_run_distinct) simp
  have sub: "set (map fst (tc_errCh t)) \<subseteq> {Upstream, Downstream}" using Direction.exhaust by auto
  have c2: "card {Upstream, Downstream} = 2" by simp
  from distinct_card [OF d] card_mono [OF _ sub] two c2 have l: "length (tc_errCh t) = 2" by simp
  then have "card (set (map fst (tc_errCh t))) = card {Upstream, Downstream}" using distinct_card [OF d] c2 by simp
  from card_subset_eq [OF _ sub this] have "set (map fst (tc_errCh t)) = {Upstream, Downstream}" by simp
  then show ?thesis using l e first_stream_error_find [of "tc_errCh t"] by (simp add: t_def Let_def)
qed

theorem handleConn_waits_for_both_witness:
  "let t = conn_run (\<lambda>dir. mqtt_Parse list_recv log_send dir (forbids ''x'')) sample_tcp
         [(Upstream, quiet), (Downstream, quiet)]
         \<lparr>tc_in_r = [pub ''x''], tc_in_w = [], tc_out_r = [], tc_out_w = [],
          tc_session = (zero_Context\<lparr>SessionID := ''s'', RemoteAddr := ''r'', Protocol := ''tcp''\<rparr>, ()), tc_errCh = []\<rparr>
   in set (map fst (tc_errCh t)) = {Upstream, Downstream}"
proof -
  have "handleConn (mqtt_Parse list_recv log_send) sample_tcp (forbids ''x'') ''s'' ''r'' None None
      [(Upstream, quiet), (Downstream, quiet)] [pub ''x''] [] [] [] ()
    = Some (Some (Wrapf ''publish authorization failed: '' ErrUnauthorized []), [], [], ())"
    by (simp add: handleConn_def conn_run_def conn_round_def pub_def forbids_def NoopHandler_def mqtt_Parse_def
        mqtt_handle_def mqtt_handlers EOF_def ErrUnauthorized_def)
  from handleConn_waits_for_both [OF this] show ?thesis by (simp add: Let_def)
qed

text \<open>A backend that sends packets the parser passes on unseen.\<close>

lemma downstream_rounds:
  "Downstream \<notin> fst ` set (tc_errCh t) \<Longrightarrow> tc_out_r t = map OtherPacket xs \<Longrightarrow>
   conn_run (\<lambda>dir. mqtt_Parse list_recv log_send dir H) c (replicate (length xs) (Downstream, quiet)) t
   = t\<lparr>tc_out_r := [], tc_in_w := tc_in_w t @ map OtherPacket xs\<rparr>"
proof (induction xs arbitrary: t)
  case (Cons x xs)
  let ?t = "t\<lparr>tc_out_r := map OtherPacket xs, tc_in_w := tc_in_w t @ [OtherPacket x]\<rparr>"
  have "conn_round (\<lambda>dir. mqtt_Parse list_recv log_send dir H) c (Downstream, quiet) t = ?t"
    using Cons.prems by (simp add: conn_round_def mqtt_Parse_def mqtt_handle_def log_send_def)
  then show ?case using Cons.IH [of ?t] Cons.prems(1) by (simp add: conn_run_def)
qed (simp add: conn_run_def)

text \<open>A client whose packet is refused keeps being served: the refusal ends only its
  own direction, the connections stay open, and every packet the backend sends afterwards
  is still delivered to the client while \<^verbatim>\<open>handleConn\<close> has not returned.\<close>

lemma refused_client_still_served:
  "let sched = (Upstream, quiet) # replicate (length xs) (Downstream, quiet);
       t = conn_run (\<lambda>dir. mqtt_Parse list_recv log_send dir (forbids ''x'')) c sched
         \<lparr>tc_in_r = [pub ''x''], tc_in_w = [], tc_out_r = map OtherPacket xs, tc_out_w = [],
          tc_session = (hctx, ()), tc_errCh = []\<rparr>
   in map fst (tc_errCh t) = [Upstream] \<and> Is (snd (tc_errCh t ! 0)) ErrUnauthorized
      \<and> tc_out_w t = [] \<and> tc_in_w t = map OtherPacket xs
      \<and> handleConn (mqtt_Parse list_recv log_send) c (forbids ''x'') sid remote None None sched
          [pub ''x''] [] (map OtherPacket xs) [] () = None"
proof -
  let ?p = "\<lambda>dir. mqtt_Parse list_recv log_send dir (forbids ''x'')"
  have up: "conn_round ?p c (Upstream, quiet)
      \<lparr>tc_in_r = [pub ''x''], tc_in_w = [], tc_out_r = ys, tc_out_w = [], tc_session = (ctx, ()), tc_errCh = []\<rparr>
    = \<lparr>tc_in_r = [], tc_in_w = [], tc_out_r = ys, tc_out_w = [], tc_session = (ctx, ()),
       tc_errCh = [(Upstream, Wrapf ''publish authorization failed: '' ErrUnauthorized [])]\<rparr>" for ys ctx
    by (simp add: conn_round_def pub_def forbids_def NoopHandler_def mqtt_Parse_def mqtt_handle_def mqtt_handlers)
  have all: "conn_run ?p c ((Upstream, quiet) # replicate (length xs) (Downstream, quiet))
      \<lparr>tc_in_r = [pub ''x''], tc_in_w = [], tc_out_r = map OtherPacket xs, tc_out_w = [], tc_session = (ctx, ()), tc_errCh = []\<rparr>
    = \<lparr>tc_in_r = [], tc_in_w = map OtherPacket xs, tc_out_r = [], tc_out_w = [], tc_session = (ctx, ()),
       tc_errCh = [(Upstream, Wrapf ''publish authorization failed: '' ErrUnauthorized [])]\<rparr>" for ctx
    unfolding conn_run_def fold.simps comp_apply up
    by (subst downstream_rounds [unfolded conn_run_def]) simp_all
  show ?thesis by (simp only: Let_def handleConn_def all) (simp add: ErrUnauthorized_def)
qed

text \<open>An MQTT client that says goodbye is reported twice: its DISCONNECT packet makes
  the parser call \<^verbatim>\<open>OnDisconnect\<close>, and \<^verbatim>\<open>handleConn\<close> calls it again when both
  directions have ended.\<close>

lemma disconnect_reported_twice:
  "handleConn (mqtt_Parse list_recv log_send) c (logged NoopHandler) sid remote None None
     [(Upstream, quiet), (Upstream, quiet), (Downstream, quiet)] [DISCONNECT x] [] [] [] ([], h)
   = Some (None, [], [DISCONNECT x], [''OnDisconnect'', ''OnDisconnect''], h)"
  by (simp add: handleConn_def conn_run_def conn_round_def mqtt_Parse_def mqtt_handle_def mqtt_handlers
      handler_simps log_send_def EOF_def)

end
