(* ===== verification/ProdHandlers.thy ===== *)
theory ProdHandlers
  imports Metrics Ratelimit TcpServer
begin

text \<open>
  The handlers of the production server (\<^verbatim>\<open>src/cmd/production/handlers.go\<close>): the rate
  limiting one around an arbitrary handler and the instrumented one around that. They share
  the metrics, the clock and the limiters, so their state is one record with the state of
  the innermost handler. \<open>pd_clock\<close> is the sequence of clock readings still to come. Shown:
  the rate bounds of the limiters hold for the connections the whole stack admits, the
  wrappers are transparent otherwise, every metric operation fits its vector, and the
  gauge of active connections drifts.
\<close>

section \<open>Definitions\<close>

record 'h pstate =
  pd_inner :: 'h
  pd_global :: TokenBucket
  pd_perClient :: Limiter
  pd_metrics :: metrics
  pd_clock :: "nat \<Rightarrow> time"

definition tick :: "'h pstate \<Rightarrow> time \<times> 'h pstate" where
  "tick s = (pd_clock s 0, s\<lparr>pd_clock := (\<lambda>i. pd_clock s (Suc i))\<rparr>)"

definition emit :: "metric_op \<Rightarrow> 'h pstate \<Rightarrow> 'h pstate" where
  "emit m s = s\<lparr>pd_metrics := pd_metrics s @ [m]\<rparr>"

subsection \<open>Rate limiting\<close>

definition rate_client :: "'c Context \<Rightarrow> string" where
  "rate_client hctx = (if ClientID hctx \<noteq> [] then ClientID hctx else RemoteAddr hctx)"

text \<open>
  The limiter reads the clock when it makes a bucket and at the refill; for a client it
  knows, the first of the two readings is skipped.
\<close>

definition rl_AuthConnect :: "(rat \<Rightarrow> int) \<Rightarrow> ('h, 'c) Handler \<Rightarrow> ('h pstate, 'c) notify" where
  "rl_AuthConnect ov b s hctx = (
     let (now, s) = tick s;
         (ok, tb) = bucket_Allow ov now (pd_global s);
         s = s\<lparr>pd_global := tb\<rparr>
     in if \<not> ok then (Some ErrRateLimitExceeded, hctx, emit (Inc ''RateLimitedRequests'' [Protocol hctx, ''global'']) s)
        else let (t0, s) = tick s; (t1, s) = tick s;
                 (ok, l) = limiter_Allow ov (rate_client hctx) t0 t1 (pd_perClient s);
                 s = s\<lparr>pd_perClient := l\<rparr>
             in if \<not> ok then (Some ErrRateLimitExceeded, hctx, emit (Inc ''RateLimitedRequests'' [Protocol hctx, ''per_client'']) s)
                else case AuthConnect b (pd_inner s) hctx of (e, hctx, i) \<Rightarrow> (e, hctx, s\<lparr>pd_inner := i\<rparr>))"

definition pass_notify :: "('h, 'c) notify \<Rightarrow> ('h pstate, 'c) notify" where
  "pass_notify f s hctx = (case f (pd_inner s) hctx of (e, hctx, i) \<Rightarrow> (e, hctx, s\<lparr>pd_inner := i\<rparr>))"

definition RateLimitedHandler :: "(rat \<Rightarrow> int) \<Rightarrow> ('h, 'c) Handler \<Rightarrow> ('h pstate, 'c) Handler" where
  "RateLimitedHandler ov b = \<lparr>
     AuthConnect = rl_AuthConnect ov b,
     AuthPublish = (\<lambda>s hctx topic payload. case AuthPublish b (pd_inner s) hctx topic payload of
       (e, hctx, topic, payload, i) \<Rightarrow> (e, hctx, topic, payload, s\<lparr>pd_inner := i\<rparr>)),
     AuthSubscribe = (\<lambda>s hctx topics. case AuthSubscribe b (pd_inner s) hctx topics of
       (e, hctx, topics, i) \<Rightarrow> (e, hctx, topics, s\<lparr>pd_inner := i\<rparr>)),
     OnConnect = pass_notify (OnConnect b),
     OnPublish = (\<lambda>s hctx topic payload. pass_notify (\<lambda>i hctx. OnPublish b i hctx topic payload) s hctx),
     OnSubscribe = (\<lambda>s hctx topics. pass_notify (\<lambda>i hctx. OnSubscribe b i hctx topics) s hctx),
     OnUnsubscribe = (\<lambda>s hctx topics. pass_notify (\<lambda>i hctx. OnUnsubscribe b i hctx topics) s hctx),
     OnDisconnect = pass_notify (OnDisconnect b)\<rparr>"

subsection \<open>Instrumentation\<close>

text \<open>
  What surrounds an authorisation: the attempt is counted before, a failure, the duration
  and, except for connections, the total after. The label of the protocol is read from the
  context each time.
\<close>

definition in_AuthConnect :: "('h pstate, 'c) Handler \<Rightarrow> ('h pstate, 'c) notify" where
  "in_AuthConnect b s hctx = (
     let (start, s) = tick s;
         s = emit (Inc ''AuthAttempts'' [Protocol hctx, ''connect'']) s
     in case AuthConnect b s hctx of (e, hctx, s) \<Rightarrow>
        (let s = (if e \<noteq> None then emit (Inc ''AuthFailures'' [Protocol hctx, ''connect'', ''unauthorized'']) s else s);
             (now, s) = tick s;
             s = emit (ObserveVal ''RequestDuration'' [Protocol hctx, ''connect''] (Seconds (time_sub now start))) s
         in (e, hctx, s)))"

definition in_AuthPublish :: "('h pstate, 'c) Handler \<Rightarrow> 'h pstate \<Rightarrow> 'c Context \<Rightarrow> string \<Rightarrow> bytes
    \<Rightarrow> err option \<times> 'c Context \<times> string \<times> bytes \<times> 'h pstate" where
  "in_AuthPublish b s hctx topic payload = (
     let (start, s) = tick s;
         s = emit (Inc ''AuthAttempts'' [Protocol hctx, ''publish'']) s;
         s = emit (ObserveVal ''RequestSize'' [Protocol hctx] (fl64 (of_nat (length payload)))) s
     in case AuthPublish b s hctx topic payload of (e, hctx, topic, payload, s) \<Rightarrow>
        (let s = (if e \<noteq> None then emit (Inc ''AuthFailures'' [Protocol hctx, ''publish'', ''unauthorized'']) s else s);
             (now, s) = tick s;
             s = emit (ObserveVal ''RequestDuration'' [Protocol hctx, ''publish''] (Seconds (time_sub now start))) s;
             status = (if e \<noteq> None then ''error'' else ''success'');
             s = emit (Inc ''RequestsTotal'' [Protocol hctx, ''publish'', status]) s
         in (e, hctx, topic, payload, s)))"

definition in_AuthSubscribe :: "('h pstate, 'c) Handler \<Rightarrow> 'h pstate \<Rightarrow> 'c Context \<Rightarrow> string list
    \<Rightarrow> err option \<times> 'c Context \<times> string list \<times> 'h pstate" where
  "in_AuthSubscribe b s hctx topics = (
     let (start, s) = tick s;
         s = emit (Inc ''AuthAttempts'' [Protocol hctx, ''subscribe'']) s
     in case AuthSubscribe b s hctx topics of (e, hctx, topics, s) \<Rightarrow>
        (let s = (if e \<noteq> None then emit (Inc ''AuthFailures'' [Protocol hctx, ''subscribe'', ''unauthorized'']) s else s);
             (now, s) = tick s;
             s = emit (ObserveVal ''RequestDuration'' [Protocol hctx, ''subscribe''] (Seconds (time_sub now start))) s;
             status = (if e \<noteq> None then ''error'' else ''success'');
             s = emit (Inc ''RequestsTotal'' [Protocol hctx, ''subscribe'', status]) s
         in (e, hctx, topics, s)))"

definition in_OnConnect :: "('h pstate, 'c) Handler \<Rightarrow> ('h pstate, 'c) notify" where
  "in_OnConnect b s hctx = (
     let s = emit (Inc ''ActiveConnections'' [Protocol hctx, ''client'']) s;
         s = emit (Inc ''TotalConnections'' [Protocol hctx, ''client'', ''accepted'']) s
     in OnConnect b s hctx)"

definition count_mqtt :: "string \<Rightarrow> 'c Context \<Rightarrow> 'h pstate \<Rightarrow> 'h pstate" where
  "count_mqtt packet hctx s = (if Protocol hctx = ''mqtt'' then emit (Inc ''MQTTPackets'' [packet, ''upstream'']) s else s)"

definition in_OnDisconnect :: "('h pstate, 'c) Handler \<Rightarrow> ('h pstate, 'c) notify" where
  "in_OnDisconnect b s hctx = OnDisconnect b (emit (Dec ''ActiveConnections'' [Protocol hctx, ''client'']) s) hctx"

definition InstrumentedHandler :: "('h pstate, 'c) Handler \<Rightarrow> ('h pstate, 'c) Handler" where
  "InstrumentedHandler b = \<lparr>
     AuthConnect = in_AuthConnect b,
     AuthPublish = in_AuthPublish b,
     AuthSubscribe = in_AuthSubscribe b,
     OnConnect = in_OnConnect b,
     OnPublish = (\<lambda>s hctx topic payload. OnPublish b (count_mqtt ''publish'' hctx s) hctx topic payload),
     OnSubscribe = (\<lambda>s hctx topics. OnSubscribe b (count_mqtt ''subscribe'' hctx s) hctx topics),
     OnUnsubscribe = (\<lambda>s hctx topics. OnUnsubscribe b (count_mqtt ''unsubscribe'' hctx s) hctx topics),
     OnDisconnect = in_OnDisconnect b\<rparr>"

text \<open>The stack the production server uses.\<close>

definition production :: "(rat \<Rightarrow> int) \<Rightarrow> ('h, 'c) Handler \<Rightarrow> ('h pstate, 'c) Handler" where
  "production ov b = InstrumentedHandler (RateLimitedHandler ov b)"

lemmas prod_simps = production_def InstrumentedHandler_def RateLimitedHandler_def in_AuthConnect_def in_AuthPublish_def
  in_AuthSubscribe_def in_OnConnect_def in_OnDisconnect_def rl_AuthConnect_def pass_notify_def count_mqtt_def tick_def emit_def

section \<open>Connections\<close>

text \<open>Instrumentation changes neither the answer nor the limiters nor the inner state.\<close>

lemma in_AuthConnect_same:
  "\<exists>ms. (case in_AuthConnect b s hctx of (e, hctx', s') \<Rightarrow> (e, hctx', pd_global s', pd_perClient s', pd_inner s'))
    = (case AuthConnect b (s\<lparr>pd_clock := (\<lambda>i. pd_clock s (Suc i)), pd_metrics := ms\<rparr>) hctx of
         (e, hctx', s') \<Rightarrow> (e, hctx', pd_global s', pd_perClient s', pd_inner s'))"
  by (rule exI [of _ "pd_metrics s @ [Inc ''AuthAttempts'' [Protocol hctx, ''connect'']]"])
    (auto simp: in_AuthConnect_def tick_def emit_def Let_def split: prod.splits)

lemma rl_refused_globally:
  "bucket_Allow ov (pd_clock s 0) (pd_global s) = (False, tb) \<Longrightarrow>
   \<exists>s'. rl_AuthConnect ov b s hctx = (Some ErrRateLimitExceeded, hctx, s')
     \<and> pd_global s' = tb \<and> pd_perClient s' = pd_perClient s \<and> pd_inner s' = pd_inner s"
  by (simp add: rl_AuthConnect_def tick_def emit_def Let_def)

lemma rl_refused_client:
  "bucket_Allow ov (pd_clock s 0) (pd_global s) = (True, tb) \<Longrightarrow>
   limiter_Allow ov (rate_client hctx) (pd_clock s 1) (pd_clock s 2) (pd_perClient s) = (False, l) \<Longrightarrow>
   \<exists>s'. rl_AuthConnect ov b s hctx = (Some ErrRateLimitExceeded, hctx, s')
     \<and> pd_global s' = tb \<and> pd_perClient s' = l \<and> pd_inner s' = pd_inner s"
  by (simp add: rl_AuthConnect_def tick_def emit_def Let_def eval_nat_numeral)

lemma rl_passed:
  "bucket_Allow ov (pd_clock s 0) (pd_global s) = (True, tb) \<Longrightarrow>
   limiter_Allow ov (rate_client hctx) (pd_clock s 1) (pd_clock s 2) (pd_perClient s) = (True, l) \<Longrightarrow>
   AuthConnect b (pd_inner s) hctx = (e, hctx', i) \<Longrightarrow>
   \<exists>s'. rl_AuthConnect ov b s hctx = (e, hctx', s')
     \<and> pd_global s' = tb \<and> pd_perClient s' = l \<and> pd_inner s' = i"
  by (simp add: rl_AuthConnect_def tick_def emit_def Let_def eval_nat_numeral)

text \<open>
  What one attempt does to the whole stack; the clock readings are the start, that of the
  global bucket, the two of the limiter, and the end.
\<close>

lemma production_AuthConnect:
  assumes "bucket_Allow ov (clk 1) (pd_global s) = (g, tb)"
    and "limiter_Allow ov (rate_client hctx) (clk 2) (clk 3) (pd_perClient s) = (ok, l)"
    and "AuthConnect (production ov b) (s\<lparr>pd_clock := clk\<rparr>) hctx = (e, hctx', s')"
  shows "pd_global s' = tb \<and> pd_perClient s' = (if g then l else pd_perClient s)
    \<and> (if g \<and> ok then (e, hctx', pd_inner s') = AuthConnect b (pd_inner s) hctx
       else e = Some ErrRateLimitExceeded \<and> hctx' = hctx \<and> pd_inner s' = pd_inner s)"
proof -
  obtain ms where same: "(e, hctx', pd_global s', pd_perClient s', pd_inner s')
    = (case rl_AuthConnect ov b (s\<lparr>pd_clock := (\<lambda>i. clk (Suc i)), pd_metrics := ms\<rparr>) hctx of
         (e, hctx', s') \<Rightarrow> (e, hctx', pd_global s', pd_perClient s', pd_inner s'))"
    using in_AuthConnect_same [of "RateLimitedHandler ov b" "s\<lparr>pd_clock := clk\<rparr>" hctx] assms(3)
    by (auto simp: production_def InstrumentedHandler_def RateLimitedHandler_def)
  let ?s = "s\<lparr>pd_clock := (\<lambda>i. clk (Suc i)), pd_metrics := ms\<rparr>"
  have G: "bucket_Allow ov (pd_clock ?s 0) (pd_global ?s) = (g, tb)"
    and L: "limiter_Allow ov (rate_client hctx) (pd_clock ?s 1) (pd_clock ?s 2) (pd_perClient ?s) = (ok, l)"
    using assms(1,2) by (simp_all add: eval_nat_numeral)
  show ?thesis
  proof (cases g)
    case False
    then show ?thesis using rl_refused_globally [of ov ?s tb b hctx] G same by auto
  next
    case g: True
    show ?thesis
    proof (cases ok)
      case False
      then show ?thesis using rl_refused_client [of ov ?s tb hctx l b] G L g same by auto
    next
      case True
      then show ?thesis using rl_passed [of ov ?s tb hctx l b] G L g same
        by (cases "AuthConnect b (pd_inner s) hctx") auto
    qed
  qed
qed

definition connect_ask :: "(rat \<Rightarrow> int) \<Rightarrow> ('h, 'c) Handler \<Rightarrow> 'c Context \<times> (nat \<Rightarrow> time) \<Rightarrow> 'h pstate \<Rightarrow> int \<times> 'h pstate" where
  "connect_ask ov b q s = (case AuthConnect (production ov b) (s\<lparr>pd_clock := snd q\<rparr>) (fst q) of
     (e, hctx, s') \<Rightarrow> (if e = None then 1 else 0, s'))"

definition client_connect_ask :: "(rat \<Rightarrow> int) \<Rightarrow> ('h, 'c) Handler \<Rightarrow> string \<Rightarrow> 'c Context \<times> (nat \<Rightarrow> time) \<Rightarrow> 'h pstate \<Rightarrow> int \<times> 'h pstate" where
  "client_connect_ask ov b c q s = (case AuthConnect (production ov b) (s\<lparr>pd_clock := snd q\<rparr>) (fst q) of
     (e, hctx, s') \<Rightarrow> (if e = None \<and> rate_client (fst q) = c then 1 else 0, s'))"

text \<open>The three outcomes of an attempt, as seen by the gates of the limiters.\<close>

lemma attempt_cases:
  obtains g tb ok l e hctx' s' where "bucket_AllowN ov (snd q 1) 1 (pd_global s) = (g, tb)"
    "limiter_AllowN ov (rate_client (fst q)) 1 (snd q 2) (snd q 3) (pd_perClient s) = (ok, l)"
    "AuthConnect (production ov b) (s\<lparr>pd_clock := snd q\<rparr>) (fst q) = (e, hctx', s')"
    "pd_global s' = tb" "pd_perClient s' = (if g then l else pd_perClient s)" "e = None \<longrightarrow> g \<and> ok"
proof -
  obtain g tb where g: "bucket_Allow ov (snd q 1) (pd_global s) = (g, tb)" by (cases "bucket_Allow ov (snd q 1) (pd_global s)")
  obtain ok l where l: "limiter_Allow ov (rate_client (fst q)) (snd q 2) (snd q 3) (pd_perClient s) = (ok, l)"
    by (cases "limiter_Allow ov (rate_client (fst q)) (snd q 2) (snd q 3) (pd_perClient s)")
  obtain e hctx' s' where e: "AuthConnect (production ov b) (s\<lparr>pd_clock := snd q\<rparr>) (fst q) = (e, hctx', s')"
    by (cases "AuthConnect (production ov b) (s\<lparr>pd_clock := snd q\<rparr>) (fst q)")
  from production_AuthConnect [OF g l e] that g l e show ?thesis
    by (auto simp: bucket_Allow_def limiter_Allow_def split: if_splits)
qed

lemma connect_ask_global:
  "pd_global (snd (connect_ask ov b q s)) = snd (bucket_ask ov (snd q 1, 1) (pd_global s))"
  "fst (connect_ask ov b q s) \<le> fst (bucket_ask ov (snd q 1, 1) (pd_global s))"
  by (rule attempt_cases [of ov q s b]; force simp: connect_ask_def bucket_ask_def)+

text \<open>
  The stack as a gate: it admits a connection only when the bucket it asks grants a token,
  so it inherits the budget of the global bucket and, per client, that of the limiter.
\<close>

interpretation stack_gate: budget_gate "connect_ask ov b" "\<lambda>q. snd q 1" "\<lambda>q. snd q 1" "\<lambda>q. True"
    "\<lambda>s. ov_ok ov \<and> bucket_ok (pd_global s)" "\<lambda>s. max 0 (tb_tokens (pd_global s))" "\<lambda>s. tb_lastRefill (pd_global s)"
    "\<lambda>s. slack * of_int (tb_refillRate (pd_global s)) / 1000000000"
  for ov and b :: "('h, 'c) Handler"
proof
  fix s :: "'h pstate" and q :: "'c Context \<times> (nat \<Rightarrow> time)"
  assume a: "ov_ok ov \<and> bucket_ok (pd_global s)" "tb_lastRefill (pd_global s) \<le> snd q 1"
  let ?q = "(snd q 1, 1 :: int)"
  have q: "tb_lastRefill (pd_global s) \<le> fst ?q" "fst ?q \<le> fst ?q" "0 \<le> snd ?q" using a by simp_all
  note same = connect_ask_global [of ov b q s]
  show "ov_ok ov \<and> bucket_ok (pd_global (snd (connect_ask ov b q s)))"
    unfolding same(1) by (rule bucket_gate.ok_ask [OF a(1) q])
  show "slack * of_int (tb_refillRate (pd_global (snd (connect_ask ov b q s)))) / 1000000000
      = slack * of_int (tb_refillRate (pd_global s)) / 1000000000"
    unfolding same(1) by (rule bucket_gate.rate_ask [OF a(1) q])
  show "tb_lastRefill (pd_global s) \<le> tb_lastRefill (pd_global (snd (connect_ask ov b q s)))
      \<and> tb_lastRefill (pd_global (snd (connect_ask ov b q s))) \<le> snd q 1"
    unfolding same(1) using bucket_gate.stamp_ask [OF a(1) q] by simp
  have "(of_int (fst (connect_ask ov b q s)) :: rat) \<le> of_int (fst (bucket_ask ov ?q (pd_global s)))"
    using same(2) by (simp only: of_int_le_iff)
  with bucket_gate.spend [OF a(1) q]
  show "of_int (fst (connect_ask ov b q s) + max 0 (tb_tokens (pd_global (snd (connect_ask ov b q s)))))
      \<le> of_int (max 0 (tb_tokens (pd_global s))) + slack * of_int (tb_refillRate (pd_global s)) / 1000000000
          * of_int (tb_lastRefill (pd_global (snd (connect_ask ov b q s))) - tb_lastRefill (pd_global s))"
    unfolding same(1) by simp
next
  fix s :: "'h pstate"
  assume a: "ov_ok ov \<and> bucket_ok (pd_global s)"
  show "0 \<le> max 0 (tb_tokens (pd_global s))" by simp
  show "0 \<le> slack * of_int (tb_refillRate (pd_global s)) / 1000000000" by (rule bucket_gate.rate_nonneg [OF a])
qed

lemma client_connect_ask_cases:
  defines "r q \<equiv> \<lparr>rq_t0 = snd q 2, rq_t1 = snd q 3, rq_client = rate_client (fst q), rq_n = 1\<rparr>"
  shows "(pd_perClient (snd (client_connect_ask ov b c q s)) = pd_perClient s \<and> fst (client_connect_ask ov b c q s) = 0)
    \<or> (pd_perClient (snd (client_connect_ask ov b c q s)) = snd (client_ask ov c (r q) (pd_perClient s))
       \<and> fst (client_connect_ask ov b c q s) \<le> fst (client_ask ov c (r q) (pd_perClient s)))"
proof -
  obtain g tb ok l e hctx' s' where
    "limiter_AllowN ov (rate_client (fst q)) 1 (snd q 2) (snd q 3) (pd_perClient s) = (ok, l)"
    "AuthConnect (production ov b) (s\<lparr>pd_clock := snd q\<rparr>) (fst q) = (e, hctx', s')"
    "pd_perClient s' = (if g then l else pd_perClient s)" "e = None \<longrightarrow> g \<and> ok"
    by (rule attempt_cases [of ov q s b])
  then show ?thesis
    by (cases g; cases ok) (auto simp: r_def client_connect_ask_def client_ask_def)
qed

interpretation client_stack_gate: budget_gate "client_connect_ask ov b c" "\<lambda>q. snd q 2" "\<lambda>q. snd q 3" "\<lambda>q. True"
    "\<lambda>s. ov_ok ov \<and> limiter_ok (pd_perClient s)" "\<lambda>s. client_level c (pd_perClient s)" "\<lambda>s. client_stamp ts c (pd_perClient s)"
    "\<lambda>s. slack * of_int (lim_refillRate (pd_perClient s)) / 1000000000"
  for ov and b :: "('h, 'c) Handler" and c ts
proof
  fix s :: "'h pstate" and q :: "'c Context \<times> (nat \<Rightarrow> time)"
  assume a: "ov_ok ov \<and> limiter_ok (pd_perClient s)" "client_stamp ts c (pd_perClient s) \<le> snd q 2" "snd q 2 \<le> snd q 3"
  let ?r = "\<lparr>rq_t0 = snd q 2, rq_t1 = snd q 3, rq_client = rate_client (fst q), rq_n = 1\<rparr>"
  let ?l = "pd_perClient s" and ?l' = "pd_perClient (snd (client_connect_ask ov b c q s))"
  have q: "client_stamp ts c ?l \<le> rq_t0 ?r" "rq_t0 ?r \<le> rq_t1 ?r" "0 \<le> rq_n ?r" using a by simp_all
  note laws = client_gate.ok_ask [OF a(1) q] client_gate.rate_ask [OF a(1) q] client_gate.stamp_ask [OF a(1) q] client_gate.spend [OF a(1) q]
  consider (same) "?l' = ?l" "fst (client_connect_ask ov b c q s) = 0"
    | (asked) "?l' = snd (client_ask ov c ?r ?l)" "fst (client_connect_ask ov b c q s) \<le> fst (client_ask ov c ?r ?l)"
    using client_connect_ask_cases [of ov b c q s] by blast
  note cs = this
  show "ov_ok ov \<and> limiter_ok ?l'" using cs a laws(1) by cases auto
  show "slack * of_int (lim_refillRate ?l') / 1000000000 = slack * of_int (lim_refillRate ?l) / 1000000000"
    using cs laws(2) by cases auto
  show "client_stamp ts c ?l \<le> client_stamp ts c ?l' \<and> client_stamp ts c ?l' \<le> snd q 3"
    using cs a laws(3) by cases auto
  show "of_int (fst (client_connect_ask ov b c q s) + client_level c ?l') \<le> of_int (client_level c ?l)
      + slack * of_int (lim_refillRate ?l) / 1000000000 * of_int (client_stamp ts c ?l' - client_stamp ts c ?l)"
    using cs
  proof cases
    case same
    then show ?thesis by simp
  next
    case asked
    have "(of_int (fst (client_connect_ask ov b c q s)) :: rat) \<le> of_int (fst (client_ask ov c ?r ?l))"
      using asked(2) by (simp only: of_int_le_iff)
    then show ?thesis using laws(4) unfolding asked(1) by simp
  qed
next
  fix s :: "'h pstate"
  assume a: "ov_ok ov \<and> limiter_ok (pd_perClient s)"
  show "0 \<le> client_level c (pd_perClient s)" by (rule client_gate.level_nonneg [OF a])
  show "0 \<le> slack * of_int (lim_refillRate (pd_perClient s)) / 1000000000" by (rule client_gate.rate_nonneg [OF a])
qed

section \<open>Metrics of the stack\<close>

definition labelled :: "'h pstate \<Rightarrow> bool" where
  [inv_defs]: "labelled s \<longleftrightarrow> list_all well_labelled (pd_metrics s)"

lemma labelled_emit: "labelled (emit m s) \<longleftrightarrow> labelled s \<and> well_labelled m"
  by (simp add: labelled_def emit_def)

lemma labelled_other [simp]:
  "labelled (s\<lparr>pd_clock := clk\<rparr>) = labelled s" "labelled (s\<lparr>pd_global := tb\<rparr>) = labelled s"
  "labelled (s\<lparr>pd_perClient := l\<rparr>) = labelled s" "labelled (s\<lparr>pd_inner := i\<rparr>) = labelled s"
  by (simp_all add: labelled_def)

text \<open>A handler over the shared state keeps the metrics well labelled.\<close>

definition keeps_labels :: "('h pstate, 'c) Handler \<Rightarrow> bool" where
  "keeps_labels b \<longleftrightarrow> (\<forall>s hctx topic payload topics. labelled s \<longrightarrow>
     labelled (snd (snd (AuthConnect b s hctx))) \<and> labelled (snd (snd (snd (snd (AuthPublish b s hctx topic payload)))))
     \<and> labelled (snd (snd (snd (AuthSubscribe b s hctx topics)))) \<and> labelled (snd (snd (OnConnect b s hctx)))
     \<and> labelled (snd (snd (OnPublish b s hctx topic payload))) \<and> labelled (snd (snd (OnSubscribe b s hctx topics)))
     \<and> labelled (snd (snd (OnUnsubscribe b s hctx topics))) \<and> labelled (snd (snd (OnDisconnect b s hctx))))"

lemma labelled_rl_AuthConnect: "labelled s \<Longrightarrow> labelled (snd (snd (rl_AuthConnect ov b s hctx)))"
  by (simp add: rl_AuthConnect_def tick_def Let_def labelled_emit labelled_simps split_beta)

lemma RateLimited_keeps_labels: "keeps_labels (RateLimitedHandler ov b)"
  unfolding keeps_labels_def
  by (simp add: RateLimitedHandler_def pass_notify_def labelled_rl_AuthConnect split_beta)

lemma labelled_count_mqtt: "labelled s \<Longrightarrow> labelled (count_mqtt packet hctx s)"
  by (simp add: count_mqtt_def labelled_emit labelled_simps)

lemma Instrumented_keeps_labels:
  assumes "keeps_labels b"
  shows "keeps_labels (InstrumentedHandler b)"
  using assms unfolding keeps_labels_def
  by (simp add: InstrumentedHandler_def in_AuthConnect_def in_AuthPublish_def in_AuthSubscribe_def in_OnConnect_def
      in_OnDisconnect_def labelled_count_mqtt tick_def Let_def labelled_emit labelled_simps split_beta)

section \<open>Properties\<close>

text \<open>C5 (bounds). The rate guarantees hold for the whole handler stack of the production
  server, around any handler: over any run of connection attempts in time order it admits at
  most the global capacity plus the global rate times the elapsed time, and of one client,
  known by its client id or else its address, at most the client capacity plus the client
  rate times the elapsed time.\<close>

theorem production_rate_bounds:
  assumes "ov_ok ov" "in_int64 gcap" "0 \<le> gcap" "0 \<le> grate" "in_int64 ccap" "0 \<le> ccap" "0 \<le> crate"
    and "pd_global s = NewTokenBucket gcap grate t" "pd_perClient s = NewLimiter ccap crate maxClients"
    and "in_time_order (\<lambda>q. snd q 1) (\<lambda>q. snd q 1) t qs" "in_time_order (\<lambda>q. snd q 2) (\<lambda>q. snd q 3) t qs"
  shows "of_int (granted (connect_ask ov b) qs s)
      \<le> of_int gcap + slack * of_int grate / 1000000000 * of_int (last_time (\<lambda>q. snd q 1) t qs - t)
    \<and> of_int (granted (client_connect_ask ov b c) qs s)
      \<le> of_int ccap + slack * of_int crate / 1000000000 * of_int (last_time (\<lambda>q. snd q 3) t qs - t)"
proof
  have "bucket_ok (pd_global s)" using assms by (simp add: bucket_ok_New)
  then show "of_int (granted (connect_ask ov b) qs s)
      \<le> of_int gcap + slack * of_int grate / 1000000000 * of_int (last_time (\<lambda>q. snd q 1) t qs - t)"
    using stack_gate.granted_bound [of ov s t qs b] assms by (simp add: NewTokenBucket_def list_all_iff)
  let ?l = "NewLimiter ccap crate maxClients"
  have ok: "limiter_ok ?l" using assms lim_inv_New [of ccap crate maxClients]
    by (simp add: limiter_ok_def NewLimiter_def Let_def)
  have "client_stamp t c ?l = t" "client_level c ?l = ccap" "lim_refillRate ?l = crate"
    using assms(6) by (simp_all add: client_stamp_def client_level_def bucket_of_def NewLimiter_def Let_def)
  then show "of_int (granted (client_connect_ask ov b c) qs s)
      \<le> of_int ccap + slack * of_int crate / 1000000000 * of_int (last_time (\<lambda>q. snd q 3) t qs - t)"
    using client_stack_gate.granted_bound [of ov s t c t qs b] ok assms by (simp add: list_all_iff)
qed

definition sample_stack :: "unit pstate" where
  "sample_stack = \<lparr>pd_inner = (), pd_global = NewTokenBucket 100 10 0, pd_perClient = NewLimiter 5 1 0, pd_metrics = [],
     pd_clock = (\<lambda>i. 0)\<rparr>"

lemma production_rate_bounds_witness:
  "of_int (granted (client_connect_ask ov_amd64 (NoopHandler :: (unit, unit) Handler) ''a'')
      [(zero_Context, \<lambda>i. int i), (zero_Context, \<lambda>i. 7 + int i)] sample_stack)
    \<le> of_int 5 + slack * of_int 1 / 1000000000 * of_int (10 - 0)"
  using production_rate_bounds [of ov_amd64 100 10 5 1 sample_stack 0 0 "[(zero_Context, \<lambda>i. int i), (zero_Context, \<lambda>i. 7 + int i)]"
      "NoopHandler :: (unit, unit) Handler" "''a''"]
  by (simp add: sample_stack_def in_int64_def min_int64_def max_int64_def last_time_def)

text \<open>C25 (refinement). Apart from rate limiting the stack is transparent: it answers a connection
  attempt with the rate limit error, leaving the context and the inner handler untouched, or
  with exactly what the inner handler answers, and every other call is answered with exactly
  the inner handler's answer, rewritten topics and payloads included, and its effect on the
  inner handler's state.\<close>

theorem production_transparent:
  "(case AuthConnect (production ov b) s hctx of (e, hctx', s') \<Rightarrow>
      (e = Some ErrRateLimitExceeded \<and> hctx' = hctx \<and> pd_inner s' = pd_inner s)
      \<or> (e, hctx', pd_inner s') = AuthConnect b (pd_inner s) hctx)
   \<and> (case AuthPublish (production ov b) s hctx topic payload of (e, hctx', t, p, s') \<Rightarrow>
      (e, hctx', t, p, pd_inner s') = AuthPublish b (pd_inner s) hctx topic payload)
   \<and> (case AuthSubscribe (production ov b) s hctx topics of (e, hctx', ts, s') \<Rightarrow>
      (e, hctx', ts, pd_inner s') = AuthSubscribe b (pd_inner s) hctx topics)
   \<and> (case OnConnect (production ov b) s hctx of (e, hctx', s') \<Rightarrow> (e, hctx', pd_inner s') = OnConnect b (pd_inner s) hctx)
   \<and> (case OnPublish (production ov b) s hctx topic payload of (e, hctx', s') \<Rightarrow>
      (e, hctx', pd_inner s') = OnPublish b (pd_inner s) hctx topic payload)
   \<and> (case OnSubscribe (production ov b) s hctx topics of (e, hctx', s') \<Rightarrow> (e, hctx', pd_inner s') = OnSubscribe b (pd_inner s) hctx topics)
   \<and> (case OnUnsubscribe (production ov b) s hctx topics of (e, hctx', s') \<Rightarrow> (e, hctx', pd_inner s') = OnUnsubscribe b (pd_inner s) hctx topics)
   \<and> (case OnDisconnect (production ov b) s hctx of (e, hctx', s') \<Rightarrow> (e, hctx', pd_inner s') = OnDisconnect b (pd_inner s) hctx)"
proof (intro conjI)
  obtain g tb where g: "bucket_Allow ov (pd_clock s 1) (pd_global s) = (g, tb)" by (cases "bucket_Allow ov (pd_clock s 1) (pd_global s)")
  obtain ok l where l: "limiter_Allow ov (rate_client hctx) (pd_clock s 2) (pd_clock s 3) (pd_perClient s) = (ok, l)"
    by (cases "limiter_Allow ov (rate_client hctx) (pd_clock s 2) (pd_clock s 3) (pd_perClient s)")
  obtain e hctx' s' where e: "AuthConnect (production ov b) s hctx = (e, hctx', s')" by (cases "AuthConnect (production ov b) s hctx")
  then have "AuthConnect (production ov b) (s\<lparr>pd_clock := pd_clock s\<rparr>) hctx = (e, hctx', s')" by simp
  from production_AuthConnect [OF g l this] show "case AuthConnect (production ov b) s hctx of (e, hctx', s') \<Rightarrow>
      (e = Some ErrRateLimitExceeded \<and> hctx' = hctx \<and> pd_inner s' = pd_inner s)
      \<or> (e, hctx', pd_inner s') = AuthConnect b (pd_inner s) hctx"
    unfolding e by (cases "g \<and> ok") simp_all
qed (auto simp: production_def InstrumentedHandler_def RateLimitedHandler_def in_AuthPublish_def in_AuthSubscribe_def in_OnConnect_def
    in_OnDisconnect_def pass_notify_def count_mqtt_def tick_def emit_def Let_def split: prod.splits)

text \<open>C38 (type). No metric operation of the stack can panic: every one it performs, in any method
  and around any handler, is on a registered vector, of a kind that has the operation, with
  as many label values as the vector has label names; and the registration cannot either: no
  two names clash, label names are distinct, the buckets of every histogram increase.\<close>

theorem production_metrics_fit:
  "keeps_labels (production ov b) \<and> distinct (fst (metrics_New namespace)) \<and> list_all valid_desc (snd (metrics_New namespace))"
  using Instrumented_keeps_labels [OF RateLimited_keeps_labels, of ov b] metrics_registered_once [of namespace] metrics_valid [of namespace]
  by (simp add: production_def)

text \<open>The gauge of active connections drifts down: a client that connects, says goodbye
  and closes is counted up once and down twice, because the MQTT parser and the TCP server
  both report the end of the connection. After the session, with a handler that approves
  everything, the gauge that was \<open>v\<close> is \<open>v - 1\<close>.\<close>

lemma active_connections_drift:
  "\<exists>w1 w2 h'. handleConn (mqtt_Parse list_recv log_send) c (InstrumentedHandler NoopHandler) sid remote None None
      [(Upstream, quiet), (Upstream, quiet), (Upstream, quiet), (Downstream, quiet)] [CONNECT p, DISCONNECT x] [] [] [] h
    = Some (None, w1, w2, h')
    \<and> metric_value ''ActiveConnections'' [''mqtt'', ''client''] v (pd_metrics h')
      = metric_value ''ActiveConnections'' [''mqtt'', ''client''] v (pd_metrics h) - 1"
  by (simp add: handleConn_def conn_run_def conn_round_def mqtt_Parse_def mqtt_handle_def mqtt_handlers
      InstrumentedHandler_def in_AuthConnect_def in_OnConnect_def in_OnDisconnect_def tick_def emit_def NoopHandler_def
      log_send_def EOF_def Let_def metric_value_append)

text \<open>A client over its own limit still spends the tokens of everybody: the global bucket is
  asked first and keeps what it gave when the limiter then refuses.\<close>

lemma refused_client_spends_global_token:
  assumes "bucket_Allow ov (clk 1) (pd_global s) = (True, tb)"
    and "limiter_Allow ov (rate_client hctx) (clk 2) (clk 3) (pd_perClient s) = (False, l)"
  shows "\<exists>s'. AuthConnect (production ov b) (s\<lparr>pd_clock := clk\<rparr>) hctx = (Some ErrRateLimitExceeded, hctx, s') \<and> pd_global s' = tb"
  using production_AuthConnect [OF assms, of b]
  by (cases "AuthConnect (production ov b) (s\<lparr>pd_clock := clk\<rparr>) hctx") auto

end
