(* ===== verification/Json.thy ===== *)
theory Json
  imports Prelude
begin

text \<open>
  The documents that \<^verbatim>\<open>encoding/json\<close> writes for the health endpoints, as its \<^verbatim>\<open>Encoder\<close> writes
  them: no white space, the characters of HTML escaped, a line feed at the end. \<open>read_json\<close> is a
  reader for such documents, and what is written reads back unchanged whatever text is in it.
  As everywhere, text is ASCII; bytes from 128 on are copied, as they are in valid UTF-8.
\<close>

section \<open>Definitions\<close>

datatype json = JNull | JInt int | JString string | JArray "json list" | JObject "(string \<times> json) list"

definition hex_digit :: "nat \<Rightarrow> char" where
  "hex_digit n = (if n < 10 then char_of (48 + n) else char_of (87 + n))"

definition json_escape :: "char \<Rightarrow> string" where
  "json_escape c = (let n = of_char c :: nat in
     if c = CHR 0x22 \<or> c = CHR 0x5C then [CHR 0x5C, c]
     else if n = 8 then [CHR 0x5C, CHR ''b''] else if n = 12 then [CHR 0x5C, CHR ''f'']
     else if n = 10 then [CHR 0x5C, CHR ''n''] else if n = 13 then [CHR 0x5C, CHR ''r'']
     else if n = 9 then [CHR 0x5C, CHR ''t'']
     else if n < 32 \<or> c = CHR ''<'' \<or> c = CHR ''>'' \<or> c = CHR ''&''
       then [CHR 0x5C, CHR ''u'', CHR ''0'', CHR ''0'', hex_digit (n div 16), hex_digit (n mod 16)]
     else [c])"

definition json_quote :: "string \<Rightarrow> string" where
  "json_quote s = [CHR 0x22] @ concat (map json_escape s) @ [CHR 0x22]"

fun commas :: "string list \<Rightarrow> string" where
  "commas [] = []"
| "commas [x] = x"
| "commas (x # y # xs) = x @ [CHR '',''] @ commas (y # xs)"

fun json_text :: "json \<Rightarrow> string" where
  "json_text JNull = ''null''"
| "json_text (JInt i) = itoa i"
| "json_text (JString s) = json_quote s"
| "json_text (JArray js) = ''['' @ commas (map json_text js) @ '']''"
| "json_text (JObject kvs) = ''{'' @ commas (map (\<lambda>(k, v). json_quote k @ [CHR '':''] @ json_text v) kvs) @ ''}''"

text \<open>\<^verbatim>\<open>Encode\<close>.\<close>

definition json_Encode :: "json \<Rightarrow> string" where
  "json_Encode j = json_text j @ [CHR 0x0A]"

section \<open>A reader\<close>

definition hex_value :: "char \<Rightarrow> nat" where
  "hex_value c = (let n = of_char c in if n < 58 then n - 48 else n - 87)"

definition short_escape :: "char \<Rightarrow> char" where
  "short_escape e = (if e = CHR ''b'' then char_of (8::nat) else if e = CHR ''f'' then char_of (12::nat)
     else if e = CHR ''n'' then char_of (10::nat) else if e = CHR ''r'' then char_of (13::nat)
     else if e = CHR ''t'' then char_of (9::nat) else e)"

text \<open>The text up to the closing quote.\<close>

fun read_string :: "string \<Rightarrow> (string \<times> string) option" where
  "read_string [] = None"
| "read_string (c # cs) = (
     if c = CHR 0x22 then Some ([], cs)
     else if c = CHR 0x5C then (case cs of
         [] \<Rightarrow> None
       | e # es \<Rightarrow> if e = CHR ''u'' then
             map_option (apfst ((#) (char_of (16 * hex_value (es ! 2) + hex_value (es ! 3))))) (read_string (drop 4 es))
           else map_option (apfst ((#) (short_escape e))) (read_string es))
     else map_option (apfst ((#) c)) (read_string cs))"

definition is_digit :: "char \<Rightarrow> bool" where
  "is_digit c \<longleftrightarrow> 48 \<le> (of_char c :: nat) \<and> (of_char c :: nat) < 58"

fun read_digits :: "nat \<Rightarrow> string \<Rightarrow> nat \<times> string" where
  "read_digits a [] = (a, [])"
| "read_digits a (c # cs) = (if is_digit c then read_digits (10 * a + (of_char c - 48)) cs else (a, c # cs))"

definition expect :: "char \<Rightarrow> string \<Rightarrow> string option" where
  "expect c cs = (case cs of [] \<Rightarrow> None | d # ds \<Rightarrow> if d = c then Some ds else None)"

text \<open>Values, items of an array and members of an object; the first argument bounds the depth of the recursion.\<close>

fun read_json :: "nat \<Rightarrow> string \<Rightarrow> (json \<times> string) option"
  and read_items :: "nat \<Rightarrow> string \<Rightarrow> (json list \<times> string) option"
  and read_members :: "nat \<Rightarrow> string \<Rightarrow> ((string \<times> json) list \<times> string) option" where
  "read_json 0 cs = None"
| "read_json (Suc n) cs = (case cs of
     [] \<Rightarrow> None
   | c # cs \<Rightarrow>
       if c = CHR ''n'' then (if take 3 cs = ''ull'' then Some (JNull, drop 3 cs) else None)
       else if c = CHR 0x22 then map_option (apfst JString) (read_string cs)
       else if c = CHR ''['' then (case expect (CHR '']'') cs of
           Some cs \<Rightarrow> Some (JArray [], cs)
         | None \<Rightarrow> map_option (apfst JArray) (read_items n cs))
       else if c = CHR ''{'' then (case expect (CHR ''}'') cs of
           Some cs \<Rightarrow> Some (JObject [], cs)
         | None \<Rightarrow> map_option (apfst JObject) (read_members n cs))
       else if c = CHR ''-'' then Some (apfst (\<lambda>k. JInt (- int k)) (read_digits 0 cs))
       else if is_digit c then Some (apfst (\<lambda>k. JInt (int k)) (read_digits 0 (c # cs)))
       else None)"
| "read_items 0 cs = None"
| "read_items (Suc n) cs = Option.bind (read_json n cs) (\<lambda>(j, cs). case expect (CHR '','') cs of
     Some cs \<Rightarrow> map_option (apfst ((#) j)) (read_items n cs)
   | None \<Rightarrow> map_option (Pair [j]) (expect (CHR '']'') cs))"
| "read_members 0 cs = None"
| "read_members (Suc n) cs = Option.bind (expect (CHR 0x22) cs) (\<lambda>cs. Option.bind (read_string cs) (\<lambda>(k, cs).
     Option.bind (expect (CHR '':'') cs) (\<lambda>cs. Option.bind (read_json n cs) (\<lambda>(j, cs). case expect (CHR '','') cs of
     Some cs \<Rightarrow> map_option (apfst ((#) (k, j))) (read_members n cs)
   | None \<Rightarrow> map_option (Pair [(k, j)]) (expect (CHR ''}'') cs)))))"

section \<open>Round trip\<close>

lemma hex_value_digit: "n < 16 \<Longrightarrow> hex_value (hex_digit n) = n"
  by (simp add: hex_value_def hex_digit_def Let_def)

lemma read_escaped: "read_string (json_escape c @ cs) = map_option (apfst ((#) c)) (read_string cs)"
proof -
  let ?n = "of_char c :: nat"
  have bound: "?n < 256" by simp
  have c: "char_of ?n = c" by simp
  consider "c = CHR 0x22 \<or> c = CHR 0x5C" | "?n \<in> {8, 9, 10, 12, 13}"
    | "c \<noteq> CHR 0x22" "c \<noteq> CHR 0x5C" "?n \<notin> {8, 9, 10, 12, 13}" "?n < 32 \<or> c = CHR ''<'' \<or> c = CHR ''>'' \<or> c = CHR ''&''"
    | "c \<noteq> CHR 0x22" "c \<noteq> CHR 0x5C" "?n \<notin> {8, 9, 10, 12, 13}" "\<not> (?n < 32 \<or> c = CHR ''<'' \<or> c = CHR ''>'' \<or> c = CHR ''&'')"
    by blast
  then show ?thesis
  proof cases
    case 1
    then show ?thesis by (auto simp: json_escape_def short_escape_def)
  next
    case 2
    then have "c \<in> {char_of (8::nat), char_of (9::nat), char_of (10::nat), char_of (12::nat), char_of (13::nat)}"
      using c by (metis insert_iff empty_iff)
    then show ?thesis by (auto simp: json_escape_def short_escape_def)
  next
    case 3
    have "?n div 16 < 16" using bound by linarith
    then have "hex_value (hex_digit (?n div 16)) = ?n div 16" "hex_value (hex_digit (?n mod 16)) = ?n mod 16"
      by (simp_all add: hex_value_digit)
    with 3 c show ?thesis by (simp add: json_escape_def Let_def)
  next
    case 4
    then show ?thesis by (simp add: json_escape_def)
  qed
qed

lemma read_quoted: "read_string (concat (map json_escape s) @ CHR 0x22 # rest) = Some (s, rest)"
  by (induction s) (simp_all add: read_escaped)

lemma expect_simps [simp]: "expect c (d # ds) = (if d = c then Some ds else None)"
  by (simp add: expect_def)

text \<open>Digits: a number reads back when no digit follows it.\<close>

lemma read_itoa_nat: "read_digits 0 (itoa_nat n @ rest) = read_digits n rest"
proof (induction n arbitrary: rest rule: itoa_nat.induct)
  case (1 n)
  have digit: "is_digit (char_of (48 + k))" "of_char (char_of (48 + k) :: char) - 48 = k" if "k < 10" for k :: nat
    using that by (simp_all add: is_digit_def)
  show ?case
  proof (cases "n < 10")
    case True
    then show ?thesis using digit [OF True] by (simp add: itoa_nat.simps [of n])
  next
    case False
    have "n mod 10 < 10" by simp
    then show ?thesis using 1 [OF False, of "char_of (48 + n mod 10) # rest"] digit [of "n mod 10"] False
      by (subst itoa_nat.simps) (simp add: mult.commute [of 10])
  qed
qed

lemma itoa_first: "\<exists>c cs. itoa_nat n = c # cs \<and> is_digit c"
proof (induction n rule: itoa_nat.induct)
  case (1 n)
  then show ?case by (cases "n < 10") (auto simp: itoa_nat.simps [of n] is_digit_def)
qed

definition no_digit :: "string \<Rightarrow> bool" where
  "no_digit cs \<longleftrightarrow> (case cs of [] \<Rightarrow> True | c # _ \<Rightarrow> \<not> is_digit c)"

lemma read_digits_stop: "no_digit rest \<Longrightarrow> read_digits n rest = (n, rest)"
  by (cases rest) (simp_all add: no_digit_def)

lemma no_digit_simps [simp]: "no_digit []" "no_digit (c # cs) \<longleftrightarrow> \<not> is_digit c"
  by (simp_all add: no_digit_def)

text \<open>How deep the reader has to go.\<close>

fun json_depth :: "json \<Rightarrow> nat" where
  "json_depth (JArray js) = Suc (sum_list (map (\<lambda>j. Suc (json_depth j)) js))"
| "json_depth (JObject kvs) = Suc (sum_list (map (\<lambda>(k, j). Suc (json_depth j)) kvs))"
| "json_depth j = 1"

definition reads_back :: "json \<Rightarrow> bool" where
  "reads_back j \<longleftrightarrow> (\<forall>n rest. json_depth j \<le> n \<longrightarrow> no_digit rest \<longrightarrow> read_json n (json_text j @ rest) = Some (j, rest))"

lemma json_text_first: "\<exists>c cs. json_text j = c # cs \<and> c \<noteq> CHR '']''"
proof (cases j)
  case (JInt i)
  then show ?thesis using itoa_first [of "nat i"] by (auto simp: itoa_def is_digit_def)
qed (auto simp: json_quote_def)

lemma commas_Cons: "commas (x # xs) = x @ (if xs = [] then [] else CHR '','' # commas xs)"
  by (cases xs) simp_all

lemma not_digits [simp]: "\<not> is_digit (CHR '','')" "\<not> is_digit (CHR '']'')" "\<not> is_digit (CHR ''}'')" "\<not> is_digit (CHR 0x0A)"
  by (simp_all add: is_digit_def)

lemma items_back:
  assumes "\<And>j. j \<in> set js \<Longrightarrow> reads_back j" "js \<noteq> []" "sum_list (map (\<lambda>j. Suc (json_depth j)) js) \<le> n"
  shows "read_items n (commas (map json_text js) @ CHR '']'' # rest) = Some (js, rest)"
  using assms
proof (induction js arbitrary: n)
  case (Cons j js)
  from Cons.prems(3) obtain m where n: "n = Suc m" "json_depth j \<le> m" "sum_list (map (\<lambda>j. Suc (json_depth j)) js) \<le> m"
    by (cases n) auto
  have j: "read_json m (json_text j @ rest') = Some (j, rest')" if "no_digit rest'" for rest'
    using Cons.prems(1) [of j] n(2) that by (simp add: reads_back_def)
  show ?case
  proof (cases "js = []")
    case False
    with Cons.IH [of m] Cons.prems(1) n(3) show ?thesis by (simp add: n(1) commas_Cons j)
  qed (simp add: n(1) j)
qed simp

lemma members_back:
  assumes "\<And>k j. (k, j) \<in> set kvs \<Longrightarrow> reads_back j" "kvs \<noteq> []" "sum_list (map (\<lambda>(k, j). Suc (json_depth j)) kvs) \<le> n"
  shows "read_members n (commas (map (\<lambda>(k, v). json_quote k @ [CHR '':''] @ json_text v) kvs) @ CHR ''}'' # rest) = Some (kvs, rest)"
  using assms
proof (induction kvs arbitrary: n)
  case (Cons kv kvs)
  obtain k j where kv: "kv = (k, j)" by (cases kv)
  from Cons.prems(3) obtain m where n: "n = Suc m" "json_depth j \<le> m" "sum_list (map (\<lambda>(k, j). Suc (json_depth j)) kvs) \<le> m"
    by (cases n) (auto simp: kv)
  have j: "read_json m (json_text j @ rest') = Some (j, rest')" if "no_digit rest'" for rest'
    using Cons.prems(1) [of k j] n(2) that by (simp add: reads_back_def kv)
  show ?case
  proof (cases "kvs = []")
    case False
    have "\<And>k j. (k, j) \<in> set kvs \<Longrightarrow> reads_back j" using Cons.prems(1) by fastforce
    with Cons.IH [of m] False n(3) show ?thesis by (simp add: kv n(1) commas_Cons json_quote_def read_quoted j)
  qed (simp add: kv n(1) json_quote_def read_quoted j)
qed simp

lemma int_back: "reads_back (JInt i)"
proof -
  have "read_json n (itoa i @ rest) = Some (JInt i, rest)" if "1 \<le> n" "no_digit rest" for n rest
  proof -
    from that(1) obtain m where m: "n = Suc m" by (cases n) auto
    obtain c cs where c: "itoa_nat (nat i) = c # cs" "is_digit c" using itoa_first by blast
    have "c \<noteq> CHR ''n''" "c \<noteq> CHR 0x22" "c \<noteq> CHR ''[''" "c \<noteq> CHR ''{''" "c \<noteq> CHR ''-''" using c(2) by (auto simp: is_digit_def)
    with c that(2) show ?thesis
      using read_itoa_nat [of "nat i" rest] read_itoa_nat [of "nat (- i)" rest]
      by (simp add: m itoa_def read_digits_stop)
  qed
  then show ?thesis by (simp add: reads_back_def)
qed

lemma json_back: "reads_back j"
proof (induction j rule: json_text.induct)
  case (2 i)
  show ?case by (rule int_back)
next
  case (4 js)
  show ?case unfolding reads_back_def
  proof (intro allI impI)
    fix n rest assume n: "json_depth (JArray js) \<le> n"
    then obtain m where m: "n = Suc m" "sum_list (map (\<lambda>j. Suc (json_depth j)) js) \<le> m" by (cases n) auto
    show "read_json n (json_text (JArray js) @ rest) = Some (JArray js, rest)"
    proof (cases js)
      case (Cons j js')
      obtain c cs where "json_text j = c # cs" "c \<noteq> CHR '']''" using json_text_first by blast
      then have "expect (CHR '']'') (commas (map json_text js) @ CHR '']'' # rest) = None" by (simp add: Cons commas_Cons)
      with items_back [of js m rest] 4 m Cons show ?thesis by simp
    qed (simp add: m(1))
  qed
next
  case (5 kvs)
  show ?case unfolding reads_back_def
  proof (intro allI impI)
    fix n rest assume n: "json_depth (JObject kvs) \<le> n"
    then obtain m where m: "n = Suc m" "sum_list (map (\<lambda>(k, j). Suc (json_depth j)) kvs) \<le> m" by (cases n) auto
    show "read_json n (json_text (JObject kvs) @ rest) = Some (JObject kvs, rest)"
    proof (cases kvs)
      case (Cons kv kvs')
      then have "expect (CHR ''}'') (commas (map (\<lambda>(k, v). json_quote k @ [CHR '':''] @ json_text v) kvs) @ CHR ''}'' # rest) = None"
        by (cases kv) (simp add: commas_Cons json_quote_def)
      with members_back [of kvs m rest] 5 m Cons show ?thesis by fastforce
    qed (simp add: m(1))
  qed
qed (auto simp: reads_back_def json_quote_def read_quoted dest!: Suc_le_D)

text \<open>What \<^verbatim>\<open>Encode\<close> writes reads back to the document, whatever text is in it.\<close>

lemma json_round_trip: "json_depth j \<le> n \<Longrightarrow> read_json n (json_Encode j) = Some (j, [CHR 0x0A])"
  using json_back [of j] by (simp add: reads_back_def json_Encode_def)

end
