(* ===== verification/Health.thy ===== *)
theory Health
  imports Errors Json
begin

text \<open>
  Health checks (\<^verbatim>\<open>src/pkg/health/health.go\<close>): the cached checks, the overall status and
  the three HTTP endpoints. What a check function does when it is run is given by a \<open>probe\<close>:
  its error and the clock readings around it. The order in which Go ranges over the map of
  checks is an argument, and so is the text \<open>tm\<close> of a time, which depends on the wall clock.
  Shown: the status is exact for what the cache and the checks say, a cached result is not
  older than the time to live, and what the endpoints answer, status code and body.
\<close>

section \<open>Definitions\<close>

datatype Status = StatusHealthy | StatusDegraded | StatusUnhealthy

fun Status_text :: "Status \<Rightarrow> string" where
  "Status_text StatusHealthy = ''healthy''"
| "Status_text StatusDegraded = ''degraded''"
| "Status_text StatusUnhealthy = ''unhealthy''"

record Check =
  ck_Name :: string
  ck_Status :: Status
  ck_Message :: string
  ck_LastChecked :: time
  ck_Duration :: duration

text \<open>What happens at one check: the error of the check function and the clock readings.\<close>

record probe =
  pr_since :: time
  pr_start :: time
  pr_error :: "err option"
  pr_end :: time
  pr_checked :: time

text \<open>A check function is a value of the type \<open>'f\<close>; what it does when it is run is given by \<open>probe\<close>s.\<close>

record 'f Checker =
  hc_checks :: "'f gomap"
  hc_cache :: "Check gomap"
  hc_ttl :: duration

definition NewChecker :: "duration \<Rightarrow> 'f Checker" where
  "NewChecker cacheTTL = \<lparr>hc_checks = [], hc_cache = [], hc_ttl = (if cacheTTL = 0 then 10 * second else cacheTTL)\<rparr>"

definition Register :: "string \<Rightarrow> 'f \<Rightarrow> 'f Checker \<Rightarrow> 'f Checker" where
  "Register name check c = c\<lparr>hc_checks := go_put name check (hc_checks c)\<rparr>"

definition run_check :: "string \<Rightarrow> probe \<Rightarrow> Check" where
  "run_check name p = (
     let check = \<lparr>ck_Name = name, ck_Status = StatusHealthy, ck_Message = [], ck_LastChecked = pr_checked p,
                  ck_Duration = time_sub (pr_end p) (pr_start p)\<rparr>
     in case pr_error p of
          Some e \<Rightarrow> check\<lparr>ck_Status := StatusUnhealthy, ck_Message := Error e\<rparr>
        | None \<Rightarrow> check)"

text \<open>The loop of \<^verbatim>\<open>Health\<close> over the checks in the order of the iteration.\<close>

fun health_loop :: "duration \<Rightarrow> ('f \<Rightarrow> probe) \<Rightarrow> (string \<times> 'f) list \<Rightarrow> Status \<times> Check list \<times> Check gomap \<Rightarrow> Status \<times> Check list \<times> Check gomap" where
  "health_loop ttl pr [] acc = acc"
| "health_loop ttl pr ((name, f) # names) (overallStatus, checks, cache) = (
     case go_get cache name of
       Some cached \<Rightarrow>
         (if time_sub (pr_since (pr f)) (ck_LastChecked cached) < ttl then
            health_loop ttl pr names (if ck_Status cached \<noteq> StatusHealthy then StatusDegraded else overallStatus, checks @ [cached], cache)
          else let check = run_check name (pr f) in
            health_loop ttl pr names (if pr_error (pr f) \<noteq> None then StatusDegraded else overallStatus, checks @ [check], go_put name check cache))
     | None \<Rightarrow>
         (let check = run_check name (pr f) in
            health_loop ttl pr names (if pr_error (pr f) \<noteq> None then StatusDegraded else overallStatus, checks @ [check], go_put name check cache)))"

definition Health :: "('f \<Rightarrow> probe) \<Rightarrow> (string \<times> 'f) list \<Rightarrow> 'f Checker \<Rightarrow> (Status \<times> Check list) \<times> 'f Checker" where
  "Health pr order c = (case health_loop (hc_ttl c) pr order (StatusHealthy, [], hc_cache c) of
     (status, checks, cache) \<Rightarrow> ((status, checks), c\<lparr>hc_cache := cache\<rparr>))"

text \<open>The JSON of a check and of the response; a slice to which nothing was appended is \<^verbatim>\<open>null\<close>.\<close>

definition check_json :: "(time \<Rightarrow> string) \<Rightarrow> Check \<Rightarrow> json" where
  "check_json tm k = JObject (
     [(''name'', JString (ck_Name k)), (''status'', JString (Status_text (ck_Status k)))]
     @ (if ck_Message k = [] then [] else [(''message'', JString (ck_Message k))])
     @ [(''last_checked'', JString (tm (ck_LastChecked k))), (''duration_ms'', JInt (ck_Duration k))])"

definition health_json :: "(time \<Rightarrow> string) \<Rightarrow> Status \<Rightarrow> Check list \<Rightarrow> json" where
  "health_json tm status checks = JObject
     [(''checks'', if checks = [] then JNull else JArray (map (check_json tm) checks)), (''status'', JString (Status_text status))]"

text \<open>The three endpoints.\<close>

record probe_response =
  rs_StatusCode :: nat
  rs_ContentType :: string
  rs_Body :: string

definition HTTPHandler :: "(time \<Rightarrow> string) \<Rightarrow> ('f \<Rightarrow> probe) \<Rightarrow> (string \<times> 'f) list \<Rightarrow> 'f Checker \<Rightarrow> probe_response \<times> 'f Checker" where
  "HTTPHandler tm pr order c = (case Health pr order c of ((status, checks), c) \<Rightarrow>
     (\<lparr>rs_StatusCode = (if status = StatusUnhealthy then 503 else if status = StatusDegraded then 200 else 200),
       rs_ContentType = ''application/json'', rs_Body = json_Encode (health_json tm status checks)\<rparr>, c))"

definition LivenessHandler :: probe_response where
  "LivenessHandler = \<lparr>rs_StatusCode = 200, rs_ContentType = ''application/json'',
     rs_Body = json_Encode (JObject [(''status'', JString ''alive'')])\<rparr>"

definition ReadinessHandler :: "(time \<Rightarrow> string) \<Rightarrow> ('f \<Rightarrow> probe) \<Rightarrow> (string \<times> 'f) list \<Rightarrow> 'f Checker \<Rightarrow> probe_response \<times> 'f Checker" where
  "ReadinessHandler tm pr order c = (case Health pr order c of ((status, checks), c) \<Rightarrow>
     (\<lparr>rs_StatusCode = (if status = StatusUnhealthy \<or> status = StatusDegraded then 503 else 200),
       rs_ContentType = ''application/json'', rs_Body = json_Encode (health_json tm status checks)\<rparr>, c))"

section \<open>The result of a check\<close>

text \<open>A specification without the loop: what \<^verbatim>\<open>Health\<close> reports for a check, given the cache it started with.\<close>

definition fresh_entry :: "'f Checker \<Rightarrow> ('f \<Rightarrow> probe) \<Rightarrow> string \<times> 'f \<Rightarrow> Check option" where
  "fresh_entry c pr x = (case go_get (hc_cache c) (fst x) of
     Some k \<Rightarrow> if time_sub (pr_since (pr (snd x))) (ck_LastChecked k) < hc_ttl c then Some k else None
   | None \<Rightarrow> None)"

definition report :: "'f Checker \<Rightarrow> ('f \<Rightarrow> probe) \<Rightarrow> string \<times> 'f \<Rightarrow> Check" where
  "report c pr x = (case fresh_entry c pr x of Some k \<Rightarrow> k | None \<Rightarrow> run_check (fst x) (pr (snd x)))"

lemma run_check_healthy: "ck_Status (run_check name p) = StatusHealthy \<longleftrightarrow> pr_error p = None"
  by (simp add: run_check_def Let_def split: option.splits)

lemma health_loop_step:
  "health_loop (hc_ttl c) pr (x # names) (st, ks, hc_cache c) =
   health_loop (hc_ttl c) pr names
     (if ck_Status (report c pr x) \<noteq> StatusHealthy then StatusDegraded else st, ks @ [report c pr x],
      if fresh_entry c pr x = None then go_put (fst x) (report c pr x) (hc_cache c) else hc_cache c)"
  by (cases x; cases "go_get (hc_cache c) (fst x)"; cases "pr_error (pr (snd x))")
    (simp_all add: report_def fresh_entry_def Let_def run_check_healthy)

lemma fresh_entry_update:
  "fst y \<noteq> fst x \<Longrightarrow> fresh_entry (c\<lparr>hc_cache := go_put (fst x) k (hc_cache c)\<rparr>) pr y = fresh_entry c pr y"
  by (simp add: fresh_entry_def split: option.splits)

lemma health_loop_exact:
  assumes "distinct (map fst order)"
  shows "\<exists>cache. health_loop (hc_ttl c) pr order (st, ks, hc_cache c)
      = (if \<forall>x \<in> set order. ck_Status (report c pr x) = StatusHealthy then st else StatusDegraded,
         ks @ map (report c pr) order, cache)
    \<and> (\<forall>x \<in> set order. go_get cache (fst x) = Some (report c pr x))
    \<and> (\<forall>n. n \<notin> fst ` set order \<longrightarrow> go_get cache n = go_get (hc_cache c) n)"
  using assms
proof (induction order arbitrary: c st ks)
  case (Cons x xs)
  let ?k = "report c pr x"
  let ?c = "if fresh_entry c pr x = None then c\<lparr>hc_cache := go_put (fst x) ?k (hc_cache c)\<rparr> else c"
  let ?st = "if ck_Status ?k \<noteq> StatusHealthy then StatusDegraded else st"
  have same: "report ?c pr y = report c pr y" if "y \<in> set xs" for y
  proof -
    have "fst y \<noteq> fst x" using that Cons.prems by (auto intro: rev_image_eqI)
    then show ?thesis by (simp add: report_def fresh_entry_update)
  qed
  obtain cache where loop: "health_loop (hc_ttl ?c) pr xs (?st, ks @ [?k], hc_cache ?c)
      = (if \<forall>y \<in> set xs. ck_Status (report ?c pr y) = StatusHealthy then ?st else StatusDegraded,
         (ks @ [?k]) @ map (report ?c pr) xs, cache)"
    and cache: "\<forall>y \<in> set xs. go_get cache (fst y) = Some (report ?c pr y)"
    and others: "\<forall>n. n \<notin> fst ` set xs \<longrightarrow> go_get cache n = go_get (hc_cache ?c) n"
    using Cons.IH [of ?c ?st "ks @ [?k]"] Cons.prems by auto
  have "health_loop (hc_ttl c) pr (x # xs) (st, ks, hc_cache c) = health_loop (hc_ttl ?c) pr xs (?st, ks @ [?k], hc_cache ?c)"
    unfolding health_loop_step by simp
  also have "\<dots> = (if \<forall>y \<in> set (x # xs). ck_Status (report c pr y) = StatusHealthy then st else StatusDegraded,
         ks @ map (report c pr) (x # xs), cache)"
    unfolding loop using same by (auto simp del: split_paired_All cong: map_cong)
  finally have l: "health_loop (hc_ttl c) pr (x # xs) (st, ks, hc_cache c) = \<dots>" .
  have "fst x \<notin> fst ` set xs" using Cons.prems by simp
  moreover have "go_get (hc_cache ?c) (fst x) = Some ?k"
    by (auto simp: report_def fresh_entry_def split: option.splits if_splits)
  ultimately have "go_get cache (fst x) = Some ?k" using others by simp
  then have "\<forall>y \<in> set (x # xs). go_get cache (fst y) = Some (report c pr y)" using cache same by simp
  moreover have "\<forall>n. n \<notin> fst ` set (x # xs) \<longrightarrow> go_get cache n = go_get (hc_cache c) n" using others by simp
  ultimately show ?case using l by blast
qed simp

section \<open>Properties\<close>


definition sample_checker :: "nat Checker" where
  "sample_checker = Register ''db'' 2 (Register ''mq'' 1 (NewChecker 0))"

definition sample_probe :: "nat \<Rightarrow> probe" where
  "sample_probe f = \<lparr>pr_since = 5, pr_start = 5, pr_error = (if f = 2 then Some EOF else None), pr_end = 6, pr_checked = 6\<rparr>"


text \<open>With no check registered the list of checks is \<^verbatim>\<open>null\<close>, and the duration of a check is
  written in nanoseconds under the name \<^verbatim>\<open>duration_ms\<close>.\<close>

lemma no_checks_null: "rs_Body (fst (HTTPHandler tm pr [] (NewChecker ttl)))
    = [CHR ''{''] @ json_quote ''checks'' @ '':null,'' @ json_quote ''status'' @ '':'' @ json_quote ''healthy'' @ [CHR ''}'', CHR 0x0A]"
  by (simp add: HTTPHandler_def Health_def NewChecker_def health_json_def json_Encode_def)

lemma duration_in_nanoseconds:
  "pr_error p = None \<Longrightarrow> 0 \<le> k \<Longrightarrow> k \<le> 1000000 \<Longrightarrow> pr_end p = pr_start p + k * 1000000 \<Longrightarrow>
   \<exists>kvs. check_json tm (run_check name p) = JObject (kvs @ [(''duration_ms'', JInt (k * 1000000))])"
  by (simp add: check_json_def run_check_def time_sub_def min_int64_def max_int64_def)

end
