(* ===== verification/Breaker.thy ===== *)
theory Breaker
  imports Errors
begin

text \<open>
  The circuit breaker (\<^verbatim>\<open>src/pkg/breaker/breaker.go\<close>): its configuration, its state
  record, one definition per method, and the step relation of several goroutines inside
  \<^verbatim>\<open>Call\<close>, whose critical sections are \<open>beforeCall\<close> and \<open>afterCall\<close>. The
  goroutines that \<open>setState\<close> spawns to run the callback are kept in the order they are
  spawned. Shown: the counters' invariant under every interleaving, which transitions
  happen, when a call is let through, tripping and recovery, the chain of notifications.
\<close>

section \<open>Definitions\<close>

definition ErrCircuitOpen :: err where
  "ErrCircuitOpen = Sentinel ''breaker.ErrCircuitOpen'' ''circuit breaker is open''"

text \<open>The type \<^verbatim>\<open>State\<close> is an integer of which only three values are ever stored.\<close>

datatype State = StateClosed | StateHalfOpen | StateOpen

fun State_String :: "State \<Rightarrow> string" where
  "State_String StateClosed = ''closed''"
| "State_String StateHalfOpen = ''half_open''"
| "State_String StateOpen = ''open''"

text \<open>The number of a state (\<^verbatim>\<open>iota\<close>): the value the production program exports.\<close>

fun State_iota :: "State \<Rightarrow> int" where
  "State_iota StateClosed = 0"
| "State_iota StateHalfOpen = 1"
| "State_iota StateOpen = 2"

instantiation State :: linorder
begin

definition less_eq_State :: "State \<Rightarrow> State \<Rightarrow> bool" where
  "less_eq_State a b = (State_iota a \<le> State_iota b)"

definition less_State :: "State \<Rightarrow> State \<Rightarrow> bool" where
  "less_State a b = (State_iota a < State_iota b)"

instance
proof
  fix x y z :: State
  show "x < y \<longleftrightarrow> x \<le> y \<and> \<not> y \<le> x" by (auto simp: less_eq_State_def less_State_def)
  show "x \<le> x" by (simp add: less_eq_State_def)
  show "x \<le> y \<Longrightarrow> y \<le> z \<Longrightarrow> x \<le> z" by (simp add: less_eq_State_def)
  show "x \<le> y \<Longrightarrow> y \<le> x \<Longrightarrow> x = y" by (cases x; cases y) (simp_all add: less_eq_State_def)
  show "x \<le> y \<or> y \<le> x" by (auto simp: less_eq_State_def)
qed

end

record breaker_Config =
  MaxFailures :: int
  ResetTimeout :: duration
  SuccessThreshold :: int
  Timeout :: duration

text \<open>
  A callback registered with \<^verbatim>\<open>OnStateChange\<close> is a number; \<open>cb_spawned\<close> holds the
  goroutines started by \<open>setState\<close>, each with its callback, the old and the new state.
\<close>

record CircuitBreaker =
  cb_config :: breaker_Config
  cb_state :: State
  cb_failures :: int
  cb_successes :: int
  cb_lastFailureTime :: time
  cb_lastStateChange :: time
  cb_onStateChange :: "nat option"
  cb_spawned :: "(nat \<times> State \<times> State) list"

text \<open>The zero \<^verbatim>\<open>time.Time\<close> of the field \<open>lastFailureTime\<close> is \<open>t0\<close>.\<close>

definition breaker_New :: "time \<Rightarrow> breaker_Config \<Rightarrow> time \<Rightarrow> CircuitBreaker" where
  "breaker_New t0 config now = (
     let config = (if MaxFailures config = 0 then config\<lparr>MaxFailures := 5\<rparr> else config);
         config = (if ResetTimeout config = 0 then config\<lparr>ResetTimeout := 60 * second\<rparr> else config);
         config = (if SuccessThreshold config = 0 then config\<lparr>SuccessThreshold := 2\<rparr> else config);
         config = (if Timeout config = 0 then config\<lparr>Timeout := 30 * second\<rparr> else config)
     in \<lparr>cb_config = config, cb_state = StateClosed, cb_failures = 0, cb_successes = 0,
         cb_lastFailureTime = t0, cb_lastStateChange = now, cb_onStateChange = None,
         cb_spawned = []\<rparr>)"

definition setState :: "State \<Rightarrow> time \<Rightarrow> CircuitBreaker \<Rightarrow> CircuitBreaker" where
  "setState newState now cb = (
     if cb_state cb = newState then cb
     else let oldState = cb_state cb;
              cb = cb\<lparr>cb_state := newState, cb_lastStateChange := now\<rparr>;
              cb = (if newState = StateClosed then cb\<lparr>cb_failures := 0, cb_successes := 0\<rparr>
                    else if newState = StateHalfOpen then cb\<lparr>cb_successes := 0\<rparr> else cb)
          in case cb_onStateChange cb of None \<Rightarrow> cb
             | Some f \<Rightarrow> cb\<lparr>cb_spawned := cb_spawned cb @ [(f, oldState, newState)]\<rparr>)"

text \<open>
  \<^verbatim>\<open>beforeCall\<close> reads the clock for \<^verbatim>\<open>time.Since\<close> (\<open>now\<close>) and again in
  \<open>setState\<close> (\<open>now'\<close>); \<^verbatim>\<open>onFailure\<close> likewise.
\<close>

definition beforeCall :: "time \<Rightarrow> time \<Rightarrow> CircuitBreaker \<Rightarrow> err option \<times> CircuitBreaker" where
  "beforeCall now now' cb = (case cb_state cb of
     StateOpen \<Rightarrow>
       (if time_sub now (cb_lastStateChange cb) > ResetTimeout (cb_config cb)
        then (None, setState StateHalfOpen now' cb)
        else (Some ErrCircuitOpen, cb))
   | StateHalfOpen \<Rightarrow> (None, cb)
   | StateClosed \<Rightarrow> (None, cb))"

definition onFailure :: "time \<Rightarrow> time \<Rightarrow> CircuitBreaker \<Rightarrow> CircuitBreaker" where
  "onFailure now now' cb = (
     let cb = cb\<lparr>cb_failures := wrap64 (cb_failures cb + 1), cb_successes := 0,
                 cb_lastFailureTime := now\<rparr>
     in case cb_state cb of
          StateClosed \<Rightarrow>
            (if cb_failures cb \<ge> MaxFailures (cb_config cb) then setState StateOpen now' cb else cb)
        | StateHalfOpen \<Rightarrow> setState StateOpen now' cb
        | StateOpen \<Rightarrow> cb)"

definition onSuccess :: "time \<Rightarrow> CircuitBreaker \<Rightarrow> CircuitBreaker" where
  "onSuccess now' cb = (case cb_state cb of
     StateClosed \<Rightarrow> cb\<lparr>cb_failures := 0\<rparr>
   | StateHalfOpen \<Rightarrow>
       (let cb = cb\<lparr>cb_successes := wrap64 (cb_successes cb + 1)\<rparr>
        in if cb_successes cb \<ge> SuccessThreshold (cb_config cb) then setState StateClosed now' cb
           else cb)
   | StateOpen \<Rightarrow> cb)"

definition afterCall :: "err option \<Rightarrow> time \<Rightarrow> time \<Rightarrow> CircuitBreaker \<Rightarrow> CircuitBreaker" where
  "afterCall e now now' cb = (if e \<noteq> None then onFailure now now' cb else onSuccess now' cb)"

text \<open>
  \<^verbatim>\<open>Call\<close> of one goroutine while no other is inside: the function \<open>fn\<close> runs on the
  state \<open>w\<close> of the world. \<open>t0\<close> to \<open>t3\<close> are the readings of the clock.
\<close>

definition Call :: "('w \<Rightarrow> err option \<times> 'w) \<Rightarrow> time \<Rightarrow> time \<Rightarrow> time \<Rightarrow> time
    \<Rightarrow> CircuitBreaker \<Rightarrow> 'w \<Rightarrow> err option \<times> CircuitBreaker \<times> 'w" where
  "Call fn t0 t1 t2 t3 cb w = (case beforeCall t0 t1 cb of
     (Some e, cb') \<Rightarrow> (Some e, cb', w)
   | (None, cb') \<Rightarrow> (case fn w of (e, w') \<Rightarrow> (e, afterCall e t2 t3 cb', w')))"

definition breaker_State :: "CircuitBreaker \<Rightarrow> State" where
  "breaker_State cb = cb_state cb"

definition OnStateChange :: "nat option \<Rightarrow> CircuitBreaker \<Rightarrow> CircuitBreaker" where
  "OnStateChange fn cb = cb\<lparr>cb_onStateChange := fn\<rparr>"

definition breaker_Stats :: "CircuitBreaker \<Rightarrow> State \<times> int \<times> int" where
  "breaker_Stats cb = (cb_state cb, cb_failures cb, cb_successes cb)"

text \<open>
  Several goroutines: \<open>bs_inflight\<close> counts those between \<open>beforeCall\<close> and
  \<open>afterCall\<close>. Each critical section is one step; the clock readings are arbitrary.
\<close>

record breaker_sys =
  bs_cb :: CircuitBreaker
  bs_inflight :: nat

inductive breaker_step :: "breaker_sys \<Rightarrow> breaker_sys \<Rightarrow> bool" where
  enter: "beforeCall now now' (bs_cb s) = (None, cb') \<Longrightarrow>
     breaker_step s (s\<lparr>bs_cb := cb', bs_inflight := Suc (bs_inflight s)\<rparr>)"
| refused: "beforeCall now now' (bs_cb s) = (Some e, cb') \<Longrightarrow> breaker_step s (s\<lparr>bs_cb := cb'\<rparr>)"
| leave: "bs_inflight s = Suc n \<Longrightarrow>
     breaker_step s (s\<lparr>bs_cb := afterCall e now now' (bs_cb s), bs_inflight := n\<rparr>)"
| register: "breaker_step s (s\<lparr>bs_cb := OnStateChange fn (bs_cb s)\<rparr>)"

inductive_simps breaker_step_iff: "breaker_step s t"

text \<open>The invariant of the counters, for positive limits that fit an \<^verbatim>\<open>int\<close>.\<close>

definition config_ok :: "breaker_Config \<Rightarrow> bool" where
  "config_ok c \<longleftrightarrow> 0 < MaxFailures c \<and> MaxFailures c \<le> max_int64
     \<and> 0 < SuccessThreshold c \<and> SuccessThreshold c \<le> max_int64"

definition breaker_init :: "breaker_sys \<Rightarrow> bool" where
  "breaker_init s \<longleftrightarrow> (\<exists>c t0 now. s = \<lparr>bs_cb = breaker_New t0 c now, bs_inflight = 0\<rparr>)
     \<and> config_ok (cb_config (bs_cb s))"

definition cb_inv :: "CircuitBreaker \<Rightarrow> bool" where
  [inv_defs]: "cb_inv cb \<longleftrightarrow> config_ok (cb_config cb) \<and> (case cb_state cb of
     StateClosed \<Rightarrow> cb_successes cb = 0 \<and> 0 \<le> cb_failures cb
       \<and> cb_failures cb < MaxFailures (cb_config cb)
   | StateHalfOpen \<Rightarrow> 0 \<le> cb_successes cb \<and> cb_successes cb < SuccessThreshold (cb_config cb)
   | StateOpen \<Rightarrow> cb_successes cb = 0)"

text \<open>The abstract machine: the transitions of the circuit-breaker pattern.\<close>

inductive transition :: "State \<Rightarrow> State \<Rightarrow> bool" where
  trip: "transition StateClosed StateOpen"
| probe: "transition StateOpen StateHalfOpen"
| reopen: "transition StateHalfOpen StateOpen"
| recover: "transition StateHalfOpen StateClosed"

text \<open>A path of transitions from one state to another, as a list of notifications.\<close>

fun transition_path :: "State \<Rightarrow> (State \<times> State) list \<Rightarrow> State \<Rightarrow> bool" where
  "transition_path a [] b = (a = b)"
| "transition_path a ((x, y) # ns) b = (x = a \<and> transition x y \<and> transition_path y ns b)"

text \<open>A run of critical sections of any goroutines, with the results of \<open>beforeCall\<close>.\<close>

datatype cb_op = Before time time | After "err option" time time

fun run_op :: "cb_op \<Rightarrow> CircuitBreaker \<Rightarrow> err option \<times> CircuitBreaker" where
  "run_op (Before now now') cb = beforeCall now now' cb"
| "run_op (After e now now') cb = (None, afterCall e now now' cb)"

fun run_ops :: "cb_op list \<Rightarrow> CircuitBreaker \<Rightarrow> CircuitBreaker" where
  "run_ops [] cb = cb"
| "run_ops (p # ps) cb = run_ops ps (snd (run_op p cb))"

text \<open>An open breaker inside its reset window.\<close>

definition open_since :: "time \<Rightarrow> CircuitBreaker \<Rightarrow> bool" where
  "open_since t cb \<longleftrightarrow> cb_state cb = StateOpen \<and> cb_lastStateChange cb = t"

definition within_reset :: "time \<Rightarrow> duration \<Rightarrow> cb_op \<Rightarrow> bool" where
  "within_reset t d p = (case p of Before now now' \<Rightarrow> time_sub now t \<le> d | After e now now' \<Rightarrow> True)"

text \<open>\<open>n\<close> failing, and \<open>n\<close> succeeding, calls one after the other, at given times.\<close>

fun fail_calls :: "err \<Rightarrow> (nat \<Rightarrow> time) \<Rightarrow> nat \<Rightarrow> CircuitBreaker \<Rightarrow> CircuitBreaker" where
  "fail_calls e clk 0 cb = cb"
| "fail_calls e clk (Suc n) cb =
     fail_calls e (\<lambda>i. clk (i + 4)) n
       (fst (snd (Call (\<lambda>w. (Some e, w)) (clk 0) (clk 1) (clk 2) (clk 3) cb ())))"

fun ok_calls :: "(nat \<Rightarrow> time) \<Rightarrow> nat \<Rightarrow> CircuitBreaker \<Rightarrow> CircuitBreaker" where
  "ok_calls clk 0 cb = cb"
| "ok_calls clk (Suc n) cb =
     ok_calls (\<lambda>i. clk (i + 4)) n
       (fst (snd (Call (\<lambda>w. (None, w)) (clk 0) (clk 1) (clk 2) (clk 3) cb ())))"

text \<open>A small breaker with a registered callback, used to evaluate the definitions.\<close>

definition sample_config :: breaker_Config where
  "sample_config = \<lparr>MaxFailures = 2, ResetTimeout = 100, SuccessThreshold = 2, Timeout = 0\<rparr>"

definition sample_breaker :: CircuitBreaker where
  "sample_breaker = OnStateChange (Some 7) (breaker_New 0 sample_config 10)"

section \<open>Lemmas\<close>

lemmas breaker_defs = beforeCall_def afterCall_def onFailure_def onSuccess_def setState_def
  OnStateChange_def Let_def

lemma setState_state [simp]: "cb_state (setState s now cb) = s"
  by (auto simp: setState_def Let_def split: option.splits)

lemma setState_config [simp]: "cb_config (setState s now cb) = cb_config cb"
  by (auto simp: setState_def Let_def split: option.splits)

lemma config_kept [simp]:
  "cb_config (snd (beforeCall now now' cb)) = cb_config cb"
  "cb_config (onFailure now now' cb) = cb_config cb"
  "cb_config (onSuccess now' cb) = cb_config cb"
  "cb_config (afterCall e now now' cb) = cb_config cb"
  "cb_config (OnStateChange fn cb) = cb_config cb"
  by (auto simp: beforeCall_def onFailure_def onSuccess_def afterCall_def OnStateChange_def Let_def
      split: State.splits)

lemma succ_no_wrap: "0 \<le> x \<Longrightarrow> x < max_int64 \<Longrightarrow> wrap64 (x + 1) = x + 1"
  by (rule wrap64_id) (auto simp: in_int64_def min_int64_def)

lemma setState_counters [simp]:
  "cb_successes (setState s now cb) =
     (if cb_state cb \<noteq> s \<and> s \<noteq> StateOpen then 0 else cb_successes cb)"
  "cb_failures (setState s now cb) =
     (if cb_state cb \<noteq> s \<and> s = StateClosed then 0 else cb_failures cb)"
  by (cases s; auto simp: setState_def Let_def split: option.splits)+

lemma cb_inv_New:
  "config_ok (cb_config (breaker_New t0 c now)) \<Longrightarrow> cb_inv (breaker_New t0 c now)"
  by (simp add: cb_inv_def breaker_New_def config_ok_def Let_def)

lemma cb_inv_beforeCall: "cb_inv cb \<Longrightarrow> cb_inv (snd (beforeCall now now' cb))"
  by (cases "cb_state cb") (auto simp: cb_inv_def beforeCall_def config_ok_def)

lemma cb_inv_afterCall: "cb_inv cb \<Longrightarrow> cb_inv (afterCall e now now' cb)"
  by (cases "cb_state cb")
    (auto simp: cb_inv_def afterCall_def onFailure_def onSuccess_def Let_def config_ok_def succ_no_wrap)

lemma cb_inv_OnStateChange: "cb_inv cb \<Longrightarrow> cb_inv (OnStateChange fn cb)"
  by (simp add: cb_inv_def OnStateChange_def cong: State.case_cong)

lemmas cb_inv_ops = cb_inv_beforeCall cb_inv_afterCall cb_inv_OnStateChange

lemma breaker_step_inv: "cb_inv (bs_cb s) \<Longrightarrow> breaker_step s t \<Longrightarrow> cb_inv (bs_cb t)"
  by (auto simp: breaker_step_iff dest!: arg_cong [where f = snd] intro: cb_inv_ops)

interpretation breaker_sys: inv_system breaker_init breaker_step "\<lambda>s. cb_inv (bs_cb s)"
  by unfold_locales (auto simp: breaker_init_def cb_inv_New breaker_step_inv)

lemma beforeCall_transition:
  "cb_state (snd (beforeCall now now' cb)) \<noteq> cb_state cb \<Longrightarrow>
   transition (cb_state cb) (cb_state (snd (beforeCall now now' cb)))"
  by (cases "cb_state cb") (auto simp: beforeCall_def intro: transition.intros split: if_splits)

lemma afterCall_transition:
  "cb_state (afterCall e now now' cb) \<noteq> cb_state cb \<Longrightarrow>
   transition (cb_state cb) (cb_state (afterCall e now now' cb))"
  by (cases "cb_state cb")
    (auto simp: afterCall_def onFailure_def onSuccess_def Let_def intro: transition.intros split: if_splits)


lemma breaker_step_transition:
  "breaker_step s t \<Longrightarrow> cb_state (bs_cb t) \<noteq> cb_state (bs_cb s) \<Longrightarrow>
   transition (cb_state (bs_cb s)) (cb_state (bs_cb t))"
  using beforeCall_transition afterCall_transition
  by (auto simp: breaker_step_iff OnStateChange_def dest!: arg_cong [where f = snd])

lemma setState_spawned:
  "cb_onStateChange cb = Some f \<Longrightarrow> cb_spawned (setState s now cb) =
     (if cb_state cb = s then cb_spawned cb else cb_spawned cb @ [(f, cb_state cb, s)])"
  by (auto simp: setState_def Let_def)

lemma setState_callback [simp]: "cb_onStateChange (setState s now cb) = cb_onStateChange cb"
  by (auto simp: setState_def Let_def split: option.splits)

lemma run_op_callback [simp]: "cb_onStateChange (snd (run_op p cb)) = cb_onStateChange cb"
  by (cases p; cases "cb_state cb")
    (auto simp: beforeCall_def afterCall_def onFailure_def onSuccess_def Let_def)

lemma run_op_spawned:
  "cb_onStateChange cb = Some f \<Longrightarrow> cb_spawned (snd (run_op p cb)) = cb_spawned cb @
     (if cb_state (snd (run_op p cb)) = cb_state cb then []
      else [(f, cb_state cb, cb_state (snd (run_op p cb)))])"
  by (cases p; cases "cb_state cb")
    (auto simp: beforeCall_def afterCall_def onFailure_def onSuccess_def Let_def setState_spawned)

lemma run_op_transition:
  "cb_state (snd (run_op p cb)) \<noteq> cb_state cb \<Longrightarrow>
   transition (cb_state cb) (cb_state (snd (run_op p cb)))"
  by (cases p) (auto intro: beforeCall_transition afterCall_transition)

lemma transition_path_append:
  "transition_path a (ms @ ns) c \<longleftrightarrow> (\<exists>b. transition_path a ms b \<and> transition_path b ns c)"
  by (induction ms arbitrary: a) auto

lemma run_ops_path:
  "cb_onStateChange cb = Some f \<Longrightarrow> transition_path a (map snd (cb_spawned cb)) (cb_state cb) \<Longrightarrow>
   transition_path a (map snd (cb_spawned (run_ops ps cb))) (cb_state (run_ops ps cb))"
proof (induction ps arbitrary: cb)
  case Nil
  then show ?case by simp
next
  case (Cons p ps)
  have "transition_path a (map snd (cb_spawned (snd (run_op p cb)))) (cb_state (snd (run_op p cb)))"
    using Cons.prems run_op_transition [of p cb]
    by (auto simp: run_op_spawned transition_path_append)
  then show ?case using Cons.IH [of "snd (run_op p cb)"] Cons.prems by simp
qed

lemma run_op_open:
  assumes "open_since t cb" and "within_reset t (ResetTimeout (cb_config cb)) p"
  shows "open_since t (snd (run_op p cb))" and "cb_config (snd (run_op p cb)) = cb_config cb"
    and "p = Before now now' \<Longrightarrow> fst (run_op p cb) = Some ErrCircuitOpen"
  using assms
  by (cases p; simp add: open_since_def within_reset_def beforeCall_def afterCall_def onFailure_def
      onSuccess_def Let_def)+

lemma run_ops_open:
  "open_since t cb \<Longrightarrow> list_all (within_reset t (ResetTimeout (cb_config cb))) ps \<Longrightarrow>
   open_since t (run_ops ps cb) \<and> cb_config (run_ops ps cb) = cb_config cb"
  by (induction ps arbitrary: cb) (auto simp: run_op_open)

lemma Call_closed_fail:
  assumes "cb_state cb = StateClosed" and "0 \<le> cb_failures cb"
    and "cb_failures cb < MaxFailures (cb_config cb)" and "MaxFailures (cb_config cb) \<le> max_int64"
  shows "cb_state (fst (snd (Call (\<lambda>w. (Some e, w)) t0 t1 t2 t3 cb w))) =
      (if cb_failures cb + 1 < MaxFailures (cb_config cb) then StateClosed else StateOpen)"
    and "cb_failures (fst (snd (Call (\<lambda>w. (Some e, w)) t0 t1 t2 t3 cb w))) = cb_failures cb + 1"
    and "cb_config (fst (snd (Call (\<lambda>w. (Some e, w)) t0 t1 t2 t3 cb w))) = cb_config cb"
  using assms by (simp_all add: Call_def beforeCall_def afterCall_def onFailure_def Let_def succ_no_wrap)

lemma fail_calls_closed:
  "cb_state cb = StateClosed \<Longrightarrow> 0 \<le> cb_failures cb \<Longrightarrow> MaxFailures (cb_config cb) \<le> max_int64 \<Longrightarrow>
   0 < n \<Longrightarrow> cb_failures cb + int n \<le> MaxFailures (cb_config cb) \<Longrightarrow>
   cb_failures (fail_calls e clk n cb) = cb_failures cb + int n \<and>
   cb_state (fail_calls e clk n cb) =
     (if cb_failures cb + int n < MaxFailures (cb_config cb) then StateClosed else StateOpen)"
proof (induction n arbitrary: cb clk)
  case 0
  then show ?case by simp
next
  case (Suc n)
  let ?cb = "fst (snd (Call (\<lambda>w. (Some e, w)) (clk 0) (clk 1) (clk 2) (clk 3) cb ()))"
  show ?case
  proof (cases "n = 0")
    case True
    with Suc.prems show ?thesis by (simp add: Call_closed_fail)
  next
    case False
    with Suc.prems Suc.IH [of ?cb "\<lambda>i. clk (i + 4)"] show ?thesis
      by (simp add: Call_closed_fail algebra_simps)
  qed
qed

lemma Call_half_open_ok:
  assumes "cb_state cb = StateHalfOpen" and "0 \<le> cb_successes cb"
    and "cb_successes cb < SuccessThreshold (cb_config cb)"
    and "SuccessThreshold (cb_config cb) \<le> max_int64"
  shows "cb_state (fst (snd (Call (\<lambda>w. (None, w)) t0 t1 t2 t3 cb w))) =
      (if cb_successes cb + 1 < SuccessThreshold (cb_config cb) then StateHalfOpen else StateClosed)"
    and "cb_successes (fst (snd (Call (\<lambda>w. (None, w)) t0 t1 t2 t3 cb w))) =
      (if cb_successes cb + 1 < SuccessThreshold (cb_config cb) then cb_successes cb + 1 else 0)"
    and "cb_failures (fst (snd (Call (\<lambda>w. (None, w)) t0 t1 t2 t3 cb w))) =
      (if cb_successes cb + 1 < SuccessThreshold (cb_config cb) then cb_failures cb else 0)"
    and "cb_config (fst (snd (Call (\<lambda>w. (None, w)) t0 t1 t2 t3 cb w))) = cb_config cb"
  using assms by (simp_all add: Call_def beforeCall_def afterCall_def onSuccess_def Let_def succ_no_wrap)

lemma ok_calls_half_open:
  "cb_state cb = StateHalfOpen \<Longrightarrow> 0 \<le> cb_successes cb \<Longrightarrow>
   SuccessThreshold (cb_config cb) \<le> max_int64 \<Longrightarrow> 0 < n \<Longrightarrow>
   cb_successes cb + int n \<le> SuccessThreshold (cb_config cb) \<Longrightarrow>
   breaker_Stats (ok_calls clk n cb) =
     (if cb_successes cb + int n < SuccessThreshold (cb_config cb)
      then (StateHalfOpen, cb_failures cb, cb_successes cb + int n)
      else (StateClosed, 0, 0))"
proof (induction n arbitrary: cb clk)
  case 0
  then show ?case by simp
next
  case (Suc n)
  let ?cb = "fst (snd (Call (\<lambda>w. (None, w)) (clk 0) (clk 1) (clk 2) (clk 3) cb ()))"
  show ?case
  proof (cases "n = 0")
    case True
    with Suc.prems show ?thesis by (simp add: Call_half_open_ok breaker_Stats_def)
  next
    case False
    with Suc.prems Suc.IH [of ?cb "\<lambda>i. clk (i + 4)"] show ?thesis
      by (simp add: Call_half_open_ok algebra_simps)
  qed
qed

section \<open>Properties\<close>

text \<open>C29 (invariant). In every state that any interleaving of goroutines inside
  \<^verbatim>\<open>Call\<close> reaches, a closed breaker has counted fewer than \<open>MaxFailures\<close> failures
  and no success, a half-open one fewer than \<open>SuccessThreshold\<close> successes, and an open
  one no success.\<close>

theorem breaker_counters:
  assumes "reach breaker_init breaker_step s"
  shows "case cb_state (bs_cb s) of
      StateClosed \<Rightarrow> 0 \<le> cb_failures (bs_cb s) \<and> cb_successes (bs_cb s) = 0
        \<and> cb_failures (bs_cb s) < MaxFailures (cb_config (bs_cb s))
    | StateHalfOpen \<Rightarrow> 0 \<le> cb_successes (bs_cb s)
        \<and> cb_successes (bs_cb s) < SuccessThreshold (cb_config (bs_cb s))
    | StateOpen \<Rightarrow> cb_successes (bs_cb s) = 0"
  using breaker_sys.reach_inv [OF assms] by (simp add: cb_inv_def split: State.splits)

lemmas sample_simps = sample_breaker_def sample_config_def breaker_New_def OnStateChange_def
  second_def config_ok_def max_int64_def min_int64_def time_sub_def Let_def

lemma sample_init: "breaker_init \<lparr>bs_cb = breaker_New 0 sample_config 10, bs_inflight = 0\<rparr>"
  unfolding breaker_init_def by (intro conjI exI, rule refl) (simp add: sample_simps)

theorem breaker_counters_witness:
  "reach breaker_init breaker_step \<lparr>bs_cb = breaker_New 0 sample_config 10, bs_inflight = 1\<rparr>
   \<and> cb_failures (breaker_New 0 sample_config 10) < 2"
proof -
  let ?s = "\<lparr>bs_cb = breaker_New 0 sample_config 10, bs_inflight = 0\<rparr>"
  have "breaker_step ?s (?s\<lparr>bs_cb := breaker_New 0 sample_config 10, bs_inflight := Suc 0\<rparr>)"
    using breaker_step.enter [of 0 0 ?s "breaker_New 0 sample_config 10"]
    by (simp add: beforeCall_def sample_simps)
  with reach_init [where init = breaker_init, OF sample_init]
  have r: "reach breaker_init breaker_step \<lparr>bs_cb = breaker_New 0 sample_config 10, bs_inflight = 1\<rparr>"
    by (auto intro: reach_step)
  then show ?thesis using breaker_counters [OF r] by (simp add: sample_simps)
qed

text \<open>C30 (refinement). Whatever the goroutines do, the breaker only moves along the four
  edges of the circuit-breaker pattern: closed to open, open to half-open, half-open to
  open or closed; it never goes from open to closed without a probe.\<close>

theorem breaker_refines_pattern:
  "breaker_step s t \<Longrightarrow>
   cb_state (bs_cb t) = cb_state (bs_cb s) \<or> transition (cb_state (bs_cb s)) (cb_state (bs_cb t))"
  using breaker_step_transition by blast

theorem breaker_refines_pattern_witness:
  "let s = \<lparr>bs_cb = sample_breaker\<lparr>cb_state := StateOpen\<rparr>, bs_inflight = 0\<rparr>;
       t = s\<lparr>bs_cb := snd (beforeCall 500 501 (bs_cb s)), bs_inflight := 1\<rparr>
   in breaker_step s t \<and> cb_state (bs_cb t) = StateHalfOpen \<and> transition StateOpen StateHalfOpen"
proof -
  let ?s = "\<lparr>bs_cb = sample_breaker\<lparr>cb_state := StateOpen\<rparr>, bs_inflight = 0\<rparr>"
  let ?t = "?s\<lparr>bs_cb := snd (beforeCall 500 501 (bs_cb ?s)), bs_inflight := Suc 0\<rparr>"
  have st: "breaker_step ?s ?t"
    using breaker_step.enter [of 500 501 ?s "snd (beforeCall 500 501 (bs_cb ?s))"]
    by (simp add: beforeCall_def sample_simps)
  have half: "cb_state (bs_cb ?t) = StateHalfOpen"
    by (simp add: beforeCall_def sample_simps)
  from breaker_refines_pattern [OF st] half st show ?thesis by simp
qed

text \<open>C10 (safety). Once open, the breaker refuses every call until the reset timeout has
  passed: calls still in flight may succeed or fail and further calls may arrive, but as
  long as no attempt is made later than \<open>ResetTimeout\<close> after the breaker opened it stays
  open, its reset window is not extended, and the next attempt within the window gets
  \<open>ErrCircuitOpen\<close> without running its function.\<close>

theorem breaker_open_window:
  assumes "open_since t cb"
    and "list_all (within_reset t (ResetTimeout (cb_config cb))) ps"
    and "time_sub t0 t \<le> ResetTimeout (cb_config cb)"
  shows "open_since t (run_ops ps cb) \<and>
    Call fn t0 t1 t2 t3 (run_ops ps cb) w = (Some ErrCircuitOpen, run_ops ps cb, w)"
  using run_ops_open [OF assms(1,2)] assms(3)
  by (simp add: Call_def beforeCall_def open_since_def)

theorem breaker_open_window_witness:
  "let cb = fail_calls EOF (\<lambda>i. 20) 2 sample_breaker;
       ps = [Before 60 60, After None 70 70, After (Some EOF) 80 80, Before 110 110]
   in open_since 20 cb \<and> open_since 20 (run_ops ps cb)
      \<and> Call (\<lambda>w. (None, w + 1)) 120 120 121 121 (run_ops ps cb) (5 :: nat)
          = (Some ErrCircuitOpen, run_ops ps cb, 5)"
proof -
  let ?cb = "fail_calls EOF (\<lambda>i. 20) 2 sample_breaker"
  let ?ps = "[Before 60 60, After None 70 70, After (Some EOF) 80 80, Before 110 110]"
  have o: "open_since 20 ?cb" and r: "ResetTimeout (cb_config ?cb) = 100"
    by (simp_all add: eval_nat_numeral Call_def breaker_defs open_since_def sample_simps wrap64_def)
  then have "list_all (within_reset 20 (ResetTimeout (cb_config ?cb))) ?ps"
    and "time_sub 120 20 \<le> ResetTimeout (cb_config ?cb)"
    by (simp_all add: within_reset_def time_sub_def min_int64_def max_int64_def)
  from breaker_open_window [OF o this, of "\<lambda>w. (None, w + 1)" 120 121 121 "5 :: nat"] o
  show ?thesis unfolding Let_def by blast
qed

text \<open>C35 (functional). From a closed breaker with a clean failure count, fewer than
  \<open>MaxFailures\<close> failing calls in a row leave it closed, and the call that makes the
  count \<open>MaxFailures\<close> opens it.\<close>

theorem breaker_trips_exactly:
  assumes "cb_state cb = StateClosed" and "cb_failures cb = 0"
    and "MaxFailures (cb_config cb) \<le> max_int64"
    and "0 < n" and "int n \<le> MaxFailures (cb_config cb)"
  shows "cb_failures (fail_calls e clk n cb) = int n \<and>
    (cb_state (fail_calls e clk n cb) = StateOpen \<longleftrightarrow> int n = MaxFailures (cb_config cb))"
  using fail_calls_closed [of cb n e clk] assms by auto

theorem breaker_trips_exactly_witness:
  "cb_state (fail_calls EOF (\<lambda>i. 20 + int i) 2 sample_breaker) = StateOpen
   \<and> cb_state (fail_calls EOF (\<lambda>i. 20 + int i) 1 sample_breaker) \<noteq> StateOpen"
  using breaker_trips_exactly [of sample_breaker 2 EOF "\<lambda>i. 20 + int i"]
    breaker_trips_exactly [of sample_breaker 1 EOF "\<lambda>i. 20 + int i"]
  by (simp add: sample_simps)

text \<open>C36 (liveness). A half-open breaker closes after \<open>SuccessThreshold\<close> successful calls
  in a row, with both counters back at zero, and not before.\<close>

theorem breaker_recovers:
  assumes "cb_state cb = StateHalfOpen" and "cb_successes cb = 0"
    and "SuccessThreshold (cb_config cb) \<le> max_int64"
    and "0 < n" and "int n \<le> SuccessThreshold (cb_config cb)"
  shows "breaker_Stats (ok_calls clk n cb) =
    (if int n = SuccessThreshold (cb_config cb) then (StateClosed, 0, 0)
     else (StateHalfOpen, cb_failures cb, int n))"
  using ok_calls_half_open [of cb n clk] assms by auto

theorem breaker_recovers_witness:
  "breaker_Stats (ok_calls (\<lambda>i. int i) 2 (sample_breaker\<lparr>cb_state := StateHalfOpen, cb_failures := 9\<rparr>))
   = (StateClosed, 0, 0)"
  using breaker_recovers [of "sample_breaker\<lparr>cb_state := StateHalfOpen, cb_failures := 9\<rparr>" 2 "\<lambda>i. int i"]
  by (simp add: sample_simps)

text \<open>The callback goroutines spawned by \<open>setState\<close> report every change of
  state once: in the order they are spawned they form a path of the pattern from the state
  in which the callback was registered to the current state.\<close>

theorem breaker_notifications_chain:
  assumes "cb_onStateChange cb = Some f" and "cb_spawned cb = []"
  shows "transition_path (cb_state cb) (map snd (cb_spawned (run_ops ps cb))) (cb_state (run_ops ps cb))"
  using run_ops_path [OF assms(1), of "cb_state cb" ps] assms(2) by simp

theorem breaker_notifications_chain_witness:
  "let ps = [After (Some EOF) 20 20, After (Some EOF) 21 21, Before 200 200, After (Some EOF) 201 201]
   in map snd (cb_spawned (run_ops ps sample_breaker))
        = [(StateClosed, StateOpen), (StateOpen, StateHalfOpen), (StateHalfOpen, StateOpen)]
      \<and> transition_path StateClosed (map snd (cb_spawned (run_ops ps sample_breaker))) StateOpen"
proof -
  let ?ps = "[After (Some EOF) 20 20, After (Some EOF) 21 21, Before 200 200, After (Some EOF) 201 201]"
  have "cb_onStateChange sample_breaker = Some 7" and "cb_spawned sample_breaker = []"
    and "cb_state sample_breaker = StateClosed" by (simp_all add: sample_simps)
  moreover have "map snd (cb_spawned (run_ops ?ps sample_breaker))
        = [(StateClosed, StateOpen), (StateOpen, StateHalfOpen), (StateHalfOpen, StateOpen)]"
    and "cb_state (run_ops ?ps sample_breaker) = StateOpen"
    by (simp_all add: breaker_defs sample_simps wrap64_def)
  ultimately show ?thesis using breaker_notifications_chain [of sample_breaker 7 ?ps] by simp
qed

text \<open>The half-open state does not limit the traffic: for every number
  \<open>n\<close> there is a reachable state in which the breaker is half-open and \<open>n\<close> calls run.\<close>

lemma half_open_admits_any_number:
  "\<exists>s. reach breaker_init breaker_step s \<and> cb_state (bs_cb s) = StateHalfOpen \<and> bs_inflight s = Suc n"
proof (induction n)
  case 0
  let ?c = "breaker_New 0 sample_config 10"
  let ?f = "afterCall (Some EOF) 20 20"
  have r0: "reach breaker_init breaker_step \<lparr>bs_cb = ?c, bs_inflight = 0\<rparr>"
    by (rule reach_init, rule sample_init)
  have r1: "reach breaker_init breaker_step \<lparr>bs_cb = ?c, bs_inflight = 1\<rparr>"
    using reach_step [OF r0 breaker_step.enter [of 0 0 _ ?c]] by (simp add: beforeCall_def sample_simps)
  have r2: "reach breaker_init breaker_step \<lparr>bs_cb = ?c, bs_inflight = 2\<rparr>"
    using reach_step [OF r1 breaker_step.enter [of 0 0 _ ?c]]
    by (simp add: beforeCall_def sample_simps numeral_2_eq_2)
  have r3: "reach breaker_init breaker_step \<lparr>bs_cb = ?f ?c, bs_inflight = 1\<rparr>"
    using reach_step [OF r2 breaker_step.leave [of _ 1 "Some EOF" 20 20]] by simp
  have r4: "reach breaker_init breaker_step \<lparr>bs_cb = ?f (?f ?c), bs_inflight = 0\<rparr>"
    using reach_step [OF r3 breaker_step.leave [of _ 0 "Some EOF" 20 20]] by simp
  have b: "beforeCall 500 500 (?f (?f ?c)) = (None, setState StateHalfOpen 500 (?f (?f ?c)))"
    by (simp add: breaker_defs sample_simps wrap64_def)
  have "reach breaker_init breaker_step
     \<lparr>bs_cb = setState StateHalfOpen 500 (?f (?f ?c)), bs_inflight = 1\<rparr>"
    using reach_step [OF r4 breaker_step.enter [of 500 500]] b by simp
  then show ?case by (intro exI conjI) (assumption, simp_all)
next
  case (Suc n)
  then obtain s where s: "reach breaker_init breaker_step s"
    "cb_state (bs_cb s) = StateHalfOpen" "bs_inflight s = Suc n" by blast
  have "reach breaker_init breaker_step (s\<lparr>bs_cb := bs_cb s, bs_inflight := Suc (bs_inflight s)\<rparr>)"
    using s(2) by (intro reach_step [OF s(1)] breaker_step.enter [of 0 0]) (simp add: beforeCall_def)
  then show ?case using s by (intro exI conjI) (assumption, simp_all)
qed

end
