(* ===== verification/Pool.thy ===== *)
theory Pool
  imports Errors Float64 "HOL-Library.Multiset"
begin

text \<open>
  The connection pool (\<^verbatim>\<open>src/pkg/pool/pool.go\<close>). A pooled connection is the identity of
  its network connection and its time of creation; \<open>p_closedConns\<close> records the network
  connections the pool closed, in order. \<^verbatim>\<open>Get\<close> is a locked section (\<open>get_locked\<close>) whose
  outcome says what the goroutine does next: it has a connection, it dials, it waits for
  the signal channel, or it fails. The step relation interleaves those phases for any
  number of goroutines, with \<^verbatim>\<open>put\<close>, the idle cleaner and \<^verbatim>\<open>Close\<close>. Shown: the limits
  and the conservation of connections under every interleaving, the order of reuse, what
  closing means, and two behaviours a user of the pool has to know.
\<close>

section \<open>Definitions\<close>

definition ErrPoolClosed :: err where
  "ErrPoolClosed = Sentinel ''pool.ErrPoolClosed'' ''connection pool is closed''"

definition ErrPoolExhausted :: err where
  "ErrPoolExhausted = Sentinel ''pool.ErrPoolExhausted'' ''connection pool exhausted''"

record pool_Config =
  MaxIdle :: int
  MaxActive :: int
  IdleTimeout :: duration
  MaxConnLifetime :: duration
  DialTimeout :: duration
  WaitTimeout :: duration

record pool_Conn =
  cn_conn :: nat
  cn_createdAt :: time

text \<open>\<open>p_waitChan\<close>: whether the channel of capacity one holds a signal.\<close>

record Pool =
  p_idle :: "pool_Conn list"
  p_active :: int
  p_config :: pool_Config
  p_closed :: bool
  p_waitChan :: bool
  p_closedConns :: "nat list"

definition pool_New :: "pool_Config \<Rightarrow> Pool" where
  "pool_New config = (
     let config = (if MaxIdle config \<le> 0 then config\<lparr>MaxIdle := 10\<rparr> else config);
         config = (if IdleTimeout config = 0 then config\<lparr>IdleTimeout := 5 * minute\<rparr> else config);
         config = (if MaxConnLifetime config = 0 then config\<lparr>MaxConnLifetime := 30 * minute\<rparr> else config);
         config = (if DialTimeout config = 0 then config\<lparr>DialTimeout := 10 * second\<rparr> else config)
     in \<lparr>p_idle = [], p_active = 0, p_config = config, p_closed = False, p_waitChan = False,
         p_closedConns = []\<rparr>)"

text \<open>\<^verbatim>\<open>time.NewTicker(p.config.IdleTimeout / 2)\<close>: \<open>None\<close> is the panic on an interval that is not positive.\<close>

definition cleaner_ticker :: "Pool \<Rightarrow> duration option" where
  "cleaner_ticker p = (let d = trunc_div (IdleTimeout (p_config p)) 2 in if d \<le> 0 then None else Some d)"

definition isValid :: "time \<Rightarrow> Pool \<Rightarrow> pool_Conn \<Rightarrow> bool" where
  "isValid now p conn \<longleftrightarrow>
     \<not> (MaxConnLifetime (p_config p) > 0
        \<and> time_sub now (cn_createdAt conn) > MaxConnLifetime (p_config p))"

definition close_raw :: "pool_Conn \<Rightarrow> Pool \<Rightarrow> Pool" where
  "close_raw conn p = p\<lparr>p_closedConns := p_closedConns p @ [cn_conn conn]\<rparr>"

text \<open>
  The loop of \<^verbatim>\<open>Get\<close> over the idle connections, from the end of the slice; \<open>clk i\<close> is
  the reading of the clock in its \<open>i\<close>-th round.
\<close>

function pop_loop :: "(nat \<Rightarrow> time) \<Rightarrow> Pool \<Rightarrow> pool_Conn option \<times> Pool" where
  "pop_loop clk p = (
     if p_idle p = [] then (None, p)
     else let conn = last (p_idle p); p = p\<lparr>p_idle := butlast (p_idle p)\<rparr>
          in if isValid (clk 0) p conn then (Some conn, p)
             else pop_loop (\<lambda>i. clk (Suc i)) (close_raw conn p))"
  by pat_completeness auto
termination
  by (relation "measure (\<lambda>(clk, p). length (p_idle p))") (auto simp: close_raw_def)

declare pop_loop.simps [simp del]

datatype get_outcome = GotConn pool_Conn | GetFails err | WaitSignal | DialNew

definition get_locked :: "(nat \<Rightarrow> time) \<Rightarrow> Pool \<Rightarrow> get_outcome \<times> Pool" where
  "get_locked clk p = (
     if p_closed p then (GetFails ErrPoolClosed, p)
     else case pop_loop clk p of
       (Some conn, p) \<Rightarrow> (GotConn conn, p\<lparr>p_active := wrap64 (p_active p + 1)\<rparr>)
     | (None, p) \<Rightarrow>
         (if MaxActive (p_config p) > 0 \<and> p_active p \<ge> MaxActive (p_config p) then
            (if WaitTimeout (p_config p) > 0 then (WaitSignal, p) else (GetFails ErrPoolExhausted, p))
          else (DialNew, p\<lparr>p_active := wrap64 (p_active p + 1)\<rparr>)))"

text \<open>What the goroutine does when the dial returns.\<close>

definition get_dialed :: "nat \<Rightarrow> time \<Rightarrow> pool_Conn" where
  "get_dialed rawConn now = \<lparr>cn_conn = rawConn, cn_createdAt = now\<rparr>"

definition get_dial_failed :: "err \<Rightarrow> Pool \<Rightarrow> err \<times> Pool" where
  "get_dial_failed e p = (Wrapf ''failed to dial: '' e [], p\<lparr>p_active := wrap64 (p_active p - 1)\<rparr>)"

text \<open>\<open>cerr\<close> is what closing the network connection returns.\<close>

definition put :: "(nat \<Rightarrow> err option) \<Rightarrow> time \<Rightarrow> pool_Conn \<Rightarrow> Pool \<Rightarrow> err option \<times> Pool" where
  "put cerr now conn p = (
     let p = p\<lparr>p_active := wrap64 (p_active p - 1)\<rparr>
     in if p_closed p \<or> \<not> isValid now p conn then (cerr (cn_conn conn), close_raw conn p)
        else if int (length (p_idle p)) \<ge> MaxIdle (p_config p) then (cerr (cn_conn conn), close_raw conn p)
        else (None, p\<lparr>p_idle := p_idle p @ [conn], p_waitChan := True\<rparr>))"

definition Conn_Close :: "(nat \<Rightarrow> err option) \<Rightarrow> time \<Rightarrow> pool_Conn \<Rightarrow> Pool \<Rightarrow> err option \<times> Pool" where
  "Conn_Close cerr now c p = put cerr now c p"

text \<open>One tick of \<^verbatim>\<open>cleanIdleConnections\<close>; \<open>None\<close>: the goroutine returns.\<close>

fun clean_loop :: "time \<Rightarrow> pool_Config \<Rightarrow> pool_Conn list \<Rightarrow> pool_Conn list \<Rightarrow> nat list \<Rightarrow> pool_Conn list \<times> nat list" where
  "clean_loop now c [] kept dead = (kept, dead)"
| "clean_loop now c (conn # conns) kept dead =
     (if IdleTimeout c > 0 \<and> time_sub now (cn_createdAt conn) > IdleTimeout c
      then clean_loop now c conns kept (dead @ [cn_conn conn])
      else clean_loop now c conns (kept @ [conn]) dead)"

definition clean_tick :: "time \<Rightarrow> Pool \<Rightarrow> Pool option" where
  "clean_tick now p = (if p_closed p then None
     else case clean_loop now (p_config p) (p_idle p) [] (p_closedConns p) of
       (kept, dead) \<Rightarrow> Some (p\<lparr>p_idle := kept, p_closedConns := dead\<rparr>))"

definition pool_Close :: "Pool \<Rightarrow> Pool" where
  "pool_Close p = (if p_closed p then p
     else p\<lparr>p_closed := True, p_closedConns := p_closedConns p @ map cn_conn (p_idle p), p_idle := []\<rparr>)"

definition pool_Stats :: "Pool \<Rightarrow> int \<times> int" where
  "pool_Stats p = (int (length (p_idle p)), p_active p)"

text \<open>
  Several goroutines: \<open>ps_dialing\<close> are inside the dial function, \<open>ps_waiting\<close> in the
  select on the signal channel, \<open>ps_held\<close> are the connections handed out and not yet
  returned, \<open>ps_dialed\<close> every network connection a dial ever returned.
\<close>

record pool_sys =
  ps_pool :: Pool
  ps_dialing :: nat
  ps_waiting :: nat
  ps_held :: "pool_Conn list"
  ps_dialed :: "nat list"

inductive pool_step :: "pool_sys \<Rightarrow> pool_sys \<Rightarrow> bool" where
  got: "get_locked clk (ps_pool s) = (GotConn conn, p) \<Longrightarrow>
     pool_step s (s\<lparr>ps_pool := p, ps_held := conn # ps_held s\<rparr>)"
| failed: "get_locked clk (ps_pool s) = (GetFails e, p) \<Longrightarrow> pool_step s (s\<lparr>ps_pool := p\<rparr>)"
| waits: "get_locked clk (ps_pool s) = (WaitSignal, p) \<Longrightarrow>
     pool_step s (s\<lparr>ps_pool := p, ps_waiting := Suc (ps_waiting s)\<rparr>)"
| dials: "get_locked clk (ps_pool s) = (DialNew, p) \<Longrightarrow>
     pool_step s (s\<lparr>ps_pool := p, ps_dialing := Suc (ps_dialing s)\<rparr>)"
| dialed: "ps_dialing s = Suc n \<Longrightarrow> raw \<notin> set (ps_dialed s) \<Longrightarrow>
     pool_step s (s\<lparr>ps_dialing := n, ps_held := get_dialed raw now # ps_held s,
                    ps_dialed := raw # ps_dialed s\<rparr>)"
| dial_failed: "ps_dialing s = Suc n \<Longrightarrow>
     pool_step s (s\<lparr>ps_dialing := n, ps_pool := snd (get_dial_failed e (ps_pool s))\<rparr>)"
| signal: "ps_waiting s = Suc n \<Longrightarrow> p_waitChan (ps_pool s) \<Longrightarrow>
     pool_step s (s\<lparr>ps_waiting := n, ps_pool := (ps_pool s)\<lparr>p_waitChan := False\<rparr>\<rparr>)"
| gives_up: "ps_waiting s = Suc n \<Longrightarrow> pool_step s (s\<lparr>ps_waiting := n\<rparr>)"
| returned: "conn \<in> set (ps_held s) \<Longrightarrow>
     pool_step s (s\<lparr>ps_pool := snd (Conn_Close cerr now conn (ps_pool s)),
                    ps_held := remove1 conn (ps_held s)\<rparr>)"
| tick: "clean_tick now (ps_pool s) = Some p \<Longrightarrow> pool_step s (s\<lparr>ps_pool := p\<rparr>)"
| closed: "pool_step s (s\<lparr>ps_pool := pool_Close (ps_pool s)\<rparr>)"

inductive_simps pool_step_iff: "pool_step s t"

definition pool_init :: "pool_sys \<Rightarrow> bool" where
  "pool_init s \<longleftrightarrow> (\<exists>c. s = \<lparr>ps_pool = pool_New c, ps_dialing = 0, ps_waiting = 0, ps_held = [], ps_dialed = []\<rparr>
     \<and> MaxActive c \<le> max_int64)"

text \<open>The open connections, and the invariant.\<close>

definition open_conns :: "pool_sys \<Rightarrow> nat" where
  "open_conns s = ps_dialing s + length (ps_held s) + length (p_idle (ps_pool s))"

definition all_conns :: "pool_sys \<Rightarrow> nat list" where
  "all_conns s = map cn_conn (ps_held s) @ map cn_conn (p_idle (ps_pool s)) @ p_closedConns (ps_pool s)"

definition pool_counts :: "pool_sys \<Rightarrow> bool" where
  [inv_defs]: "pool_counts s \<longleftrightarrow> (let p = ps_pool s; c = p_config p in
     p_active p = wrap64 (int (ps_dialing s) + int (length (ps_held s)))
     \<and> MaxActive c \<le> max_int64 \<and> 0 < MaxIdle c
     \<and> (MaxActive c > 0 \<longrightarrow> int (open_conns s) \<le> MaxActive c)
     \<and> int (length (p_idle p)) \<le> MaxIdle c
     \<and> (p_closed p \<longrightarrow> p_idle p = []))"

definition pool_conserves :: "pool_sys \<Rightarrow> bool" where
  [inv_defs]: "pool_conserves s \<longleftrightarrow> mset (all_conns s) = mset (ps_dialed s) \<and> distinct (ps_dialed s)"

definition pool_inv :: "pool_sys \<Rightarrow> bool" where
  [inv_defs]: "pool_inv s \<longleftrightarrow> pool_counts s \<and> pool_conserves s"

section \<open>Lemmas\<close>

text \<open>
  What the loop does: it splits the idle list into what stays, the connection it hands out,
  and the expired ones after it, which it closes from the end.
\<close>

lemma pop_loop_split:
  "pop_loop clk p = (r, p') \<Longrightarrow> \<exists>idle dead. p_idle p = idle @ (case r of None \<Rightarrow> [] | Some c \<Rightarrow> [c]) @ dead
     \<and> p' = p\<lparr>p_idle := idle, p_closedConns := p_closedConns p @ map cn_conn (rev dead)\<rparr>
     \<and> (r = None \<longrightarrow> idle = [])"
proof (induction clk p arbitrary: r p' rule: pop_loop.induct)
  case (1 clk p)
  let ?conn = "last (p_idle p)" and ?q = "p\<lparr>p_idle := butlast (p_idle p)\<rparr>"
  show ?case
  proof (cases "p_idle p = []")
    case True
    then show ?thesis using "1.prems" by (simp add: pop_loop.simps)
  next
    case ne: False
    show ?thesis
    proof (cases "isValid (clk 0) ?q ?conn")
      case True
      then have "r = Some ?conn \<and> p' = ?q" using "1.prems" ne by (auto simp: pop_loop.simps Let_def)
      then show ?thesis using ne by (intro exI [of _ "butlast (p_idle p)"] exI [of _ "[]"]) simp
    next
      case False
      then have "pop_loop (\<lambda>i. clk (Suc i)) (close_raw ?conn ?q) = (r, p')"
        using "1.prems" ne by (subst (asm) pop_loop.simps) (simp add: Let_def)
      from "1.IH" [OF ne refl refl False this] obtain idle dead where
        d: "butlast (p_idle p) = idle @ (case r of None \<Rightarrow> [] | Some c \<Rightarrow> [c]) @ dead"
        "p' = p\<lparr>p_idle := idle, p_closedConns := p_closedConns p @ [cn_conn ?conn] @ map cn_conn (rev dead)\<rparr>"
        "r = None \<longrightarrow> idle = []" by (auto simp: close_raw_def)
      have "p_idle p = (idle @ (case r of None \<Rightarrow> [] | Some c \<Rightarrow> [c]) @ dead) @ [?conn]"
        using append_butlast_last_id [OF ne] d(1) by simp
      then show ?thesis using d(2,3) by (intro exI [of _ idle] exI [of _ "dead @ [?conn]"]) simp
    qed
  qed
qed

lemma clean_loop_eq:
  "clean_loop now c conns kept dead =
     (kept @ filter (\<lambda>conn. \<not> (IdleTimeout c > 0 \<and> time_sub now (cn_createdAt conn) > IdleTimeout c)) conns,
      dead @ map cn_conn (filter (\<lambda>conn. IdleTimeout c > 0 \<and> time_sub now (cn_createdAt conn) > IdleTimeout c) conns))"
  by (induction conns arbitrary: kept dead) auto

lemmas pool_defs = get_locked_def put_def Conn_Close_def close_raw_def clean_tick_def pool_Close_def
  get_dial_failed_def get_dialed_def

text \<open>The locked section of \<open>Get\<close>, by outcome.\<close>

lemma get_locked_cases:
  assumes "get_locked clk p = (out, p')"
  obtains (shut) "p_closed p" "out = GetFails ErrPoolClosed" "p' = p"
  | (conn) c idle dead where "\<not> p_closed p" "out = GotConn c" "p_idle p = idle @ [c] @ dead"
      "p' = p\<lparr>p_idle := idle, p_active := wrap64 (p_active p + 1),
             p_closedConns := p_closedConns p @ map cn_conn (rev dead)\<rparr>"
  | (none) q where "\<not> p_closed p"
      "q = p\<lparr>p_idle := [], p_closedConns := p_closedConns p @ map cn_conn (rev (p_idle p))\<rparr>"
      "MaxActive (p_config p) > 0 \<and> p_active p \<ge> MaxActive (p_config p)"
      "out = (if WaitTimeout (p_config p) > 0 then WaitSignal else GetFails ErrPoolExhausted)" "p' = q"
  | (dial) "\<not> p_closed p" "\<not> (MaxActive (p_config p) > 0 \<and> p_active p \<ge> MaxActive (p_config p))"
      "out = DialNew"
      "p' = p\<lparr>p_idle := [], p_active := wrap64 (p_active p + 1),
             p_closedConns := p_closedConns p @ map cn_conn (rev (p_idle p))\<rparr>"
proof (cases "p_closed p")
  case True
  show thesis by (rule shut) (use True assms in \<open>simp_all add: get_locked_def\<close>)
next
  case False
  obtain r q where r: "pop_loop clk p = (r, q)" by (cases "pop_loop clk p")
  from pop_loop_split [OF this] obtain idle dead where
    d: "p_idle p = idle @ (case r of None \<Rightarrow> [] | Some c \<Rightarrow> [c]) @ dead"
      "q = p\<lparr>p_idle := idle, p_closedConns := p_closedConns p @ map cn_conn (rev dead)\<rparr>"
      "r = None \<longrightarrow> idle = []" by blast
  show thesis
  proof (cases r)
    case (Some c)
    then have "p' = q\<lparr>p_active := wrap64 (p_active p + 1)\<rparr>" "out = GotConn c"
      using assms False r d(2) by (simp_all add: get_locked_def)
    then show thesis using d Some False by (intro conn [of c idle dead]) simp_all
  next
    case None
    then have q: "q = p\<lparr>p_idle := [], p_closedConns := p_closedConns p @ map cn_conn (rev (p_idle p))\<rparr>"
      using d by simp
    show thesis
    proof (cases "MaxActive (p_config p) > 0 \<and> p_active p \<ge> MaxActive (p_config p)")
      case True
      then show thesis using assms False r None q
        by (intro none [of q]) (auto simp: get_locked_def split: if_splits)
    next
      case no: False
      then show thesis using assms False r None q by (intro dial) (auto simp: get_locked_def split: if_splits)
    qed
  qed
qed

lemma isValid_config: "p_config p = p_config q \<Longrightarrow> isValid now p = isValid now q"
  by (simp add: isValid_def fun_eq_iff)

lemma put_cases:
  obtains (dropped) "p_closed p \<or> \<not> isValid now p conn \<or> int (length (p_idle p)) \<ge> MaxIdle (p_config p)"
      "put cerr now conn p = (cerr (cn_conn conn), close_raw conn (p\<lparr>p_active := wrap64 (p_active p - 1)\<rparr>))"
  | (kept) "\<not> p_closed p" "isValid now p conn" "int (length (p_idle p)) < MaxIdle (p_config p)"
      "put cerr now conn p = (None, p\<lparr>p_active := wrap64 (p_active p - 1), p_idle := p_idle p @ [conn],
         p_waitChan := True\<rparr>)"
proof (cases "p_closed p \<or> \<not> isValid now p conn \<or> int (length (p_idle p)) \<ge> MaxIdle (p_config p)")
  case True
  show thesis
    by (rule dropped [OF True])
      (use True isValid_config [of "p\<lparr>p_active := wrap64 (p_active p - 1)\<rparr>" p now] in \<open>auto simp: put_def Let_def\<close>)
next
  case False
  show thesis
    by (rule kept)
      (use False isValid_config [of "p\<lparr>p_active := wrap64 (p_active p - 1)\<rparr>" p now] in \<open>auto simp: put_def Let_def\<close>)
qed

lemmas counts_unfold = pool_counts_def open_conns_def Let_def
lemmas conserves_unfold = pool_conserves_def all_conns_def

text \<open>Each phase of \<open>Get\<close> keeps the invariant, with its goroutine moved to the next phase.\<close>

definition after_get :: "get_outcome \<Rightarrow> Pool \<Rightarrow> pool_sys \<Rightarrow> pool_sys" where
  "after_get out p s = (case out of GotConn c \<Rightarrow> s\<lparr>ps_pool := p, ps_held := c # ps_held s\<rparr>
    | DialNew \<Rightarrow> s\<lparr>ps_pool := p, ps_dialing := Suc (ps_dialing s)\<rparr> | _ \<Rightarrow> s\<lparr>ps_pool := p\<rparr>)"

lemma active_exact:
  assumes "pool_counts s" and "MaxActive (p_config (ps_pool s)) > 0"
  shows "p_active (ps_pool s) = int (ps_dialing s) + int (length (ps_held s))"
proof -
  have "int (ps_dialing s) + int (length (ps_held s)) \<le> max_int64"
    using assms by (simp add: counts_unfold)
  then show ?thesis
    using assms(1) by (simp add: counts_unfold wrap64_id in_int64_def min_int64_def)
qed

lemma counts_get:
  assumes "pool_counts s" and "get_locked clk (ps_pool s) = (out, p)"
  shows "pool_counts (after_get out p s)"
  using assms(2)
proof (cases rule: get_locked_cases)
  case shut
  then show ?thesis using assms(1) by (simp add: after_get_def)
next
  case (conn c idle dead)
  have "wrap64 (p_active (ps_pool s) + 1) = wrap64 (int (ps_dialing s) + (1 + int (length (ps_held s))))"
    using assms(1) by (simp add: counts_unfold wrap64_add add.assoc add.commute [of 1])
  then show ?thesis using assms(1) conn by (auto simp: after_get_def counts_unfold)
next
  case (none q)
  then show ?thesis using assms(1) by (simp add: after_get_def counts_unfold)
next
  case dial
  have "wrap64 (p_active (ps_pool s) + 1) = wrap64 (1 + int (ps_dialing s) + int (length (ps_held s)))"
    using assms(1) by (simp add: counts_unfold wrap64_ops ac_simps)
  then show ?thesis using dial active_exact [OF assms(1)] assms(1) by (auto simp: after_get_def counts_unfold)
qed

lemma conserves_get:
  assumes "pool_conserves s" and "get_locked clk (ps_pool s) = (out, p)"
  shows "pool_conserves (after_get out p s)"
  using assms(2)
  by (cases rule: get_locked_cases)
    (use assms(1) in \<open>simp_all add: after_get_def conserves_unfold union_ac\<close>)

lemma inv_get: "pool_inv s \<Longrightarrow> get_locked clk (ps_pool s) = (out, p) \<Longrightarrow> pool_inv (after_get out p s)"
  using counts_get conserves_get by (simp add: pool_inv_def)

lemma inv_put:
  assumes "pool_inv s" and "conn \<in> set (ps_held s)"
  shows "pool_inv (s\<lparr>ps_pool := snd (Conn_Close cerr now conn (ps_pool s)), ps_held := remove1 conn (ps_held s)\<rparr>)"
    (is "pool_inv ?t")
proof -
  obtain xs ys where h: "ps_held s = xs @ conn # ys" "conn \<notin> set xs" using split_list_first [OF assms(2)] by blast
  then have r: "remove1 conn (xs @ conn # ys) = xs @ ys" by (simp add: remove1_append)
  show ?thesis
  proof (cases rule: put_cases [where cerr = cerr and now = now and conn = conn and p = "ps_pool s"])
    case dropped
    have "pool_counts ?t" using assms(1)
      by (auto simp: pool_inv_def counts_unfold Conn_Close_def dropped(2) close_raw_def h(1) r wrap64_diff)
    moreover have "pool_conserves ?t" using assms(1)
      by (simp add: pool_inv_def conserves_unfold Conn_Close_def dropped(2) close_raw_def h(1) r ac_simps)
    ultimately show ?thesis by (simp add: pool_inv_def)
  next
    case kept
    have "pool_counts ?t" using assms(1) kept(1,3)
      by (auto simp: pool_inv_def counts_unfold Conn_Close_def kept(4) h(1) r wrap64_diff)
    moreover have "pool_conserves ?t" using assms(1)
      by (simp add: pool_inv_def conserves_unfold Conn_Close_def kept(4) h(1) r ac_simps)
    ultimately show ?thesis by (simp add: pool_inv_def)
  qed
qed

lemma partition_conns: "mset (map f (filter (\<lambda>c. \<not> P c) xs)) + mset (map f (filter P xs)) = mset (map f xs)"
  by (induction xs) auto

lemma inv_tick: "pool_inv s \<Longrightarrow> clean_tick now (ps_pool s) = Some p \<Longrightarrow> pool_inv (s\<lparr>ps_pool := p\<rparr>)"
proof -
  assume i: "pool_inv s" and t: "clean_tick now (ps_pool s) = Some p"
  define old where "old conn \<longleftrightarrow> IdleTimeout (p_config (ps_pool s)) > 0
    \<and> time_sub now (cn_createdAt conn) > IdleTimeout (p_config (ps_pool s))" for conn :: pool_Conn
  have p: "p = (ps_pool s)\<lparr>p_idle := filter (\<lambda>c. \<not> old c) (p_idle (ps_pool s)),
      p_closedConns := p_closedConns (ps_pool s) @ map cn_conn (filter old (p_idle (ps_pool s)))\<rparr>"
    using t by (simp add: clean_tick_def clean_loop_eq old_def [abs_def] split: if_splits)
  have l: "length (filter (\<lambda>c. \<not> old c) (p_idle (ps_pool s))) \<le> length (p_idle (ps_pool s))" by simp
  have "mset (all_conns (s\<lparr>ps_pool := p\<rparr>)) = mset (map cn_conn (ps_held s)) + mset (p_closedConns (ps_pool s))
      + (mset (map cn_conn (filter (\<lambda>c. \<not> old c) (p_idle (ps_pool s))))
        + mset (map cn_conn (filter old (p_idle (ps_pool s)))))"
    unfolding p all_conns_def by (simp add: ac_simps)
  also have "\<dots> = mset (all_conns s)"
    unfolding partition_conns all_conns_def by (simp add: ac_simps)
  finally have "pool_conserves (s\<lparr>ps_pool := p\<rparr>)" using i by (simp add: pool_inv_def pool_conserves_def)
  moreover have "pool_counts (s\<lparr>ps_pool := p\<rparr>)"
    using i l unfolding p by (auto simp: pool_inv_def counts_unfold simp del: length_filter_le)
  ultimately show ?thesis by (simp add: pool_inv_def)
qed

lemma pool_inv_step:
  assumes "pool_inv s" and "pool_step s t"
  shows "pool_inv t"
  using assms(2)
proof cases
  case (got clk conn p)
  then show ?thesis using inv_get [OF assms(1) got(2)] by (simp add: after_get_def)
next
  case (failed clk e p)
  then show ?thesis using inv_get [OF assms(1) failed(2)] by (simp add: after_get_def)
next
  case (waits clk p)
  then show ?thesis using inv_get [OF assms(1) waits(2)]
    by (simp add: after_get_def pool_inv_def counts_unfold conserves_unfold)
next
  case (dials clk p)
  then show ?thesis using inv_get [OF assms(1) dials(2)] by (simp add: after_get_def)
next
  case (dialed n raw now)
  then show ?thesis using assms(1) by (simp add: pool_inv_def counts_unfold conserves_unfold pool_defs ac_simps)
next
  case (dial_failed n e)
  have "wrap64 (p_active (ps_pool s) - 1) = wrap64 (int n + int (length (ps_held s)))"
    using assms(1) dial_failed(2) by (simp add: pool_inv_def counts_unfold wrap64_diff)
  then show ?thesis using assms(1) dial_failed by (auto simp: pool_inv_def counts_unfold conserves_unfold pool_defs)
next
  case (returned conn cerr now)
  then show ?thesis using inv_put [OF assms(1)] by simp
next
  case (tick now p)
  then show ?thesis using inv_tick [OF assms(1)] by simp
next
  case closed
  then show ?thesis using assms(1)
    by (auto simp: pool_inv_def counts_unfold conserves_unfold pool_defs ac_simps)
qed (use assms(1) in \<open>simp_all add: pool_inv_def counts_unfold conserves_unfold\<close>)

interpretation pool_machine: inv_system pool_init pool_step pool_inv
proof
  show "pool_init s \<Longrightarrow> pool_inv s" for s
    by (auto simp: pool_init_def pool_inv_def counts_unfold conserves_unfold pool_New_def wrap64_def)
  show "pool_inv s \<Longrightarrow> pool_step s t \<Longrightarrow> pool_inv t" for s t
    by (rule pool_inv_step)
qed

section \<open>Properties\<close>

text \<open>A pool for one connection, with one goroutine that holds it.\<close>

definition sample_pool :: Pool where
  "sample_pool = pool_New \<lparr>MaxIdle = 1, MaxActive = 1, IdleTimeout = 0, MaxConnLifetime = 50,
     DialTimeout = 0, WaitTimeout = 5\<rparr>"

lemmas sample_pool_simps = sample_pool_def pool_New_def minute_def second_def Let_def

definition one_held :: "nat \<Rightarrow> pool_sys" where
  "one_held w = \<lparr>ps_pool = sample_pool\<lparr>p_active := 1\<rparr>, ps_dialing = 0, ps_waiting = w,
     ps_held = [get_dialed 7 100], ps_dialed = [7]\<rparr>"

lemma one_held_reach: "reach pool_init pool_step (one_held 0)"
proof -
  let ?s0 = "\<lparr>ps_pool = sample_pool, ps_dialing = 0, ps_waiting = 0, ps_held = [], ps_dialed = []\<rparr>"
  let ?s1 = "?s0\<lparr>ps_pool := sample_pool\<lparr>p_active := 1\<rparr>, ps_dialing := Suc 0\<rparr>"
  have r0: "reach pool_init pool_step ?s0"
    by (rule reach_init) (auto simp: pool_init_def sample_pool_def max_int64_def)
  have "get_locked (\<lambda>i. 0) sample_pool = (DialNew, sample_pool\<lparr>p_active := 1\<rparr>)"
    by (simp add: get_locked_def pop_loop.simps sample_pool_simps wrap64_def)
  then have s1: "pool_step ?s0 ?s1" using pool_step.dials [of "\<lambda>i. 0" ?s0] by simp
  have s2: "pool_step ?s1 (one_held 0)"
    using pool_step.dialed [of ?s1 0 7 100] by (simp add: one_held_def)
  from reach_step [OF r0, OF s1] have "reach pool_init pool_step ?s1" .
  from reach_step [OF this, OF s2] show ?thesis .
qed

lemma one_waits_reach: "reach pool_init pool_step (one_held 1)"
proof -
  have "get_locked (\<lambda>i. 0) (sample_pool\<lparr>p_active := 1\<rparr>) = (WaitSignal, sample_pool\<lparr>p_active := 1\<rparr>)"
    by (simp add: get_locked_def pop_loop.simps sample_pool_simps)
  then have "pool_step (one_held 0) (one_held 1)"
    using pool_step.waits [of "\<lambda>i. 0" "one_held 0"] by (simp add: one_held_def)
  from reach_step [OF one_held_reach, OF this] show ?thesis .
qed

text \<open>C7 (invariant). In every interleaving of goroutines that get, dial, wait and return
  connections, of the idle cleaner and of \<^verbatim>\<open>Close\<close>: the connections being dialed, in use
  and idle together never exceed \<open>MaxActive\<close> when it is set, at most \<open>MaxIdle\<close> are idle,
  and the counter \<open>active\<close> is exact.\<close>

theorem pool_limits:
  assumes "reach pool_init pool_step s" and "MaxActive (p_config (ps_pool s)) > 0"
  shows "int (open_conns s) \<le> MaxActive (p_config (ps_pool s))
    \<and> fst (pool_Stats (ps_pool s)) \<le> MaxIdle (p_config (ps_pool s))
    \<and> snd (pool_Stats (ps_pool s)) = int (ps_dialing s) + int (length (ps_held s))"
proof -
  have i: "pool_counts s" using pool_machine.reach_inv [OF assms(1)] by (simp add: pool_inv_def)
  then show ?thesis using active_exact [OF i assms(2)] assms(2) by (simp add: counts_unfold pool_Stats_def)
qed

theorem pool_limits_witness:
  "open_conns (one_held 1) = 1 \<and> int (open_conns (one_held 1)) \<le> MaxActive (p_config (ps_pool (one_held 1)))"
  using pool_limits [OF one_waits_reach] by (simp add: one_held_def sample_pool_simps open_conns_def)

text \<open>C8 (invariant). No connection is lost, handed out twice or used after it was closed: in
  every reachable state each network connection that was ever dialed is in exactly one
  place, once: in use, idle, or closed.\<close>

theorem pool_conservation:
  assumes "reach pool_init pool_step s"
  shows "mset (map cn_conn (ps_held s)) + mset (map cn_conn (p_idle (ps_pool s)))
      + mset (p_closedConns (ps_pool s)) = mset (ps_dialed s)
    \<and> distinct (map cn_conn (ps_held s) @ map cn_conn (p_idle (ps_pool s)) @ p_closedConns (ps_pool s))"
proof -
  have i: "pool_conserves s" using pool_machine.reach_inv [OF assms] by (simp add: pool_inv_def)
  then have "mset (all_conns s) = mset (ps_dialed s)" "distinct (ps_dialed s)" by (simp_all add: pool_conserves_def)
  then have "distinct (all_conns s)" by (metis distinct_count_atmost_1 mset_eq_setD set_mset_mset)
  with i show ?thesis by (simp add: conserves_unfold add.assoc)
qed

theorem pool_conservation_witness:
  "mset (map cn_conn (ps_held (one_held 0))) + mset (map cn_conn (p_idle (ps_pool (one_held 0))))
     + mset (p_closedConns (ps_pool (one_held 0))) = {#7#}"
  using pool_conservation [OF one_held_reach] by (simp add: one_held_def)

text \<open>The loop of \<open>Get\<close> with all clock readings equal, against list functions.\<close>

definition stale :: "time \<Rightarrow> Pool \<Rightarrow> pool_Conn list" where
  "stale now p = takeWhile (\<lambda>c. \<not> isValid now p c) (rev (p_idle p))"

definition fresh :: "time \<Rightarrow> Pool \<Rightarrow> pool_Conn list" where
  "fresh now p = dropWhile (\<lambda>c. \<not> isValid now p c) (rev (p_idle p))"

lemma pop_loop_reference:
  "pop_loop (\<lambda>i. now) p =
     (case fresh now p of [] \<Rightarrow> None | c # cs \<Rightarrow> Some c,
      p\<lparr>p_idle := rev (tl (fresh now p)),
        p_closedConns := p_closedConns p @ map cn_conn (stale now p)\<rparr>)"
proof (induction "length (p_idle p)" arbitrary: p)
  case 0
  then show ?case by (simp add: pop_loop.simps fresh_def stale_def)
next
  case (Suc n)
  then obtain idle c where i: "p_idle p = idle @ [c]" by (metis length_0_conv nat.distinct(1) rev_exhaust)
  have v: "isValid t (p\<lparr>p_idle := x\<rparr>) = isValid t p" "isValid t (p\<lparr>p_idle := x, p_closedConns := y\<rparr>) = isValid t p"
    for t x y by (rule isValid_config, simp)+
  show ?case
  proof (cases "isValid now p c")
    case True
    then show ?thesis by (subst pop_loop.simps) (simp add: i fresh_def stale_def v Let_def)
  next
    case False
    let ?q = "close_raw c (p\<lparr>p_idle := idle\<rparr>)"
    have "pop_loop (\<lambda>i. now) p = pop_loop (\<lambda>i. now) ?q"
      using False by (subst pop_loop.simps) (simp add: i v Let_def)
    also have "\<dots> = (case fresh now ?q of [] \<Rightarrow> None | c # cs \<Rightarrow> Some c,
      ?q\<lparr>p_idle := rev (tl (fresh now ?q)), p_closedConns := p_closedConns ?q @ map cn_conn (stale now ?q)\<rparr>)"
      by (rule Suc.hyps(1)) (use Suc.hyps(2) i in \<open>simp add: close_raw_def\<close>)
    finally show ?thesis using False by (simp add: close_raw_def fresh_def stale_def i v)
  qed
qed

lemma get_locked_reference:
  assumes "\<not> p_closed p"
  shows "get_locked (\<lambda>i. now) p = (
    let q = p\<lparr>p_idle := rev (tl (fresh now p)), p_closedConns := p_closedConns p @ map cn_conn (stale now p)\<rparr>
    in case fresh now p of
         c # cs \<Rightarrow> (GotConn c, q\<lparr>p_active := wrap64 (p_active p + 1)\<rparr>)
       | [] \<Rightarrow> (if MaxActive (p_config p) \<le> 0 \<or> p_active p < MaxActive (p_config p)
                then (DialNew, q\<lparr>p_active := wrap64 (p_active p + 1)\<rparr>)
                else if WaitTimeout (p_config p) > 0 then (WaitSignal, q)
                else (GetFails ErrPoolExhausted, q)))"
  using assms by (auto simp: get_locked_def pop_loop_reference Let_def split: list.splits)

text \<open>C31 (equivalence). \<^verbatim>\<open>Get\<close> on an open pool hands out the most recently returned connection
  that is still valid, closes exactly the expired ones returned after it, and touches no
  older one; only when no idle connection is valid does it look at the limit on active
  connections, and then dials, waits or fails.\<close>

theorem get_newest_valid:
  assumes "\<not> p_closed p"
  shows "get_locked (\<lambda>i. now) p = (
    let q = p\<lparr>p_idle := rev (tl (fresh now p)), p_closedConns := p_closedConns p @ map cn_conn (stale now p)\<rparr>
    in case fresh now p of
         c # cs \<Rightarrow> (GotConn c, q\<lparr>p_active := wrap64 (p_active p + 1)\<rparr>)
       | [] \<Rightarrow> (if MaxActive (p_config p) \<le> 0 \<or> p_active p < MaxActive (p_config p)
                then (DialNew, q\<lparr>p_active := wrap64 (p_active p + 1)\<rparr>)
                else if WaitTimeout (p_config p) > 0 then (WaitSignal, q)
                else (GetFails ErrPoolExhausted, q)))"
  using assms by (rule get_locked_reference)

theorem get_newest_valid_witness:
  "get_locked (\<lambda>i. 140) (sample_pool\<lparr>p_idle := [get_dialed 1 100, get_dialed 2 95, get_dialed 3 80]\<rparr>)
   = (GotConn (get_dialed 2 95),
      sample_pool\<lparr>p_idle := [get_dialed 1 100], p_active := 1, p_closedConns := [3]\<rparr>)"
  using get_newest_valid [of "sample_pool\<lparr>p_idle := [get_dialed 1 100, get_dialed 2 95, get_dialed 3 80]\<rparr>" 140]
  by (simp add: fresh_def stale_def isValid_def get_dialed_def time_sub_def min_int64_def max_int64_def
      sample_pool_simps wrap64_def)

text \<open>A valid connection returned to a pool with room is the one the next
  \<^verbatim>\<open>Get\<close> hands out, and the pool is then as before except that a signal is pending.\<close>

lemma put_then_get:
  assumes "\<not> p_closed p" and "isValid now p conn" and "int (length (p_idle p)) < MaxIdle (p_config p)"
    and "in_int64 (p_active p)"
  shows "put cerr now conn p = (None, snd (put cerr now conn p))
    \<and> get_locked (\<lambda>i. now) (snd (put cerr now conn p)) = (GotConn conn, p\<lparr>p_waitChan := True\<rparr>)"
proof -
  let ?q = "p\<lparr>p_active := wrap64 (p_active p - 1), p_idle := p_idle p @ [conn], p_waitChan := True\<rparr>"
  have p: "put cerr now conn p = (None, ?q)"
    using assms(1-3) by (cases rule: put_cases [where cerr = cerr and now = now and conn = conn and p = p]) auto
  have "isValid now ?q = isValid now p" by (rule isValid_config) simp
  then have f: "fresh now ?q = conn # rev (p_idle p)" "stale now ?q = []"
    using assms(2) by (simp_all add: fresh_def stale_def)
  have "get_locked (\<lambda>i. now) ?q = (GotConn conn, p\<lparr>p_waitChan := True\<rparr>)"
    using assms(1,4) by (subst get_locked_reference) (simp_all add: f wrap64_add wrap64_id)
  then show ?thesis by (simp add: p)
qed

theorem put_then_get_witness:
  "get_locked (\<lambda>i. 120) (snd (put (\<lambda>c. None) 120 (get_dialed 7 100) (sample_pool\<lparr>p_active := 1\<rparr>)))
   = (GotConn (get_dialed 7 100), sample_pool\<lparr>p_active := 1, p_waitChan := True\<rparr>)"
  using put_then_get [of "sample_pool\<lparr>p_active := 1\<rparr>" 120 "get_dialed 7 100" "\<lambda>c. None"]
  by (simp add: isValid_def get_dialed_def time_sub_def in_int64_def min_int64_def max_int64_def sample_pool_simps)

text \<open>Once closed, a pool stays closed and empty whatever the goroutines do: every
  \<^verbatim>\<open>Get\<close> returns \<open>ErrPoolClosed\<close> and a connection that is returned is closed.\<close>

lemma pool_closed_for_good:
  assumes "reach pool_init pool_step s" and "p_closed (ps_pool s)" and "pool_step\<^sup>*\<^sup>* s t"
  shows "p_closed (ps_pool t) \<and> p_idle (ps_pool t) = []
    \<and> get_locked clk (ps_pool t) = (GetFails ErrPoolClosed, ps_pool t)
    \<and> p_closedConns (snd (put cerr now conn (ps_pool t))) = p_closedConns (ps_pool t) @ [cn_conn conn]"
proof -
  have inv: "pool_inv t" using pool_machine.star_inv [OF assms(3)] pool_machine.reach_inv [OF assms(1)] by blast
  have "p_closed (ps_pool t)" using assms(3,2)
  proof (induction rule: rtranclp_induct)
    case (step u v)
    then have "p_closed (ps_pool u)" by simp
    with step(2) show ?case
      by cases (auto simp: get_locked_def get_dial_failed_def Conn_Close_def put_def close_raw_def Let_def
          pool_Close_def clean_tick_def)
  qed simp
  with inv show ?thesis
    by (auto simp: pool_inv_def counts_unfold get_locked_def put_def close_raw_def)
qed

theorem pool_closed_for_good_witness:
  "let s = (one_held 1)\<lparr>ps_pool := pool_Close (ps_pool (one_held 1))\<rparr>
   in p_closed (ps_pool s) \<and> p_closedConns (snd (put (\<lambda>c. None) 110 (get_dialed 7 100) (ps_pool s))) = [7]"
proof -
  let ?s = "(one_held 1)\<lparr>ps_pool := pool_Close (ps_pool (one_held 1))\<rparr>"
  have r: "reach pool_init pool_step ?s" using reach_step [OF one_waits_reach, OF pool_step.closed] .
  have c: "p_closed (ps_pool ?s)" and d: "p_closedConns (ps_pool ?s) = []"
    by (simp_all add: pool_Close_def one_held_def sample_pool_simps)
  show ?thesis using pool_closed_for_good [OF r c rtranclp.rtrancl_refl, of _ "\<lambda>c. None" 110 "get_dialed 7 100"] d
    by (simp add: get_dialed_def)
qed

text \<open>A waiting \<^verbatim>\<open>Get\<close> can be left asleep while the pool has room:
  returning an expired connection frees its slot but sends no signal. There is a reachable
  state in which a goroutine waits, no signal is pending, the pool is open, and no
  connection is dialed, used or idle at all.\<close>

lemma wakeup_lost:
  "\<exists>s. reach pool_init pool_step s \<and> ps_waiting s = 1 \<and> \<not> p_waitChan (ps_pool s) \<and> \<not> p_closed (ps_pool s)
     \<and> MaxActive (p_config (ps_pool s)) = 1 \<and> open_conns s = 0 \<and> pool_Stats (ps_pool s) = (0, 0)"
proof -
  let ?s = "one_held 1"
  let ?t = "?s\<lparr>ps_pool := snd (Conn_Close (\<lambda>c. None) 500 (get_dialed 7 100) (ps_pool ?s)),
    ps_held := remove1 (get_dialed 7 100) (ps_held ?s)\<rparr>"
  have "pool_step ?s ?t" by (rule pool_step.returned) (simp add: one_held_def)
  from reach_step [OF one_waits_reach, OF this] have r: "reach pool_init pool_step ?t" .
  have "\<not> isValid 500 (sample_pool\<lparr>p_active := 0\<rparr>) (get_dialed 7 100)"
    by (simp add: isValid_def get_dialed_def time_sub_def min_int64_def max_int64_def sample_pool_simps)
  then show ?thesis
    by (intro exI [of _ ?t] conjI r) (simp_all add: one_held_def Conn_Close_def put_def close_raw_def
        open_conns_def pool_Stats_def wrap64_def sample_pool_simps)
qed

text \<open>Closing a connection twice breaks the pool: the second \<^verbatim>\<open>Close\<close> of a
  connection that was returned is not detected, the same connection is then handed out by
  two calls of \<^verbatim>\<open>Get\<close>, and the counter \<open>active\<close> is one too low in between.\<close>

lemma double_close_shares:
  assumes "\<not> p_closed p" and "isValid now p conn" and "int (length (p_idle p)) + 1 < MaxIdle (p_config p)"
  shows "let p1 = snd (Conn_Close cerr now conn p); p2 = snd (Conn_Close cerr now conn p1)
         in p_active p2 = wrap64 (p_active p - 2)
            \<and> fst (get_locked (\<lambda>i. now) p2) = GotConn conn
            \<and> fst (get_locked (\<lambda>i. now) (snd (get_locked (\<lambda>i. now) p2))) = GotConn conn"
proof -
  let ?p1 = "p\<lparr>p_active := wrap64 (p_active p - 1), p_idle := p_idle p @ [conn], p_waitChan := True\<rparr>"
  let ?p2 = "p\<lparr>p_active := wrap64 (p_active p - 2), p_idle := p_idle p @ [conn, conn], p_waitChan := True\<rparr>"
  let ?p3 = "p\<lparr>p_active := wrap64 (wrap64 (p_active p - 2) + 1), p_idle := p_idle p @ [conn], p_waitChan := True\<rparr>"
  have v: "isValid now ?p1 = isValid now p" "isValid now ?p2 = isValid now p" "isValid now ?p3 = isValid now p"
    by (rule isValid_config, simp)+
  have 1: "Conn_Close cerr now conn p = (None, ?p1)" unfolding Conn_Close_def
    using assms by (cases rule: put_cases [where cerr = cerr and now = now and conn = conn and p = p]) auto
  have 2: "Conn_Close cerr now conn ?p1 = (None, ?p2)" unfolding Conn_Close_def
    using assms v(1) by (cases rule: put_cases [where cerr = cerr and now = now and conn = conn and p = ?p1])
      (auto simp: wrap64_diff)
  have 3: "get_locked (\<lambda>i. now) ?p2 = (GotConn conn, ?p3)"
    using assms v(2) by (subst get_locked_reference) (simp_all add: fresh_def stale_def)
  have "fst (get_locked (\<lambda>i. now) ?p3) = GotConn conn"
    using assms v(3) by (subst get_locked_reference) (simp_all add: fresh_def stale_def)
  with 1 2 3 show ?thesis by simp
qed

theorem double_close_shares_witness:
  "let p = sample_pool\<lparr>p_active := 1, p_config := (p_config sample_pool)\<lparr>MaxIdle := 4\<rparr>\<rparr>;
       p2 = snd (Conn_Close (\<lambda>c. None) 110 (get_dialed 7 100) (snd (Conn_Close (\<lambda>c. None) 110 (get_dialed 7 100) p)))
   in p_active p2 = - 1 \<and> fst (get_locked (\<lambda>i. 110) (snd (get_locked (\<lambda>i. 110) p2))) = GotConn (get_dialed 7 100)"
  using double_close_shares [of "sample_pool\<lparr>p_active := 1, p_config := (p_config sample_pool)\<lparr>MaxIdle := 4\<rparr>\<rparr>"
      110 "get_dialed 7 100" "\<lambda>c. None"]
  by (simp add: isValid_def get_dialed_def time_sub_def min_int64_def max_int64_def sample_pool_simps wrap64_def)

end
