(* ===== verification/UdpSession.thy ===== *)
theory UdpSession
  imports Handler
begin

text \<open>
  UDP sessions (\<^verbatim>\<open>src/pkg/server/udp/session.go\<close>): one virtual connection per client
  address. A session is reached through pointers that outlive its map entry, so sessions
  live in the store \<open>sm_heap\<close> and the map holds references; \<open>sm_handler\<close> is the state of
  the handler that is notified. \<^verbatim>\<open>GetOrCreate\<close> and \<^verbatim>\<open>cleanupExpired\<close> are given as
  their two critical sections and composed. The network calls are arguments. Shown: the
  bound on the number of sessions, the double check, and what a cleanup removes.
\<close>

section \<open>Definitions\<close>

record 'c Session =
  ss_ID :: string
  ss_RemoteAddr :: string
  ss_LastActivity :: time
  ss_Context :: "'c Context"
  ss_cancelled :: bool
  ss_backendClosed :: bool

definition UpdateActivity :: "time \<Rightarrow> 'c Session \<Rightarrow> 'c Session" where
  "UpdateActivity now s = s\<lparr>ss_LastActivity := now\<rparr>"

definition GetLastActivity :: "'c Session \<Rightarrow> time" where
  "GetLastActivity s = ss_LastActivity s"

definition session_Close :: "'c Session \<Rightarrow> 'c Session" where
  "session_Close s = s\<lparr>ss_cancelled := True, ss_backendClosed := True\<rparr>"

record ('h, 'c) SessionManager =
  sm_sessions :: "nat gomap"
  sm_maxSessions :: int
  sm_heap :: "'c Session list"
  sm_handler :: 'h

definition NewSessionManager :: "int \<Rightarrow> 'h \<Rightarrow> ('h, 'c) SessionManager" where
  "NewSessionManager maxSessions h =
     \<lparr>sm_sessions = [], sm_maxSessions = maxSessions, sm_heap = [], sm_handler = h\<rparr>"

definition touch :: "time \<Rightarrow> nat \<Rightarrow> ('h, 'c) SessionManager \<Rightarrow> ('h, 'c) SessionManager" where
  "touch now ref sm = sm\<lparr>sm_heap := (sm_heap sm)[ref := UpdateActivity now (sm_heap sm ! ref)]\<rparr>"

text \<open>The error of a full manager is a fresh value that no package-level error equals.\<close>

definition session_limit_error :: "int \<Rightarrow> err" where
  "session_limit_error n = Sentinel ''fmt.Errorf''
     (''session limit reached ('' @ itoa n @ ''), rejecting new session'')"

definition new_session :: "string \<Rightarrow> string \<Rightarrow> time \<Rightarrow> 'c Session" where
  "new_session sessionID clientAddr now =
     \<lparr>ss_ID = sessionID, ss_RemoteAddr = clientAddr, ss_LastActivity = now,
      ss_Context = zero_Context\<lparr>SessionID := sessionID, RemoteAddr := clientAddr, Protocol := ''udp''\<rparr>,
      ss_cancelled = False, ss_backendClosed = False\<rparr>"

text \<open>
  The section under the write lock (lines 102-151): \<open>resolve\<close> and \<open>dial\<close> are the errors of
  the two network calls, \<open>sessionID\<close> the fresh identifier.
\<close>

definition sm_create :: "string \<Rightarrow> string \<Rightarrow> err option \<Rightarrow> err option \<Rightarrow> string \<Rightarrow> time
    \<Rightarrow> ('h, 'c) SessionManager \<Rightarrow> (err + nat \<times> bool) \<times> ('h, 'c) SessionManager" where
  "sm_create clientAddr targetAddr resolve dial sessionID now sm = (case go_get (sm_sessions sm) clientAddr of
     Some ref \<Rightarrow> (Inr (ref, False), touch now ref sm)
   | None \<Rightarrow>
      (if sm_maxSessions sm > 0 \<and> go_len (sm_sessions sm) \<ge> sm_maxSessions sm
       then (Inl (session_limit_error (sm_maxSessions sm)), sm)
       else case resolve of
         Some e \<Rightarrow> (Inl (Wrapf (''failed to resolve backend address '' @ targetAddr @ '': '') e []), sm)
       | None \<Rightarrow> (case dial of
           Some e \<Rightarrow> (Inl (Wrapf (''failed to dial backend '' @ targetAddr @ '': '') e []), sm)
         | None \<Rightarrow>
             (let ref = length (sm_heap sm)
              in (Inr (ref, True),
                  sm\<lparr>sm_heap := sm_heap sm @ [new_session sessionID clientAddr now],
                     sm_sessions := go_put clientAddr ref (sm_sessions sm)\<rparr>)))))"

definition GetOrCreate :: "string \<Rightarrow> string \<Rightarrow> err option \<Rightarrow> err option \<Rightarrow> string \<Rightarrow> time
    \<Rightarrow> ('h, 'c) SessionManager \<Rightarrow> (err + nat \<times> bool) \<times> ('h, 'c) SessionManager" where
  "GetOrCreate clientAddr targetAddr resolve dial sessionID now sm = (case go_get (sm_sessions sm) clientAddr of
     Some ref \<Rightarrow> (Inr (ref, False), touch now ref sm)
   | None \<Rightarrow> sm_create clientAddr targetAddr resolve dial sessionID now sm)"

definition sm_Get :: "string \<Rightarrow> ('h, 'c) SessionManager \<Rightarrow> nat option" where
  "sm_Get clientAddr sm = go_get (sm_sessions sm) clientAddr"

definition sm_Remove :: "string \<Rightarrow> ('h, 'c) SessionManager \<Rightarrow> ('h, 'c) SessionManager" where
  "sm_Remove clientAddr sm = sm\<lparr>sm_sessions := go_delete clientAddr (sm_sessions sm)\<rparr>"

definition sm_Count :: "('h, 'c) SessionManager \<Rightarrow> int" where
  "sm_Count sm = go_len (sm_sessions sm)"

text \<open>Notify the handler of the end of a session, then close it.\<close>

definition end_session :: "('h, 'c) Handler \<Rightarrow> nat \<Rightarrow> ('h, 'c) SessionManager \<Rightarrow> ('h, 'c) SessionManager" where
  "end_session H ref sm = (let sess = sm_heap sm ! ref in
     case OnDisconnect H (sm_handler sm) (ss_Context sess) of (e, hctx, h) \<Rightarrow>
       sm\<lparr>sm_handler := h, sm_heap := (sm_heap sm)[ref := session_Close (sess\<lparr>ss_Context := hctx\<rparr>)]\<rparr>)"

text \<open>The two sections of \<^verbatim>\<open>cleanupExpired\<close>; \<open>order\<close> is the order of the range loop.\<close>

definition cleanup_scan :: "duration \<Rightarrow> time \<Rightarrow> nat gomap \<Rightarrow> ('h, 'c) SessionManager \<Rightarrow> string list" where
  "cleanup_scan timeout now order sm =
     map fst (filter (\<lambda>(key, ref). time_sub now (GetLastActivity (sm_heap sm ! ref)) > timeout) order)"

fun cleanup_apply :: "('h, 'c) Handler \<Rightarrow> string list \<Rightarrow> ('h, 'c) SessionManager \<Rightarrow> ('h, 'c) SessionManager" where
  "cleanup_apply H [] sm = sm"
| "cleanup_apply H (key # toRemove) sm = (case go_get (sm_sessions sm) key of
     None \<Rightarrow> cleanup_apply H toRemove sm
   | Some ref \<Rightarrow> cleanup_apply H toRemove (sm_Remove key (end_session H ref sm)))"

definition cleanupExpired :: "('h, 'c) Handler \<Rightarrow> duration \<Rightarrow> time \<Rightarrow> nat gomap
    \<Rightarrow> ('h, 'c) SessionManager \<Rightarrow> ('h, 'c) SessionManager" where
  "cleanupExpired H timeout now order sm = (let toRemove = cleanup_scan timeout now order sm in
     if toRemove = [] then sm else cleanup_apply H toRemove sm)"

text \<open>\<^verbatim>\<open>ForceCloseAll\<close> ends and removes every session in the order of the range loop.\<close>

definition ForceCloseAll :: "('h, 'c) Handler \<Rightarrow> nat gomap \<Rightarrow> ('h, 'c) SessionManager \<Rightarrow> ('h, 'c) SessionManager" where
  "ForceCloseAll H order sm = fold (\<lambda>(key, ref) sm. sm_Remove key (end_session H ref sm)) order sm"

text \<open>
  \<^verbatim>\<open>DrainAll\<close>: \<open>count\<close> is the number of sessions when it is called, and \<open>sm\<close> the manager
  when the wait is over, because no session is left or because of the timeout.
\<close>

definition udp_ErrShutdownTimeout :: err where
  "udp_ErrShutdownTimeout = Sentinel ''udp.ErrShutdownTimeout'' ''shutdown timeout exceeded''"

definition DrainAll :: "('h, 'c) Handler \<Rightarrow> int \<Rightarrow> bool \<Rightarrow> nat gomap \<Rightarrow> ('h, 'c) SessionManager
    \<Rightarrow> err option \<times> ('h, 'c) SessionManager" where
  "DrainAll H count timed_out order sm = (
     if count = 0 then (None, sm)
     else if timed_out then (Some udp_ErrShutdownTimeout, ForceCloseAll H order sm)
     else (None, sm))"

section \<open>Invariant\<close>

definition sm_inv :: "('h, 'c) SessionManager \<Rightarrow> bool" where
  [inv_defs]: "sm_inv sm \<longleftrightarrow> go_map (sm_sessions sm) \<and> distinct (map snd (sm_sessions sm))
     \<and> list_all (\<lambda>(key, ref). ref < length (sm_heap sm) \<and> ss_RemoteAddr (sm_heap sm ! ref) = key) (sm_sessions sm)
     \<and> (sm_maxSessions sm > 0 \<longrightarrow> go_len (sm_sessions sm) \<le> sm_maxSessions sm)"

lemma sm_inv_New: "sm_inv (NewSessionManager m h)"
  by (simp add: sm_inv_def NewSessionManager_def)

text \<open>A change of the store that keeps its length and the addresses keeps the invariant.\<close>

lemma sm_inv_heap:
  assumes "sm_inv sm" and "length heap = length (sm_heap sm)"
    and "\<And>i. i < length heap \<Longrightarrow> ss_RemoteAddr (heap ! i) = ss_RemoteAddr (sm_heap sm ! i)"
  shows "sm_inv (sm\<lparr>sm_heap := heap\<rparr>)" and "sm_inv (sm\<lparr>sm_handler := h, sm_heap := heap\<rparr>)"
  using assms by (auto simp: sm_inv_def list_all_iff)

lemma sm_inv_touch: "sm_inv sm \<Longrightarrow> sm_inv (touch now ref sm)"
proof -
  assume i: "sm_inv sm"
  show ?thesis unfolding touch_def
  proof (rule sm_inv_heap(1) [OF i])
    fix j
    show "ss_RemoteAddr ((sm_heap sm)[ref := UpdateActivity now (sm_heap sm ! ref)] ! j) = ss_RemoteAddr (sm_heap sm ! j)"
      if "j < length ((sm_heap sm)[ref := UpdateActivity now (sm_heap sm ! ref)])"
      using that by (cases "j = ref") (simp_all add: UpdateActivity_def)
  qed simp
qed

lemma end_session_addr: "i < length (sm_heap sm) \<Longrightarrow>
   ss_RemoteAddr (sm_heap (end_session H ref sm) ! i) = ss_RemoteAddr (sm_heap sm ! i)"
  by (cases "i = ref") (auto simp: end_session_def session_Close_def Let_def split: prod.splits)

lemma end_session_simps [simp]:
  "sm_sessions (end_session H ref sm) = sm_sessions sm"
  "sm_maxSessions (end_session H ref sm) = sm_maxSessions sm"
  "length (sm_heap (end_session H ref sm)) = length (sm_heap sm)"
  by (simp_all add: end_session_def Let_def split: prod.splits)

lemma sm_inv_end_session: "sm_inv sm \<Longrightarrow> sm_inv (end_session H ref sm)"
  by (auto simp: sm_inv_def list_all_iff end_session_addr)

lemma sm_inv_Remove: "sm_inv sm \<Longrightarrow> sm_inv (sm_Remove key sm)"
  by (auto simp: sm_inv_def sm_Remove_def list_all_iff distinct_snd_delete go_len_delete dest: set_delete_sub)

lemma sm_inv_create: 
  assumes "sm_inv sm"
  shows "sm_inv (snd (sm_create clientAddr targetAddr resolve dial sessionID now sm))"
proof (cases "go_get (sm_sessions sm) clientAddr")
  case (Some ref)
  then show ?thesis using sm_inv_touch [OF assms] by (simp add: sm_create_def)
next
  case None
  have r: "\<forall>x \<in> set (sm_sessions sm). snd x < length (sm_heap sm) \<and> ss_RemoteAddr (sm_heap sm ! snd x) = fst x"
    using assms by (auto simp: sm_inv_def list_all_iff)
  then have "length (sm_heap sm) \<notin> set (map snd (sm_sessions sm))" by auto
  moreover have "clientAddr \<notin> fst ` set (sm_sessions sm)" using None by (simp add: map_of_eq_None_iff)
  moreover have "\<forall>x \<in> set (sm_sessions sm). snd x < Suc (length (sm_heap sm))
      \<and> ss_RemoteAddr ((sm_heap sm @ [s]) ! snd x) = fst x" for s
    using r by (auto simp: nth_append)
  ultimately show ?thesis
    using None assms by (auto simp: sm_create_def sm_inv_def Let_def put_new_append go_map_def list_all_iff
        new_session_def case_prod_beta nth_append split: option.splits)
qed

lemma sm_inv_cleanup_apply: "sm_inv sm \<Longrightarrow> sm_inv (cleanup_apply H keys sm)"
  by (induction H keys sm rule: cleanup_apply.induct)
    (auto split: option.splits intro: sm_inv_Remove sm_inv_end_session)

lemma sm_inv_ForceCloseAll: "sm_inv sm \<Longrightarrow> sm_inv (ForceCloseAll H order sm)"
  unfolding ForceCloseAll_def
  by (induction order arbitrary: sm) (auto intro: sm_inv_Remove sm_inv_end_session)

lemmas sm_inv_ops = sm_inv_touch sm_inv_end_session sm_inv_Remove sm_inv_create sm_inv_cleanup_apply
  sm_inv_ForceCloseAll

section \<open>Cleanup\<close>

lemma end_session_other: "i \<noteq> ref \<Longrightarrow> sm_heap (end_session H ref sm) ! i = sm_heap sm ! i"
  by (auto simp: end_session_def Let_def split: prod.splits)

lemma end_session_closes: "ref < length (sm_heap sm) \<Longrightarrow> ss_backendClosed (sm_heap (end_session H ref sm) ! ref)"
  by (auto simp: end_session_def session_Close_def Let_def split: prod.splits)

lemma end_session_keeps_closed: "i < length (sm_heap sm) \<Longrightarrow> ss_backendClosed (sm_heap sm ! i) \<Longrightarrow>
   ss_backendClosed (sm_heap (end_session H ref sm) ! i)"
  by (cases "i = ref") (simp_all add: end_session_closes end_session_other)

lemma Remove_heap [simp]: "sm_heap (sm_Remove key sm) = sm_heap sm"
  by (simp add: sm_Remove_def)

lemma Remove_get [simp]: "go_get (sm_sessions (sm_Remove key sm)) k = (if k = key then None else go_get (sm_sessions sm) k)"
  by (simp add: sm_Remove_def)

lemma cleanup_apply_get:
  "go_get (sm_sessions (cleanup_apply H keys sm)) k = (if k \<in> set keys then None else go_get (sm_sessions sm) k)"
  by (induction H keys sm rule: cleanup_apply.induct) (auto split: option.splits)

lemma cleanup_apply_length [simp]: "length (sm_heap (cleanup_apply H keys sm)) = length (sm_heap sm)"
  by (induction H keys sm rule: cleanup_apply.induct) (auto split: option.splits)

lemma cleanup_apply_keeps_closed:
  "i < length (sm_heap sm) \<Longrightarrow> ss_backendClosed (sm_heap sm ! i) \<Longrightarrow> ss_backendClosed (sm_heap (cleanup_apply H keys sm) ! i)"
  by (induction H keys sm rule: cleanup_apply.induct) (auto simp: end_session_keeps_closed split: option.splits)

lemma cleanup_apply_other:
  "(\<And>k. k \<in> set keys \<Longrightarrow> go_get (sm_sessions sm) k \<noteq> Some i) \<Longrightarrow> sm_heap (cleanup_apply H keys sm) ! i = sm_heap sm ! i"
proof (induction H keys sm rule: cleanup_apply.induct)
  case (2 H key keys sm)
  show ?case
  proof (cases "go_get (sm_sessions sm) key")
    case None
    then show ?thesis using 2 by simp
  next
    case (Some ref)
    have "i \<noteq> ref" using "2.prems" [of key] Some by auto
    moreover have "sm_heap (cleanup_apply H keys (sm_Remove key (end_session H ref sm))) ! i
        = sm_heap (sm_Remove key (end_session H ref sm)) ! i"
      by (rule "2.IH"(2) [OF Some]) (use "2.prems" in auto)
    ultimately show ?thesis using Some by (simp add: end_session_other)
  qed
qed simp

lemma cleanup_apply_closes:
  "k \<in> set keys \<Longrightarrow> go_get (sm_sessions sm) k = Some ref \<Longrightarrow> ref < length (sm_heap sm) \<Longrightarrow>
   ss_backendClosed (sm_heap (cleanup_apply H keys sm) ! ref)"
proof (induction H keys sm rule: cleanup_apply.induct)
  case (2 H key keys sm)
  show ?case
  proof (cases "k = key")
    case True
    then show ?thesis using "2.prems" by (simp add: cleanup_apply_keeps_closed end_session_closes)
  next
    case False
    then show ?thesis using 2 by (cases "go_get (sm_sessions sm) key") auto
  qed
qed simp

lemma sm_ref_inj:
  assumes "sm_inv sm" and "go_get (sm_sessions sm) k = Some ref" and "go_get (sm_sessions sm) k' = Some ref"
  shows "k = k'"
  using assms unfolding sm_inv_def distinct_map inj_on_def
  by (metis fst_conv map_of_SomeD snd_conv)

lemma sm_ref_bound: "sm_inv sm \<Longrightarrow> go_get (sm_sessions sm) k = Some ref \<Longrightarrow> ref < length (sm_heap sm)"
  by (auto simp: sm_inv_def list_all_iff dest!: map_of_SomeD)

text \<open>A forced shutdown leaves no entry, and every session that had one is closed.\<close>

lemma force_close_keeps_closed:
  "i < length (sm_heap sm) \<Longrightarrow> ss_backendClosed (sm_heap sm ! i) \<Longrightarrow> ss_backendClosed (sm_heap (ForceCloseAll H order sm) ! i)"
  unfolding ForceCloseAll_def
  by (induction order arbitrary: sm) (auto simp: end_session_keeps_closed)

lemma force_close_all:
  "set (sm_sessions sm) \<subseteq> set order \<Longrightarrow> (\<forall>(k, r) \<in> set order. r < length (sm_heap sm)) \<Longrightarrow>
   sm_sessions (ForceCloseAll H order sm) = [] \<and> (\<forall>(k, r) \<in> set order. ss_backendClosed (sm_heap (ForceCloseAll H order sm) ! r))"
proof (induction order arbitrary: sm)
  case Nil
  then show ?case by (simp add: ForceCloseAll_def)
next
  case (Cons e order)
  obtain key ref where e: "e = (key, ref)" by (cases e)
  let ?sm = "sm_Remove key (end_session H ref sm)"
  have step: "ForceCloseAll H (e # order) sm = ForceCloseAll H order ?sm" by (simp add: ForceCloseAll_def e)
  have sub: "set (sm_sessions ?sm) \<subseteq> set order"
    using Cons.prems(1) by (auto simp: sm_Remove_def e AList.delete_eq)
  have "ref < length (sm_heap sm)" using Cons.prems(2) by (simp add: e)
  then have "ss_backendClosed (sm_heap ?sm ! ref)" by (simp add: end_session_closes)
  then have "ss_backendClosed (sm_heap (ForceCloseAll H order ?sm) ! ref)"
    using Cons.prems(2) by (intro force_close_keeps_closed) (simp_all add: e)
  then show ?case unfolding step using Cons.IH [OF sub] Cons.prems(2) by (auto simp: e)
qed

definition expired :: "duration \<Rightarrow> time \<Rightarrow> 'c Session \<Rightarrow> bool" where
  "expired timeout now s \<longleftrightarrow> time_sub now (ss_LastActivity s) > timeout"

lemma cleanup_scan_iff:
  assumes "sm_inv sm" and "go_map order" and "set order = set (sm_sessions sm)" and "go_get (sm_sessions sm) key = Some ref"
  shows "key \<in> set (cleanup_scan timeout now order sm) \<longleftrightarrow> expired timeout now (sm_heap sm ! ref)"
proof -
  have u: "(key, r) \<in> set order \<longleftrightarrow> r = ref" for r
  proof -
    have "distinct (map fst (sm_sessions sm))" using assms(1) by (simp add: sm_inv_def go_map_def)
    from map_of_eq_Some_iff [OF this, of key r] show ?thesis using assms(4) unfolding assms(3) by auto
  qed
  then show ?thesis by (force simp: cleanup_scan_def expired_def GetLastActivity_def)
qed

section \<open>Properties\<close>

text \<open>A cleanup that is not interrupted removes exactly the expired sessions:
  each of them loses its map entry and its backend connection is closed, and a session
  that was active within the timeout keeps its entry and is not touched at all.\<close>

lemma cleanup_removes_exactly_expired:
  assumes "sm_inv sm" and "go_map order" and "set order = set (sm_sessions sm)"
    and "go_get (sm_sessions sm) key = Some ref"
  shows "let sm' = cleanupExpired H timeout now order sm
    in if expired timeout now (sm_heap sm ! ref)
       then go_get (sm_sessions sm') key = None \<and> ss_backendClosed (sm_heap sm' ! ref)
       else go_get (sm_sessions sm') key = Some ref \<and> sm_heap sm' ! ref = sm_heap sm ! ref"
proof -
  let ?ks = "cleanup_scan timeout now order sm"
  have e: "cleanupExpired H timeout now order sm = cleanup_apply H ?ks sm"
    by (simp add: cleanupExpired_def Let_def)
  show ?thesis
  proof (cases "expired timeout now (sm_heap sm ! ref)")
    case True
    then have "key \<in> set ?ks" using cleanup_scan_iff [OF assms] by blast
    then show ?thesis
      using True cleanup_apply_closes [OF _ assms(4) sm_ref_bound [OF assms(1,4)]]
      by (simp add: e cleanup_apply_get)
  next
    case False
    then have k: "key \<notin> set ?ks" using cleanup_scan_iff [OF assms] by blast
    have "sm_heap (cleanup_apply H ?ks sm) ! ref = sm_heap sm ! ref"
      by (rule cleanup_apply_other) (use k sm_ref_inj [OF assms(1,4)] in blast)
    then show ?thesis using False k assms(4) by (simp add: e cleanup_apply_get)
  qed
qed

definition sample_sm :: "(string list \<times> unit, unit) SessionManager" where
  "sample_sm = \<lparr>sm_sessions = [(''a'', 0), (''b'', 1)], sm_maxSessions = 2,
     sm_heap = [new_session ''s0'' ''a'' 0, new_session ''s1'' ''b'' 90], sm_handler = ([], ())\<rparr>"

theorem cleanup_removes_exactly_expired_witness:
  "let sm' = cleanupExpired (logged NoopHandler) 50 100 [(''b'', 1), (''a'', 0)] sample_sm
   in go_get (sm_sessions sm') ''a'' = None \<and> go_get (sm_sessions sm') ''b'' = Some 1
      \<and> sm_handler sm' = ([''OnDisconnect''], ())"
proof -
  have i: "sm_inv sample_sm" by (simp add: sm_inv_def sample_sm_def go_map_def new_session_def)
  have o: "go_map [(''b'', 1 :: nat), (''a'', 0)]" "set [(''b'', 1 :: nat), (''a'', 0)] = set (sm_sessions sample_sm)"
    by (auto simp: go_map_def sample_sm_def)
  have g: "go_get (sm_sessions sample_sm) ''a'' = Some 0" "go_get (sm_sessions sample_sm) ''b'' = Some 1"
    by (simp_all add: sample_sm_def)
  have x: "expired 50 100 (sm_heap sample_sm ! 0)" "\<not> expired 50 100 (sm_heap sample_sm ! 1)"
    by (simp_all add: expired_def sample_sm_def new_session_def time_sub_def min_int64_def max_int64_def)
  have "sm_handler (cleanupExpired (logged NoopHandler) 50 100 [(''b'', 1), (''a'', 0)] sample_sm) = ([''OnDisconnect''], ())"
    by (simp add: cleanupExpired_def cleanup_scan_def GetLastActivity_def sample_sm_def new_session_def time_sub_def
        min_int64_def max_int64_def handler_simps end_session_def sm_Remove_def Let_def)
  then show ?thesis
    using cleanup_removes_exactly_expired [OF i o g(1), of "logged NoopHandler" 50 100]
      cleanup_removes_exactly_expired [OF i o g(2), of "logged NoopHandler" 50 100] x by (simp add: Let_def)
qed

end
