(* ===== verification/UdpServer.thy ===== *)
theory UdpServer
  imports UdpSession CoapParser
begin

text \<open>
  The UDP server (\<^verbatim>\<open>src/pkg/server/udp/server.go\<close>) on top of the session manager. The
  state holds the bounded queue of the worker pool, the workers between their critical
  sections, the downstream readers, and the datagrams sent so far. \<open>udp_exec\<close> executes one
  event (a datagram arrives, a worker looks up, creates or processes, a reader reads or
  ends, the cleaner scans or sweeps), and the step relation is its union over all events, so
  every interleaving is covered and a run can be evaluated. Shown: the bound on sessions
  under every interleaving, what a datagram that is refused leads to, and a run in which a
  session escapes the manager.
\<close>

section \<open>Definitions\<close>

definition DefaultSessionTimeout :: duration where
  "DefaultSessionTimeout = 30 * second"

definition DefaultShutdownTimeout :: duration where
  "DefaultShutdownTimeout = 30 * second"

definition MaxDatagramSize :: int where
  "MaxDatagramSize = 65535"

definition DefaultBufferSize :: int where
  "DefaultBufferSize = 8192"

definition DefaultWorkerPoolSize :: int where
  "DefaultWorkerPoolSize = 100"

record udp_Config =
  udp_Address :: string
  udp_TargetAddress :: string
  udp_SessionTimeout :: duration
  udp_ShutdownTimeout :: duration
  udp_MaxSessions :: int
  udp_BufferSize :: int
  udp_WorkerPoolSize :: int
  udp_ReadBufferSize :: int
  udp_WriteBufferSize :: int

definition udp_defaults :: "udp_Config \<Rightarrow> udp_Config" where
  "udp_defaults cfg = (
     let cfg = (if udp_SessionTimeout cfg = 0 then cfg\<lparr>udp_SessionTimeout := DefaultSessionTimeout\<rparr> else cfg);
         cfg = (if udp_ShutdownTimeout cfg = 0 then cfg\<lparr>udp_ShutdownTimeout := DefaultShutdownTimeout\<rparr> else cfg);
         cfg = (if udp_BufferSize cfg = 0 then cfg\<lparr>udp_BufferSize := DefaultBufferSize\<rparr> else cfg);
         cfg = (if udp_BufferSize cfg > MaxDatagramSize then cfg\<lparr>udp_BufferSize := MaxDatagramSize\<rparr> else cfg)
     in if udp_WorkerPoolSize cfg = 0 then cfg\<lparr>udp_WorkerPoolSize := DefaultWorkerPoolSize\<rparr> else cfg)"

datatype dest = ToBackend nat | ToClient string

record ('h, 'c) udp_sys =
  ud_config :: udp_Config
  ud_sm :: "('h, 'c) SessionManager"
  ud_packetCh :: "(string \<times> bytes) list"
  ud_missed :: "(string \<times> bytes) list"
  ud_found :: "(nat \<times> bool \<times> bytes) list"
  ud_readers :: "nat list"
  ud_leaving :: "nat list"
  ud_toRemove :: "string list"
  ud_net :: "(dest \<times> bytes) list"

text \<open>
  \<^verbatim>\<open>New\<close>; \<open>None\<close> is the panic of \<^verbatim>\<open>make(chan)\<close> with a negative size.
\<close>

definition udp_New :: "udp_Config \<Rightarrow> 'h \<Rightarrow> ('h, 'c) udp_sys option" where
  "udp_New cfg h = (let cfg = udp_defaults cfg in
     if wrap64 (udp_WorkerPoolSize cfg * 2) < 0 then None
     else Some \<lparr>ud_config = cfg, ud_sm = NewSessionManager (udp_MaxSessions cfg) h, ud_packetCh = [],
                ud_missed = [], ud_found = [], ud_readers = [], ud_leaving = [], ud_toRemove = [], ud_net = []\<rparr>)"

text \<open>
  The read loop hands a datagram to the workers without blocking (lines 224-237): a buffer
  holds at most \<open>BufferSize\<close> bytes, the rest of a longer datagram is cut off by the read.
\<close>

definition udp_enqueue :: "string \<Rightarrow> bytes \<Rightarrow> ('h, 'c) udp_sys \<Rightarrow> ('h, 'c) udp_sys" where
  "udp_enqueue clientAddr data s = (
     let datagram = take (nat (udp_BufferSize (ud_config s))) data
     in if int (length (ud_packetCh s)) < wrap64 (udp_WorkerPoolSize (ud_config s) * 2)
        then s\<lparr>ud_packetCh := ud_packetCh s @ [(clientAddr, datagram)]\<rparr> else s)"

text \<open>A call of the parser on the context of a session; what it writes goes to one destination.\<close>

definition session_parse :: "(bytes, bytes list, 'h, 'c) parser \<Rightarrow> ('h, 'c) Handler \<Rightarrow> Direction \<Rightarrow> dest
    \<Rightarrow> nat \<Rightarrow> bytes \<Rightarrow> ('h, 'c) udp_sys \<Rightarrow> ('h, 'c) udp_sys" where
  "session_parse parse H dir dst ref data s = (
     let sm = ud_sm s; sess = sm_heap sm ! ref
     in case parse dir H data [] (ss_Context sess, sm_handler sm) of
          (e, r, w, hctx, h) \<Rightarrow>
            s\<lparr>ud_sm := sm\<lparr>sm_handler := h, sm_heap := (sm_heap sm)[ref := sess\<lparr>ss_Context := hctx\<rparr>]\<rparr>,
              ud_net := ud_net s @ map (Pair dst) w\<rparr>)"

text \<open>
  \<^verbatim>\<open>handlePacket\<close> after \<^verbatim>\<open>GetOrCreate\<close> (lines 312-329): an error of the parser is only
  logged, and a new session gets its downstream reader either way.
\<close>

definition packet_found :: "(bytes, bytes list, 'h, 'c) parser \<Rightarrow> ('h, 'c) Handler \<Rightarrow> nat \<Rightarrow> bool \<Rightarrow> bytes
    \<Rightarrow> ('h, 'c) udp_sys \<Rightarrow> ('h, 'c) udp_sys" where
  "packet_found parse H ref isNew data s = (
     let s = session_parse parse H Upstream (ToBackend ref) ref data s
     in if isNew then s\<lparr>ud_readers := ref # ud_readers s\<rparr> else s)"

definition handlePacket :: "(bytes, bytes list, 'h, 'c) parser \<Rightarrow> ('h, 'c) Handler \<Rightarrow> string \<Rightarrow> bytes
    \<Rightarrow> err option \<Rightarrow> err option \<Rightarrow> string \<Rightarrow> time \<Rightarrow> ('h, 'c) udp_sys \<Rightarrow> err option \<times> ('h, 'c) udp_sys" where
  "handlePacket parse H clientAddr data resolve dial sessionID now s =
     (case GetOrCreate clientAddr (udp_TargetAddress (ud_config s)) resolve dial sessionID now (ud_sm s) of
        (Inl e, sm) \<Rightarrow> (Some e, s\<lparr>ud_sm := sm\<rparr>)
      | (Inr (ref, isNew), sm) \<Rightarrow> (None, packet_found parse H ref isNew data (s\<lparr>ud_sm := sm\<rparr>)))"

text \<open>One round of \<^verbatim>\<open>readDownstream\<close>; the first component says whether the loop goes on.\<close>

datatype read_result = ReadData bytes | ReadTimedOut | ReadFailed

definition downstream_round :: "(bytes, bytes list, 'h, 'c) parser \<Rightarrow> ('h, 'c) Handler \<Rightarrow> nat \<Rightarrow> bool
    \<Rightarrow> read_result \<Rightarrow> time \<Rightarrow> ('h, 'c) udp_sys \<Rightarrow> bool \<times> ('h, 'c) udp_sys" where
  "downstream_round parse H ref deadline_ok res now s = (
     let sess = sm_heap (ud_sm s) ! ref
     in if ss_cancelled sess then (False, s)
        else if \<not> deadline_ok then (False, s)
        else case res of
          ReadTimedOut \<Rightarrow>
            (if time_sub now (GetLastActivity sess) > udp_SessionTimeout (ud_config s) then (False, s) else (True, s))
        | ReadFailed \<Rightarrow> (False, s)
        | ReadData data \<Rightarrow>
            (True, session_parse parse H Downstream (ToClient (ss_RemoteAddr sess)) ref
                     (take (nat (udp_BufferSize (ud_config s))) data)
                     (s\<lparr>ud_sm := touch now ref (ud_sm s)\<rparr>)))"

text \<open>The deferred end of the reader (lines 334-345): removal by address, then notification and close.\<close>

definition reader_removes :: "nat \<Rightarrow> ('h, 'c) udp_sys \<Rightarrow> ('h, 'c) udp_sys" where
  "reader_removes ref s = s\<lparr>ud_sm := sm_Remove (ss_RemoteAddr (sm_heap (ud_sm s) ! ref)) (ud_sm s)\<rparr>"

text \<open>The events of the server.\<close>

datatype udp_event =
    Arrives string bytes
  | LooksUp time
  | Creates string bytes "err option" "err option" string time
  | Processes nat bool bytes
  | Reads nat bool read_result time
  | Ends nat
  | Scans time "nat gomap"
  | Sweeps

fun udp_exec :: "(bytes, bytes list, 'h, 'c) parser \<Rightarrow> ('h, 'c) Handler \<Rightarrow> udp_event
    \<Rightarrow> ('h, 'c) udp_sys \<Rightarrow> ('h, 'c) udp_sys option" where
  "udp_exec parse H (Arrives clientAddr data) s = Some (udp_enqueue clientAddr data s)"
| "udp_exec parse H (LooksUp now) s = (case ud_packetCh s of
     [] \<Rightarrow> None
   | (clientAddr, data) # rest \<Rightarrow>
       (let s = s\<lparr>ud_packetCh := rest\<rparr>
        in case sm_Get clientAddr (ud_sm s) of
          Some ref \<Rightarrow> Some (s\<lparr>ud_sm := touch now ref (ud_sm s), ud_found := (ref, False, data) # ud_found s\<rparr>)
        | None \<Rightarrow> Some (s\<lparr>ud_missed := (clientAddr, data) # ud_missed s\<rparr>)))"
| "udp_exec parse H (Creates clientAddr data resolve dial sessionID now) s =
     (if (clientAddr, data) \<in> set (ud_missed s) then
        (let s = s\<lparr>ud_missed := remove1 (clientAddr, data) (ud_missed s)\<rparr>
         in case sm_create clientAddr (udp_TargetAddress (ud_config s)) resolve dial sessionID now (ud_sm s) of
              (Inl e, sm) \<Rightarrow> Some (s\<lparr>ud_sm := sm\<rparr>)
            | (Inr (ref, isNew), sm) \<Rightarrow> Some (s\<lparr>ud_sm := sm, ud_found := (ref, isNew, data) # ud_found s\<rparr>))
      else None)"
| "udp_exec parse H (Processes ref isNew data) s =
     (if (ref, isNew, data) \<in> set (ud_found s)
      then Some (packet_found parse H ref isNew data (s\<lparr>ud_found := remove1 (ref, isNew, data) (ud_found s)\<rparr>))
      else None)"
| "udp_exec parse H (Reads ref deadline_ok res now) s =
     (if ref \<in> set (ud_readers s) then
        (case downstream_round parse H ref deadline_ok res now s of
           (True, s) \<Rightarrow> Some s
         | (False, s) \<Rightarrow> Some ((reader_removes ref s)\<lparr>ud_readers := remove1 ref (ud_readers s),
                                                    ud_leaving := ref # ud_leaving s\<rparr>))
      else None)"
| "udp_exec parse H (Ends ref) s =
     (if ref \<in> set (ud_leaving s)
      then Some (s\<lparr>ud_sm := end_session H ref (ud_sm s), ud_leaving := remove1 ref (ud_leaving s)\<rparr>) else None)"
| "udp_exec parse H (Scans now order) s =
     (if go_map order \<and> set order = set (sm_sessions (ud_sm s))
      then Some (s\<lparr>ud_toRemove := cleanup_scan (udp_SessionTimeout (ud_config s)) now order (ud_sm s)\<rparr>) else None)"
| "udp_exec parse H Sweeps s =
     Some (s\<lparr>ud_sm := cleanup_apply H (ud_toRemove s) (ud_sm s), ud_toRemove := []\<rparr>)"

inductive udp_step :: "(bytes, bytes list, 'h, 'c) parser \<Rightarrow> ('h, 'c) Handler \<Rightarrow> ('h, 'c) udp_sys \<Rightarrow> ('h, 'c) udp_sys \<Rightarrow> bool"
  for parse H where
  event: "udp_exec parse H ev s = Some t \<Longrightarrow> udp_step parse H s t"

definition udp_init :: "('h, 'c) udp_sys \<Rightarrow> bool" where
  "udp_init s \<longleftrightarrow> (\<exists>cfg h. udp_New cfg h = Some s)"

text \<open>A run of events.\<close>

fun udp_run :: "(bytes, bytes list, 'h, 'c) parser \<Rightarrow> ('h, 'c) Handler \<Rightarrow> udp_event list
    \<Rightarrow> ('h, 'c) udp_sys \<Rightarrow> ('h, 'c) udp_sys option" where
  "udp_run parse H [] s = Some s"
| "udp_run parse H (ev # evs) s = Option.bind (udp_exec parse H ev s) (udp_run parse H evs)"

text \<open>The sessions the goroutines of the server hold pointers to.\<close>

definition udp_refs :: "('h, 'c) udp_sys \<Rightarrow> nat set" where
  "udp_refs s = fst ` set (ud_found s) \<union> set (ud_readers s) \<union> set (ud_leaving s)"

definition udp_inv :: "('h, 'c) udp_sys \<Rightarrow> bool" where
  [inv_defs]: "udp_inv s \<longleftrightarrow> sm_inv (ud_sm s) \<and> udp_refs s \<subseteq> {..<length (sm_heap (ud_sm s))}"

section \<open>Invariant\<close>

lemma touch_simps [simp]:
  "sm_sessions (touch now ref sm) = sm_sessions sm" "length (sm_heap (touch now ref sm)) = length (sm_heap sm)"
  by (simp_all add: touch_def)

lemma create_length: "length (sm_heap sm) \<le> length (sm_heap (snd (sm_create a t rs dl sid now sm)))"
  by (auto simp: sm_create_def Let_def split: option.splits)

lemma create_ref: "sm_inv sm \<Longrightarrow> sm_create a t rs dl sid now sm = (Inr (ref, isNew), sm') \<Longrightarrow> ref < length (sm_heap sm')"
  by (auto simp: sm_create_def Let_def split: option.splits if_splits dest: sm_ref_bound)

lemma session_parse_simps [simp]:
  "ud_found (session_parse parse H dir dst ref data s) = ud_found s"
  "ud_readers (session_parse parse H dir dst ref data s) = ud_readers s"
  "ud_leaving (session_parse parse H dir dst ref data s) = ud_leaving s"
  "sm_sessions (ud_sm (session_parse parse H dir dst ref data s)) = sm_sessions (ud_sm s)"
  "length (sm_heap (ud_sm (session_parse parse H dir dst ref data s))) = length (sm_heap (ud_sm s))"
  "ud_toRemove (session_parse parse H dir dst ref data s) = ud_toRemove s"
  by (simp_all add: session_parse_def Let_def split: prod.splits)

lemma sm_inv_session_parse:
  assumes "sm_inv (ud_sm s)"
  shows "sm_inv (ud_sm (session_parse parse H dir dst ref data s))"
proof -
  obtain e r w hctx h where p: "parse dir H data [] (ss_Context (sm_heap (ud_sm s) ! ref), sm_handler (ud_sm s)) = (e, r, w, hctx, h)"
    by (cases "parse dir H data [] (ss_Context (sm_heap (ud_sm s) ! ref), sm_handler (ud_sm s))")
  let ?heap = "(sm_heap (ud_sm s))[ref := (sm_heap (ud_sm s) ! ref)\<lparr>ss_Context := hctx\<rparr>]"
  have "ss_RemoteAddr (?heap ! i) = ss_RemoteAddr (sm_heap (ud_sm s) ! i)" if "i < length ?heap" for i
    using that by (cases "i = ref") simp_all
  from sm_inv_heap(2) [OF assms _ this, of h] have "sm_inv ((ud_sm s)\<lparr>sm_handler := h, sm_heap := ?heap\<rparr>)" by simp
  then show ?thesis by (simp add: session_parse_def Let_def p)
qed

lemma downstream_round_keeps:
  assumes "sm_inv (ud_sm s)" and "downstream_round parse H ref ok res now s = (go, t)"
  shows "sm_inv (ud_sm t) \<and> ud_found t = ud_found s \<and> ud_readers t = ud_readers s \<and> ud_leaving t = ud_leaving s
    \<and> length (sm_heap (ud_sm t)) = length (sm_heap (ud_sm s))"
  using assms sm_inv_touch [OF assms(1), of now ref]
  by (auto simp: downstream_round_def Let_def sm_inv_session_parse split: read_result.splits if_splits)

lemma udp_inv_I:
  assumes "udp_inv s" and "sm_inv (ud_sm t)" and "length (sm_heap (ud_sm s)) \<le> length (sm_heap (ud_sm t))"
    and "udp_refs t \<subseteq> udp_refs s \<union> {..<length (sm_heap (ud_sm t))}"
  shows "udp_inv t"
  using assms unfolding udp_inv_def by (auto simp: subset_iff)

lemma remove1_fst: "fst ` set (remove1 x ys) \<subseteq> fst ` set ys"
  by (rule image_mono, rule set_remove1_subset)

lemma udp_inv_LooksUp:
  assumes "udp_inv s" and "udp_exec parse H (LooksUp now) s = Some t"
  shows "udp_inv t"
proof -
  from assms(2) obtain a data rest where q: "ud_packetCh s = (a, data) # rest"
    by (cases "ud_packetCh s") auto
  have i: "sm_inv (ud_sm s)" using assms(1) by (simp add: udp_inv_def)
  show ?thesis
  proof (cases "sm_Get a (ud_sm s)")
    case None
    then have "t = s\<lparr>ud_packetCh := rest, ud_missed := (a, data) # ud_missed s\<rparr>"
      using assms(2) q by (simp add: sm_Get_def)
    then show ?thesis using assms(1) by (simp add: udp_inv_def udp_refs_def)
  next
    case (Some ref)
    then have t: "t = s\<lparr>ud_packetCh := rest, ud_sm := touch now ref (ud_sm s), ud_found := (ref, False, data) # ud_found s\<rparr>"
      using assms(2) q by (simp add: sm_Get_def)
    have "ref < length (sm_heap (ud_sm s))" using Some i by (simp add: sm_Get_def sm_ref_bound)
    then show ?thesis using i by (intro udp_inv_I [OF assms(1)]) (auto simp: t sm_inv_touch udp_refs_def)
  qed
qed

lemma udp_inv_Creates:
  assumes "udp_inv s" and "udp_exec parse H (Creates a data rs dl sid now) s = Some t"
  shows "udp_inv t"
proof -
  obtain res sm where c: "sm_create a (udp_TargetAddress (ud_config s)) rs dl sid now (ud_sm s) = (res, sm)"
    by (cases "sm_create a (udp_TargetAddress (ud_config s)) rs dl sid now (ud_sm s)")
  have i: "sm_inv (ud_sm s)" using assms(1) by (simp add: udp_inv_def)
  have k: "sm_inv sm" "length (sm_heap (ud_sm s)) \<le> length (sm_heap sm)"
    using sm_inv_create [OF i, of a "udp_TargetAddress (ud_config s)" rs dl sid now]
      create_length [of "ud_sm s" a "udp_TargetAddress (ud_config s)" rs dl sid now] c by simp_all
  show ?thesis
  proof (cases res)
    case (Inl e)
    then have "t = s\<lparr>ud_missed := remove1 (a, data) (ud_missed s), ud_sm := sm\<rparr>"
      using assms(2) c by (simp add: Let_def split: if_splits)
    then show ?thesis using k by (intro udp_inv_I [OF assms(1)]) (auto simp: udp_refs_def)
  next
    case (Inr p)
    obtain ref isNew where p: "p = (ref, isNew)" by (cases p)
    have "ref < length (sm_heap sm)" using create_ref [OF i] c Inr p by simp
    moreover have "t = s\<lparr>ud_missed := remove1 (a, data) (ud_missed s), ud_sm := sm, ud_found := (ref, isNew, data) # ud_found s\<rparr>"
      using assms(2) c Inr p by (simp add: Let_def split: if_splits)
    ultimately show ?thesis using k by (intro udp_inv_I [OF assms(1)]) (auto simp: udp_refs_def)
  qed
qed

lemma udp_inv_Processes:
  assumes "udp_inv s" and "udp_exec parse H (Processes ref isNew data) s = Some t"
  shows "udp_inv t"
proof -
  have f: "(ref, isNew, data) \<in> set (ud_found s)"
    and t: "t = packet_found parse H ref isNew data (s\<lparr>ud_found := remove1 (ref, isNew, data) (ud_found s)\<rparr>)"
    using assms(2) by (simp_all split: if_splits)
  have "ref \<in> udp_refs s" using f by (force simp: udp_refs_def)
  then show ?thesis
    using assms(1) remove1_fst [of "(ref, isNew, data)" "ud_found s"]
    by (intro udp_inv_I [OF assms(1)])
      (auto simp: t packet_found_def Let_def sm_inv_session_parse udp_inv_def, auto simp: udp_refs_def)
qed

lemma udp_inv_Reads:
  assumes "udp_inv s" and "udp_exec parse H (Reads ref ok res now) s = Some t"
  shows "udp_inv t"
proof -
  obtain go u where d: "downstream_round parse H ref ok res now s = (go, u)"
    by (cases "downstream_round parse H ref ok res now s")
  have r: "ref \<in> set (ud_readers s)" using assms(2) by (simp split: if_splits)
  have k: "sm_inv (ud_sm u)" "ud_found u = ud_found s" "ud_readers u = ud_readers s" "ud_leaving u = ud_leaving s"
    "length (sm_heap (ud_sm u)) = length (sm_heap (ud_sm s))"
    using downstream_round_keeps [OF _ d] assms(1) by (simp_all add: udp_inv_def)
  show ?thesis
  proof (cases go)
    case True
    then have "t = u" using assms(2) d r by simp
    then show ?thesis using k by (intro udp_inv_I [OF assms(1)]) (simp_all add: udp_refs_def)
  next
    case False
    then have "t = (reader_removes ref u)\<lparr>ud_readers := remove1 ref (ud_readers u), ud_leaving := ref # ud_leaving u\<rparr>"
      using assms(2) d r by simp
    then show ?thesis using k r set_remove1_subset [of ref "ud_readers s"]
      by (intro udp_inv_I [OF assms(1)]) (auto simp: reader_removes_def sm_inv_Remove udp_refs_def)
  qed
qed

lemma udp_inv_exec:
  assumes "udp_inv s" and "udp_exec parse H ev s = Some t"
  shows "udp_inv t"
proof (cases ev)
  case (Arrives a data)
  then have "t = udp_enqueue a data s" using assms(2) by simp
  then show ?thesis using assms(1) by (simp add: udp_inv_def udp_enqueue_def udp_refs_def Let_def)
next
  case (Ends ref)
  then show ?thesis using assms set_remove1_subset [of ref "ud_leaving s"]
    by (intro udp_inv_I [OF assms(1)])
      (auto simp: udp_inv_def sm_inv_end_session udp_refs_def split: if_splits)
next
  case (Scans now order)
  then show ?thesis using assms
    by (intro udp_inv_I [OF assms(1)]) (auto simp: udp_inv_def udp_refs_def split: if_splits)
next
  case Sweeps
  then show ?thesis using assms
    by (intro udp_inv_I [OF assms(1)]) (auto simp: udp_inv_def sm_inv_cleanup_apply udp_refs_def)
next
  case (LooksUp now)
  show ?thesis by (rule udp_inv_LooksUp [OF assms(1) assms(2) [unfolded LooksUp]])
next
  case (Creates a data rs dl sid now)
  show ?thesis by (rule udp_inv_Creates [OF assms(1) assms(2) [unfolded Creates]])
next
  case (Processes ref isNew data)
  show ?thesis by (rule udp_inv_Processes [OF assms(1) assms(2) [unfolded Processes]])
next
  case (Reads ref ok res now)
  show ?thesis by (rule udp_inv_Reads [OF assms(1) assms(2) [unfolded Reads]])
qed

interpretation udp_machine: inv_system udp_init "udp_step parse H" udp_inv for parse H
proof
  show "udp_init s \<Longrightarrow> udp_inv s" for s
    by (auto simp: udp_init_def udp_New_def udp_inv_def udp_refs_def sm_inv_New Let_def split: if_splits)
  show "udp_inv s \<Longrightarrow> udp_step parse H s t \<Longrightarrow> udp_inv t" for s t
    by (auto elim!: udp_step.cases intro: udp_inv_exec)
qed

lemma udp_run_reach:
  "reach udp_init (udp_step parse H) s \<Longrightarrow> udp_run parse H evs s = Some t \<Longrightarrow> reach udp_init (udp_step parse H) t"
proof (induction evs arbitrary: s)
  case (Cons ev evs)
  then obtain u where "udp_exec parse H ev s = Some u" "udp_run parse H evs u = Some t"
    by (auto simp: bind_eq_Some_conv)
  then show ?case using Cons.IH reach_step [OF Cons.prems(1), of u] udp_step.event by blast
qed simp

section \<open>Properties\<close>

text \<open>C20 (invariant). Under every interleaving of workers, readers and the cleaner the session
  manager tracks at most \<open>MaxSessions\<close> sessions when a limit is set, and the map is sound:
  every entry points to the session of that client address, and no session has two entries.\<close>

theorem udp_session_limit:
  assumes "reach udp_init (udp_step parse H) s"
  shows "(sm_maxSessions (ud_sm s) > 0 \<longrightarrow> sm_Count (ud_sm s) \<le> sm_maxSessions (ud_sm s))
    \<and> (\<forall>a ref. sm_Get a (ud_sm s) = Some ref \<longrightarrow>
         ref < length (sm_heap (ud_sm s)) \<and> ss_RemoteAddr (sm_heap (ud_sm s) ! ref) = a)
    \<and> distinct (map snd (sm_sessions (ud_sm s)))"
proof -
  have i: "sm_inv (ud_sm s)" using udp_machine.reach_inv [OF assms] by (simp add: udp_inv_def)
  have "ref < length (sm_heap (ud_sm s)) \<and> ss_RemoteAddr (sm_heap (ud_sm s) ! ref) = a"
    if "sm_Get a (ud_sm s) = Some ref" for a ref
    using i map_of_SomeD [of "sm_sessions (ud_sm s)" a ref] that
    by (auto simp: sm_inv_def sm_Get_def list_all_iff)
  with i show ?thesis by (simp add: sm_inv_def sm_Count_def)
qed

text \<open>A parser that forwards every datagram, a configuration for one session, and the run of the
  next property.\<close>

definition plain_parse :: "(bytes, bytes list, 'h, 'c) parser" where
  "plain_parse dir H r w s = (None, [], w @ [r], s)"

definition one_session :: udp_Config where
  "one_session = \<lparr>udp_Address = [], udp_TargetAddress = [], udp_SessionTimeout = 30, udp_ShutdownTimeout = 0,
     udp_MaxSessions = 1, udp_BufferSize = 0, udp_WorkerPoolSize = 0, udp_ReadBufferSize = 0, udp_WriteBufferSize = 0\<rparr>"

definition one_start :: "(string list \<times> unit, unit) udp_sys" where
  "one_start = the (udp_New one_session ([], ()))"

definition first_contact :: "string \<Rightarrow> time \<Rightarrow> nat \<Rightarrow> udp_event list" where
  "first_contact sid now ref = [Arrives ''a'' ''d'', LooksUp now, Creates ''a'' ''d'' None None sid now, Processes ref True ''d'']"

definition leak_run :: "udp_event list" where
  "leak_run = first_contact ''s0'' 0 0 @ [Scans 100 [(''a'', 0)], Sweeps] @ first_contact ''s1'' 101 1
     @ [Reads 0 True ReadFailed 102, Ends 0] @ first_contact ''s2'' 103 2"

lemma one_start_reach: "reach udp_init (udp_step parse H) one_start"
  by (rule reach_init)
    (auto simp: udp_init_def one_start_def udp_New_def udp_defaults_def one_session_def wrap64_def Let_def
      DefaultWorkerPoolSize_def intro!: exI [of _ one_session])

lemmas udp_eval = one_start_def udp_New_def udp_defaults_def one_session_def wrap64_def Let_def plain_parse_def
  DefaultWorkerPoolSize_def DefaultBufferSize_def DefaultShutdownTimeout_def MaxDatagramSize_def second_def
  NewSessionManager_def udp_enqueue_def sm_Get_def sm_create_def new_session_def packet_found_def session_parse_def
  cleanup_scan_def GetLastActivity_def time_sub_def min_int64_def max_int64_def go_map_def sm_Remove_def
  end_session_def session_Close_def downstream_round_def reader_removes_def handler_simps first_contact_def leak_run_def

lemma leak_run_result:
  "\<exists>s. udp_run plain_parse (logged NoopHandler) leak_run one_start = Some s
     \<and> sm_sessions (ud_sm s) = [(''a'', 2)] \<and> ud_readers s = [2, 1]
     \<and> map ss_ID (sm_heap (ud_sm s)) = [''s0'', ''s1'', ''s2'']
     \<and> map ss_backendClosed (sm_heap (ud_sm s)) = [True, False, False]
     \<and> sm_handler (ud_sm s) = ([''OnDisconnect'', ''OnDisconnect''], ()) \<and> sm_maxSessions (ud_sm s) = 1"
  by (simp add: udp_eval)

theorem udp_session_limit_witness:
  "\<exists>s. udp_run plain_parse (logged NoopHandler) leak_run one_start = Some s \<and> sm_Count (ud_sm s) = 1
     \<and> sm_Count (ud_sm s) \<le> sm_maxSessions (ud_sm s)"
proof -
  obtain s where s: "udp_run plain_parse (logged NoopHandler) leak_run one_start = Some s"
    "sm_sessions (ud_sm s) = [(''a'', 2)]" "ud_readers s = [2, 1]"
    "map ss_backendClosed (sm_heap (ud_sm s)) = [True, False, False]"
    "sm_handler (ud_sm s) = ([''OnDisconnect'', ''OnDisconnect''], ())" "sm_maxSessions (ud_sm s) = 1"
    using leak_run_result by (elim exE conjE)
  from udp_session_limit [OF udp_run_reach [OF one_start_reach s(1)]] s show ?thesis
    by (auto simp: sm_Count_def)
qed

text \<open>C39 (error). A session can escape the manager, and with it the limit. The reader of a
  session that timed out removes the map entry of its client address when it ends, but by
  then the entry may belong to the client's next session. In a run with \<open>MaxSessions = 1\<close>
  two sessions of one client end up open, each with a running reader, only one of them in
  the map; and the session that timed out is reported to \<^verbatim>\<open>OnDisconnect\<close> twice.\<close>

theorem udp_session_escapes:
  "\<exists>s. reach udp_init (udp_step plain_parse (logged (NoopHandler :: (unit, unit) Handler))) s
     \<and> sm_maxSessions (ud_sm s) = 1 \<and> sm_Count (ud_sm s) = 1
     \<and> length (filter (\<lambda>x. \<not> ss_backendClosed x) (sm_heap (ud_sm s))) = 2
     \<and> set (ud_readers s) = {1, 2} \<and> 1 \<notin> set (map snd (sm_sessions (ud_sm s)))
     \<and> fst (sm_handler (ud_sm s)) = [''OnDisconnect'', ''OnDisconnect'']"
proof -
  obtain s where s: "udp_run plain_parse (logged NoopHandler) leak_run one_start = Some s"
    "sm_sessions (ud_sm s) = [(''a'', 2)]" "ud_readers s = [2, 1]"
    "map ss_backendClosed (sm_heap (ud_sm s)) = [True, False, False]"
    "sm_handler (ud_sm s) = ([''OnDisconnect'', ''OnDisconnect''], ())" "sm_maxSessions (ud_sm s) = 1"
    using leak_run_result by (elim exE conjE)
  have "filter (\<lambda>b. \<not> b) (map ss_backendClosed (sm_heap (ud_sm s))) = [False, False]" by (simp add: s(4))
  then have "map ss_backendClosed (filter (\<lambda>x. \<not> ss_backendClosed x) (sm_heap (ud_sm s))) = [False, False]"
    by (simp only: filter_map comp_def)
  from arg_cong [OF this, of length]
  have l: "length (filter (\<lambda>x. \<not> ss_backendClosed x) (sm_heap (ud_sm s))) = 2" by (simp only: length_map) simp
  have r: "reach udp_init (udp_step plain_parse (logged NoopHandler)) s"
    by (rule udp_run_reach [OF one_start_reach s(1)])
  have "set (ud_readers s) = {1, 2}" by (simp add: s(3) insert_commute)
  then show ?thesis
    by (intro exI [of _ s] conjI) (simp_all add: r l s(2,5,6) sm_Count_def)
qed

end
