(* ===== verification/TlsVerifier.thy ===== *)
theory TlsVerifier
  imports Errors
begin

text \<open>
  Revocation checks of client certificates (\<^verbatim>\<open>src/pkg/tls/verifier/verifier.go\<close>,
  \<^verbatim>\<open>crl/crl.go\<close>, \<^verbatim>\<open>ocsp/ocsp.go\<close>) and the choice of methods
  (\<^verbatim>\<open>src/pkg/tls/verifications.go\<close>). A certificate has the fields the checks read. Files,
  HTTP, PEM and X.509 decoding, signatures and the OCSP library are the environment
  \<open>tls_env\<close>, whose answers are functions of what is asked during one handshake; a nil
  pointer that the code passes to a method which dereferences it is the outcome
  \<open>Panics\<close>. Shown: exactly when each verifier accepts, what the depth settings do and do
  not limit, which signatures are checked, and when the callback panics.
\<close>

section \<open>Definitions\<close>

datatype 'a res = Ok 'a | Fail err | Panics

record pkix_name =
  nm_SerialNumber :: string
  nm_CommonName :: string
  nm_String :: string

record x509 =
  x_Subject :: pkix_name
  x_Issuer :: pkix_name
  x_SerialNumber :: int
  x_CRLDistributionPoints :: "string list"
  x_OCSPServer :: "string list"
  x_IssuingCertificateURL :: "string list"
  x_IsCA :: bool
  x_AuthorityKeyId :: bytes
  x_SubjectKeyId :: bytes

record RevocationList =
  rl_RevokedSerials :: "int list"
  rl_NextUpdate :: time
  rl_raw :: bytes

datatype ocsp_Status = Good | Revoked string | ServerFailed | Unknown | OtherStatus nat

text \<open>\<open>env_Get\<close> and \<open>env_Post\<close> give the error of the request, or the error or the bytes of its body.\<close>

record tls_env =
  env_ReadFile :: "string \<Rightarrow> err + bytes"
  env_Get :: "string \<Rightarrow> err + (err + bytes)"
  env_Post :: "string \<Rightarrow> bytes \<Rightarrow> err + (err + bytes)"
  env_NewRequest :: "string \<Rightarrow> err option"
  env_UrlParse :: "string \<Rightarrow> err option"
  env_PemDecode :: "bytes \<Rightarrow> bytes option"
  env_ParseCertificate :: "bytes \<Rightarrow> err + x509"
  env_ParseRevocationList :: "bytes \<Rightarrow> err + RevocationList"
  env_CheckSignatureFrom :: "RevocationList \<Rightarrow> x509 \<Rightarrow> err option"
  env_CreateRequest :: "x509 \<Rightarrow> x509 \<Rightarrow> err + bytes"
  env_ParseResponseForCert :: "bytes \<Rightarrow> x509 \<Rightarrow> x509 \<Rightarrow> err + ocsp_Status"
  env_Now :: time

subsection \<open>Shared by both verifiers\<close>

definition loadCertFile :: "tls_env \<Rightarrow> string \<Rightarrow> err + bytes" where
  "loadCertFile v certFile = (if certFile \<noteq> [] then env_ReadFile v certFile else Inr [])"

fun retrieveIssuerCert :: "pkix_name \<Rightarrow> x509 list \<Rightarrow> x509 option" where
  "retrieveIssuerCert issuerSubject [] = None"
| "retrieveIssuerCert issuerSubject (cert # certs) = (
     let sub = x_Subject cert
     in if nm_SerialNumber sub \<noteq> [] \<and> nm_SerialNumber issuerSubject \<noteq> [] \<and> nm_SerialNumber sub = nm_SerialNumber issuerSubject
        then Some cert
        else if (nm_SerialNumber sub = [] \<or> nm_SerialNumber issuerSubject = []) \<and> nm_String sub = nm_String issuerSubject
        then Some cert
        else retrieveIssuerCert issuerSubject certs)"

definition sentinel :: "string \<Rightarrow> string \<Rightarrow> err" where
  "sentinel pkg txt = Sentinel (pkg @ ''.'' @ txt) txt"

fun parseCertificates :: "string \<Rightarrow> tls_env \<Rightarrow> bytes list \<Rightarrow> err + x509 list" where
  "parseCertificates pkg v [] = Inr []"
| "parseCertificates pkg v (rawCert # rawCerts) = (case env_ParseCertificate v rawCert of
     Inl e \<Rightarrow> Inl (Join [sentinel pkg ''failed to parse Certificate'', e])
   | Inr cert \<Rightarrow> (case parseCertificates pkg v rawCerts of Inl e \<Rightarrow> Inl e | Inr certs \<Rightarrow> Inr (cert # certs)))"

subsection \<open>CRL\<close>

definition errCRL :: "string \<Rightarrow> err" where
  "errCRL txt = sentinel ''crl'' txt"

definition crl_errCertRevoked :: err where
  "crl_errCertRevoked = errCRL ''certificate revoked''"

definition errNoCRL :: err where
  "errNoCRL = errCRL ''neither offline crl file nor crl distribution points in certificate / environmental variable CRL_DISTRIBUTION_POINTS & CRL_DISTRIBUTION_POINTS_ISSUER_CERT_FILE have values''"

record crl_config =
  CRLDepth :: int
  OfflineCRLFile :: string
  OfflineCRLIssuerCertFile :: string
  CRLDistributionPoints :: string
  CRLDistributionPointsIssuerCertFile :: string

fun crlVerify :: "int \<Rightarrow> int list \<Rightarrow> unit res" where
  "crlVerify serial [] = Ok ()"
| "crlVerify serial (revoked # rest) = (if revoked = serial then Fail crl_errCertRevoked else crlVerify serial rest)"

definition parseVerifyCRL :: "tls_env \<Rightarrow> bytes \<Rightarrow> x509 option \<Rightarrow> bool \<Rightarrow> RevocationList res" where
  "parseVerifyCRL v clrB issuerCert checkSign = (case env_PemDecode v clrB of
     None \<Rightarrow> Fail (errCRL ''failed to parse CRL'')
   | Some block \<Rightarrow> (case env_ParseRevocationList v block of
       Inl e \<Rightarrow> Fail (Join [errCRL ''failed to parse CRL'', e])
     | Inr crl \<Rightarrow>
         (case (if checkSign then
                  (case issuerCert of
                     None \<Rightarrow> Panics
                   | Some issuer \<Rightarrow> (case env_CheckSignatureFrom v crl issuer of
                       Some e \<Rightarrow> Fail (Join [errCRL ''failed to verify CRL signature'', e])
                     | None \<Rightarrow> Ok ()))
                else Ok ()) of
            Fail e \<Rightarrow> Fail e
          | Panics \<Rightarrow> Panics
          | Ok u \<Rightarrow> if rl_NextUpdate crl < env_Now v then Fail (errCRL ''crl expired'') else Ok crl)))"

definition retrieveCRL :: "tls_env \<Rightarrow> string \<Rightarrow> x509 option \<Rightarrow> bool \<Rightarrow> RevocationList res" where
  "retrieveCRL v crlDistributionPoints issuerCert checkSign = (case env_Get v crlDistributionPoints of
     Inl e \<Rightarrow> Fail (Join [errCRL ''failed to retrieve CRL'', e])
   | Inr (Inl e) \<Rightarrow> Fail (Join [errCRL ''failed to read CRL'', e])
   | Inr (Inr body) \<Rightarrow> parseVerifyCRL v body issuerCert checkSign)"

definition loadIssuerFile :: "tls_env \<Rightarrow> string \<Rightarrow> string \<Rightarrow> string \<Rightarrow> x509 option res" where
  "loadIssuerFile v file loadErr pemErr = (case loadCertFile v file of
     Inl e \<Rightarrow> Fail (Join [errCRL loadErr, e])
   | Inr [] \<Rightarrow> Ok None
   | Inr bs \<Rightarrow> (case env_PemDecode v bs of
       None \<Rightarrow> Fail (errCRL pemErr)
     | Some block \<Rightarrow> (case env_ParseCertificate v block of
         Inl e \<Rightarrow> Fail (Join [errCRL loadErr, e])
       | Inr cert \<Rightarrow> Ok (Some cert))))"

definition loadOfflineCRLIssuerCert :: "tls_env \<Rightarrow> crl_config \<Rightarrow> x509 option res" where
  "loadOfflineCRLIssuerCert v c = loadIssuerFile v (OfflineCRLIssuerCertFile c)
     ''failed to load offline CRL issuer cert file'' ''failed to decode PEM block in offline CRL issuer cert file''"

definition loadDistPointCRLIssuerCert :: "tls_env \<Rightarrow> crl_config \<Rightarrow> x509 option res" where
  "loadDistPointCRLIssuerCert v c = loadIssuerFile v (CRLDistributionPointsIssuerCertFile c)
     ''failed to load CRL distribution points issuer cert file''
     ''failed to decode PEM block in CRL distribution points issuer cert file''"

definition loadOfflineCRL :: "tls_env \<Rightarrow> crl_config \<Rightarrow> RevocationList option res" where
  "loadOfflineCRL v c = (case loadCertFile v (OfflineCRLFile c) of
     Inl e \<Rightarrow> Fail (Join [errCRL ''failed to load offline CRL file'', e])
   | Inr [] \<Rightarrow> Ok None
   | Inr bs \<Rightarrow> (case loadOfflineCRLIssuerCert v c of
       Fail e \<Rightarrow> Fail e
     | Panics \<Rightarrow> Panics
     | Ok issuer \<Rightarrow> (case parseVerifyCRL v bs None False of
         Fail e \<Rightarrow> Fail e | Panics \<Rightarrow> Panics | Ok crl \<Rightarrow> Ok (Some crl))))"

definition getCRLFromDistributionPoint :: "tls_env \<Rightarrow> crl_config \<Rightarrow> x509 \<Rightarrow> x509 option \<Rightarrow> RevocationList option res" where
  "getCRLFromDistributionPoint v c cert issuer = (case x_CRLDistributionPoints cert of
     point # points \<Rightarrow> (case retrieveCRL v point issuer True of
       Fail e \<Rightarrow> Fail e | Panics \<Rightarrow> Panics | Ok crl \<Rightarrow> Ok (Some crl))
   | [] \<Rightarrow>
      (if CRLDistributionPoints c \<noteq> [] \<and> CRLDistributionPointsIssuerCertFile c \<noteq> [] then
         (case loadDistPointCRLIssuerCert v c of
            Fail e \<Rightarrow> Fail e
          | Panics \<Rightarrow> Panics
          | Ok crlIssuerCrt \<Rightarrow> (case retrieveCRL v (CRLDistributionPoints c) crlIssuerCrt True of
              Fail e \<Rightarrow> Fail e | Panics \<Rightarrow> Panics | Ok crl \<Rightarrow> Ok (Some crl)))
       else Ok None))"

text \<open>The check of one certificate, the same in both loops (lines 88-101 and 114-127).\<close>

definition crl_check :: "tls_env \<Rightarrow> crl_config \<Rightarrow> RevocationList option \<Rightarrow> x509 \<Rightarrow> x509 option \<Rightarrow> unit res" where
  "crl_check v c offlineCRL cert issuer = (case getCRLFromDistributionPoint v c cert issuer of
     Fail e \<Rightarrow> Fail e
   | Panics \<Rightarrow> Panics
   | Ok crl \<Rightarrow> (case (case crl of Some x \<Rightarrow> Some x | None \<Rightarrow> offlineCRL) of
       None \<Rightarrow> Fail errNoCRL
     | Some x \<Rightarrow> crlVerify (x_SerialNumber cert) (rl_RevokedSerials x)))"

fun crl_chain :: "tls_env \<Rightarrow> crl_config \<Rightarrow> RevocationList option \<Rightarrow> x509 list \<Rightarrow> unit res" where
  "crl_chain v c offlineCRL [] = Ok ()"
| "crl_chain v c offlineCRL (cert # rest) =
     (case crl_check v c offlineCRL cert (Some (case rest of [] \<Rightarrow> cert | issuer # others \<Rightarrow> issuer)) of
        Ok u \<Rightarrow> crl_chain v c offlineCRL rest
      | Fail e \<Rightarrow> Fail e
      | Panics \<Rightarrow> Panics)"

fun crl_chains :: "tls_env \<Rightarrow> crl_config \<Rightarrow> RevocationList option \<Rightarrow> x509 list list \<Rightarrow> unit res" where
  "crl_chains v c offlineCRL [] = Ok ()"
| "crl_chains v c offlineCRL (chain # chs) = (case crl_chain v c offlineCRL chain of
     Ok u \<Rightarrow> crl_chains v c offlineCRL chs | Fail e \<Rightarrow> Fail e | Panics \<Rightarrow> Panics)"

definition crl_VerifyVerifiedPeerCertificates :: "tls_env \<Rightarrow> crl_config \<Rightarrow> x509 list list \<Rightarrow> unit res" where
  "crl_VerifyVerifiedPeerCertificates v c chs = (case loadOfflineCRL v c of
     Fail e \<Rightarrow> Fail e | Panics \<Rightarrow> Panics | Ok offlineCRL \<Rightarrow> crl_chains v c offlineCRL chs)"

text \<open>The loop over the certificates as they were sent; \<open>i\<close> counts up to the depth.\<close>

fun crl_raw :: "tls_env \<Rightarrow> crl_config \<Rightarrow> RevocationList option \<Rightarrow> x509 list \<Rightarrow> int \<Rightarrow> x509 list \<Rightarrow> unit res" where
  "crl_raw v c offlineCRL all i [] = Ok ()"
| "crl_raw v c offlineCRL all i (cert # rest) =
     (case crl_check v c offlineCRL cert (retrieveIssuerCert (x_Issuer cert) all) of
        Fail e \<Rightarrow> Fail e
      | Panics \<Rightarrow> Panics
      | Ok u \<Rightarrow> if i + 1 = wrap64 (CRLDepth c) then Ok () else crl_raw v c offlineCRL all (i + 1) rest)"

definition crl_VerifyRawPeerCertificates :: "tls_env \<Rightarrow> crl_config \<Rightarrow> x509 list \<Rightarrow> unit res" where
  "crl_VerifyRawPeerCertificates v c certs = (case loadOfflineCRL v c of
     Fail e \<Rightarrow> Fail e | Panics \<Rightarrow> Panics | Ok offlineCRL \<Rightarrow> crl_raw v c offlineCRL certs 0 certs)"

definition crl_VerifyPeerCertificate :: "tls_env \<Rightarrow> crl_config \<Rightarrow> bytes list \<Rightarrow> x509 list list \<Rightarrow> unit res" where
  "crl_VerifyPeerCertificate v c rawCerts verifiedChains = (
     if verifiedChains \<noteq> [] then crl_VerifyVerifiedPeerCertificates v c verifiedChains
     else if rawCerts \<noteq> [] then
       (case parseCertificates ''crl'' v rawCerts of
          Inl e \<Rightarrow> Fail e | Inr certs \<Rightarrow> crl_VerifyRawPeerCertificates v c certs)
     else Fail (errCRL ''client certificate not received''))"

text \<open>\<^verbatim>\<open>New\<close>: the verifier for the configuration the environment library parsed, or its error.\<close>

definition crl_New :: "tls_env \<Rightarrow> err + crl_config \<Rightarrow> err + (bytes list \<Rightarrow> x509 list list \<Rightarrow> unit res)" where
  "crl_New v parsed = (case parsed of Inl e \<Rightarrow> Inl e | Inr c \<Rightarrow> Inr (crl_VerifyPeerCertificate v c))"

subsection \<open>OCSP\<close>

definition errOCSP :: "string \<Rightarrow> err" where
  "errOCSP txt = sentinel ''ocsp'' txt"

definition ocsp_errCertRevoked :: err where
  "ocsp_errCertRevoked = errOCSP ''certificate revoked''"

record ocsp_config =
  OCSPDepth :: int
  OCSPResponderURL :: string

definition isRootCA :: "x509 \<Rightarrow> bool" where
  "isRootCA cert \<longleftrightarrow> x_IsCA cert
     \<and> ((x_AuthorityKeyId cert \<noteq> [] \<and> x_SubjectKeyId cert \<noteq> [] \<and> x_AuthorityKeyId cert = x_SubjectKeyId cert)
        \<or> nm_String (x_Issuer cert) = nm_String (x_Subject cert))"

definition retrieveIssuingCertificate :: "tls_env \<Rightarrow> string \<Rightarrow> x509 res" where
  "retrieveIssuingCertificate v issuingCertificateURL = (case env_Get v issuingCertificateURL of
     Inl e \<Rightarrow> Fail (Join [errOCSP ''failed to retrieve issuer certificate'', e])
   | Inr (Inl e) \<Rightarrow> Fail (Join [errOCSP ''failed to read issuer certificate'', e])
   | Inr (Inr body) \<Rightarrow> (case env_PemDecode v body of
       None \<Rightarrow> Fail (errOCSP ''failed to decode issuer certificate PEM'')
     | Some block \<Rightarrow> (case env_ParseCertificate v block of
         Inl e \<Rightarrow> Fail (Join [errOCSP ''failed to parse issuer certificate'', e])
       | Inr cert \<Rightarrow> Ok cert)))"

text \<open>Hexadecimal digits of a serial number, as \<^verbatim>\<open>fmt\<close> prints them with \<^verbatim>\<open>%x\<close>.\<close>

fun hex_nat :: "nat \<Rightarrow> string" where
  "hex_nat n = (let d = n mod 16; ch = char_of (if d < 10 then 48 + d else 87 + d)
     in if n < 16 then [ch] else hex_nat (n div 16) @ [ch])"

declare hex_nat.simps [simp del]

definition hex :: "int \<Rightarrow> string" where
  "hex i = (if i < 0 then ''-'' @ hex_nat (nat (- i)) else hex_nat (nat i))"

definition ocsp_issuer :: "tls_env \<Rightarrow> x509 \<Rightarrow> x509 option \<Rightarrow> x509 res" where
  "ocsp_issuer v cert issuerCert = (
     if \<not> isRootCA cert then
       (case issuerCert of
          Some issuer \<Rightarrow> Ok issuer
        | None \<Rightarrow> (case x_IssuingCertificateURL cert of
            [] \<Rightarrow> Fail (Wrapf [] (errOCSP ''neither the issuer certificate is present in the chain nor is the issuer certificate URL present in AIA'')
                       ('' common name '' @ nm_CommonName (x_Subject cert) @ ''  and serial number '' @ hex (x_SerialNumber cert)))
          | u # us \<Rightarrow> retrieveIssuingCertificate v u))
     else Ok cert)"

definition ocsp_url :: "tls_env \<Rightarrow> ocsp_config \<Rightarrow> x509 \<Rightarrow> string res" where
  "ocsp_url v c cert = (
     if OCSPResponderURL c = [] then
       (case x_OCSPServer cert of
          [] \<Rightarrow> Fail (Wrapf [] (errOCSP ''neither OCSP Server/Responder URL is not present AIA of certificate nor environmental variable OCSP_RESPONDER_URL have value'')
                     ('' common name '' @ nm_CommonName (x_Subject cert) @ '' and serial number '' @ hex (x_SerialNumber cert)))
        | u # us \<Rightarrow> (case env_UrlParse v u of
            Some e \<Rightarrow> Fail (Join [errOCSP ''failed to parse OCSP server URL'', e])
          | None \<Rightarrow> Ok u))
     else Ok (OCSPResponderURL c))"

definition ocsp_answer :: "tls_env \<Rightarrow> string \<Rightarrow> bytes \<Rightarrow> x509 \<Rightarrow> x509 \<Rightarrow> unit res" where
  "ocsp_answer v ocspURL buffer cert issuer = (case env_NewRequest v ocspURL of
     Some e \<Rightarrow> Fail (Join [errOCSP ''failed to create OCSP HTTP Request'', e])
   | None \<Rightarrow> (case env_Post v ocspURL buffer of
       Inl e \<Rightarrow> Fail (Join [errOCSP ''OCSP request failed'', e])
     | Inr (Inl e) \<Rightarrow> Fail (Join [errOCSP ''failed to read OCSP response'', e])
     | Inr (Inr output) \<Rightarrow> (case env_ParseResponseForCert v output cert issuer of
         Inl e \<Rightarrow> Fail (Join [errOCSP ''failed to parse OCSP Response for Certificate'', e])
       | Inr Good \<Rightarrow> Ok ()
       | Inr (Revoked at) \<Rightarrow> Fail (Wrapf [] ocsp_errCertRevoked
           ('' command name '' @ nm_CommonName (x_Subject cert) @ '' and serial number '' @ hex (x_SerialNumber cert)
            @ '' revoked at '' @ at))
       | Inr ServerFailed \<Rightarrow> Fail (errOCSP ''OCSP Server Failed'')
       | Inr _ \<Rightarrow> Fail (errOCSP ''OCSP status unknown''))))"

definition ocspVerify :: "tls_env \<Rightarrow> ocsp_config \<Rightarrow> x509 \<Rightarrow> x509 option \<Rightarrow> unit res" where
  "ocspVerify v c cert issuerCert = (case ocsp_issuer v cert issuerCert of
     Fail e \<Rightarrow> Fail e
   | Panics \<Rightarrow> Panics
   | Ok issuer \<Rightarrow> (case env_CreateRequest v cert issuer of
       Inl e \<Rightarrow> Fail (Join [errOCSP ''failed to create OCSP Request'', e])
     | Inr buffer \<Rightarrow> (case ocsp_url v c cert of
         Fail e \<Rightarrow> Fail e
       | Panics \<Rightarrow> Panics
       | Ok ocspURL \<Rightarrow> ocsp_answer v ocspURL buffer cert issuer)))"

text \<open>The package has its own copies of two functions of the CRL package.\<close>

fun ocsp_retrieveIssuerCert :: "pkix_name \<Rightarrow> x509 list \<Rightarrow> x509 option" where
  "ocsp_retrieveIssuerCert issuerSubject [] = None"
| "ocsp_retrieveIssuerCert issuerSubject (cert # certs) = (
     let sub = x_Subject cert
     in if nm_SerialNumber sub \<noteq> [] \<and> nm_SerialNumber issuerSubject \<noteq> [] \<and> nm_SerialNumber sub = nm_SerialNumber issuerSubject
        then Some cert
        else if (nm_SerialNumber sub = [] \<or> nm_SerialNumber issuerSubject = []) \<and> nm_String sub = nm_String issuerSubject
        then Some cert
        else ocsp_retrieveIssuerCert issuerSubject certs)"

lemma ocsp_retrieveIssuerCert_eq [simp]: "ocsp_retrieveIssuerCert issuerSubject certs = retrieveIssuerCert issuerSubject certs"
  by (induction certs) (simp_all add: Let_def)

fun ocsp_parseCertificates :: "tls_env \<Rightarrow> bytes list \<Rightarrow> err + x509 list" where
  "ocsp_parseCertificates v [] = Inr []"
| "ocsp_parseCertificates v (rawCert # rawCerts) = (case env_ParseCertificate v rawCert of
     Inl e \<Rightarrow> Inl (Join [errOCSP ''failed to parse Certificate'', e])
   | Inr cert \<Rightarrow> (case ocsp_parseCertificates v rawCerts of Inl e \<Rightarrow> Inl e | Inr certs \<Rightarrow> Inr (cert # certs)))"

lemma ocsp_parseCertificates_eq [simp]: "ocsp_parseCertificates v rawCerts = parseCertificates ''ocsp'' v rawCerts"
  by (induction rawCerts) (simp_all add: errOCSP_def split: sum.split)

fun ocsp_raw :: "tls_env \<Rightarrow> ocsp_config \<Rightarrow> x509 list \<Rightarrow> int \<Rightarrow> x509 list \<Rightarrow> unit res" where
  "ocsp_raw v c all i [] = Ok ()"
| "ocsp_raw v c all i (cert # rest) = (case ocspVerify v c cert (ocsp_retrieveIssuerCert (x_Issuer cert) all) of
     Fail e \<Rightarrow> Fail e
   | Panics \<Rightarrow> Panics
   | Ok u \<Rightarrow> if i + 1 = wrap64 (OCSPDepth c) then Ok () else ocsp_raw v c all (i + 1) rest)"

fun ocsp_chain :: "tls_env \<Rightarrow> ocsp_config \<Rightarrow> x509 list \<Rightarrow> unit res" where
  "ocsp_chain v c [] = Ok ()"
| "ocsp_chain v c (cert # rest) =
     (case ocspVerify v c cert (Some (case rest of [] \<Rightarrow> cert | issuer # others \<Rightarrow> issuer)) of
        Ok u \<Rightarrow> ocsp_chain v c rest | Fail e \<Rightarrow> Fail e | Panics \<Rightarrow> Panics)"

fun ocsp_VerifyVerifiedPeerCertificates :: "tls_env \<Rightarrow> ocsp_config \<Rightarrow> x509 list list \<Rightarrow> unit res" where
  "ocsp_VerifyVerifiedPeerCertificates v c [] = Ok ()"
| "ocsp_VerifyVerifiedPeerCertificates v c (chain # chs) = (case ocsp_chain v c chain of
     Ok u \<Rightarrow> ocsp_VerifyVerifiedPeerCertificates v c chs | Fail e \<Rightarrow> Fail e | Panics \<Rightarrow> Panics)"

definition ocsp_VerifyPeerCertificate :: "tls_env \<Rightarrow> ocsp_config \<Rightarrow> bytes list \<Rightarrow> x509 list list \<Rightarrow> unit res" where
  "ocsp_VerifyPeerCertificate v c rawCerts verifiedChains = (
     if verifiedChains \<noteq> [] then ocsp_VerifyVerifiedPeerCertificates v c verifiedChains
     else if rawCerts \<noteq> [] then
       (case ocsp_parseCertificates v rawCerts of
          Inl e \<Rightarrow> Fail e | Inr certs \<Rightarrow> ocsp_raw v c certs 0 certs)
     else Fail (errOCSP ''client certificate not received''))"

definition ocsp_New :: "tls_env \<Rightarrow> err + ocsp_config \<Rightarrow> err + (bytes list \<Rightarrow> x509 list list \<Rightarrow> unit res)" where
  "ocsp_New v parsed = (case parsed of Inl e \<Rightarrow> Inl e | Inr c \<Rightarrow> Inr (ocsp_VerifyPeerCertificate v c))"

subsection \<open>The validator and the choice of methods\<close>

fun NewValidator :: "(bytes list \<Rightarrow> x509 list list \<Rightarrow> unit res) list \<Rightarrow> bytes list \<Rightarrow> x509 list list \<Rightarrow> unit res" where
  "NewValidator [] rawCerts verifiedChains = Ok ()"
| "NewValidator (vm # verifiers) rawCerts verifiedChains = (case vm rawCerts verifiedChains of
     Ok u \<Rightarrow> NewValidator verifiers rawCerts verifiedChains | Fail e \<Rightarrow> Fail e | Panics \<Rightarrow> Panics)"

definition ErrInvalidCertVerification :: err where
  "ErrInvalidCertVerification = Sentinel ''tls.ErrInvalidCertVerification'' ''invalid certificate verification method''"

datatype verification = OCSP | CRL

text \<open>\<^verbatim>\<open>strings.TrimSpace\<close>, \<^verbatim>\<open>strings.ToUpper\<close> and \<^verbatim>\<open>strings.Split\<close> at a comma, on ASCII text.\<close>

definition is_space :: "char \<Rightarrow> bool" where
  "is_space ch \<longleftrightarrow> ch \<in> {CHR 0x09, CHR 0x0A, CHR 0x0B, CHR 0x0C, CHR 0x0D, CHR '' ''}"

definition TrimSpace :: "string \<Rightarrow> string" where
  "TrimSpace s = rev (dropWhile is_space (rev (dropWhile is_space s)))"

definition upper :: "char \<Rightarrow> char" where
  "upper ch = (if 97 \<le> (of_char ch :: nat) \<and> (of_char ch :: nat) \<le> 122 then char_of (of_char ch - 32 :: nat) else ch)"

definition ToUpper :: "string \<Rightarrow> string" where
  "ToUpper s = map upper s"

fun split_comma :: "string \<Rightarrow> string \<Rightarrow> string list" where
  "split_comma acc [] = [acc]"
| "split_comma acc (ch # s) = (if ch = CHR '','' then acc # split_comma [] s else split_comma (acc @ [ch]) s)"

definition parseValidation :: "string \<Rightarrow> err + verification" where
  "parseValidation v = (let v = ToUpper (TrimSpace v) in
     if v = ''OCSP'' then Inr OCSP else if v = ''CRL'' then Inr CRL else Inl ErrInvalidCertVerification)"

fun parse_all :: "string list \<Rightarrow> err + verification list" where
  "parse_all [] = Inr []"
| "parse_all (vm # vmss) = (case parseValidation vm of
     Inl e \<Rightarrow> Inl e
   | Inr v \<Rightarrow> (case parse_all vmss of Inl e \<Rightarrow> Inl e | Inr vms \<Rightarrow> Inr (v # vms)))"

definition envParseSliceValidate :: "string \<Rightarrow> err + verification list" where
  "envParseSliceValidate v = parse_all (split_comma [] (TrimSpace v))"

definition envParseValidation :: "string \<Rightarrow> err + verification" where
  "envParseValidation v = parseValidation v"

text \<open>
  \<^verbatim>\<open>newVerifiers\<close>: \<open>parsed\<close> is what the environment library yields for the list of methods,
  \<open>ocspNew\<close> and \<open>crlNew\<close> what the constructors return.
\<close>

fun build_verifiers :: "err + 'v \<Rightarrow> err + 'v \<Rightarrow> verification list \<Rightarrow> 'v list \<Rightarrow> err + 'v list" where
  "build_verifiers ocspNew crlNew [] vms = Inr vms"
| "build_verifiers ocspNew crlNew (v # vs) vms =
     (case (case v of OCSP \<Rightarrow> ocspNew | CRL \<Rightarrow> crlNew) of
        Inl e \<Rightarrow> Inl e
      | Inr vm \<Rightarrow> build_verifiers ocspNew crlNew vs (vms @ [vm]))"

definition newVerifiers :: "err + verification list \<Rightarrow> err + 'v \<Rightarrow> err + 'v \<Rightarrow> err + 'v list" where
  "newVerifiers parsed ocspNew crlNew = (case parsed of
     Inl e \<Rightarrow> Inl e
   | Inr [] \<Rightarrow> Inr []
   | Inr vs \<Rightarrow> build_verifiers ocspNew crlNew vs [])"

section \<open>The contract of a verifier\<close>

text \<open>The pairs of a certificate and its issuer along a chain; the last one issues itself.\<close>

fun issued :: "x509 list \<Rightarrow> (x509 \<times> x509) list" where
  "issued [] = []"
| "issued (cert # rest) = (cert, case rest of [] \<Rightarrow> cert | issuer # others \<Rightarrow> issuer) # issued rest"

text \<open>
  On verified chs a verifier accepts exactly when it is ready and every certificate of
  every chain passes its test against its issuer.
\<close>

locale chain_verifier =
  fixes verify :: "bytes list \<Rightarrow> x509 list list \<Rightarrow> unit res"
    and ready :: bool
    and passes :: "x509 \<times> x509 \<Rightarrow> bool"
  assumes accepts: "chs \<noteq> [] \<Longrightarrow> verify raw chs = Ok () \<longleftrightarrow>
    ready \<and> (\<forall>chain \<in> set chs. \<forall>p \<in> set (issued chain). passes p)"
begin

lemma accepted_certificate:
  "chs \<noteq> [] \<Longrightarrow> verify raw chs = Ok () \<Longrightarrow> chain \<in> set chs \<Longrightarrow> p \<in> set (issued chain) \<Longrightarrow> passes p"
  using accepts by blast

lemma subset_accepted:
  "chs \<noteq> [] \<Longrightarrow> chs' \<noteq> [] \<Longrightarrow> set chs' \<subseteq> set chs \<Longrightarrow> verify raw chs = Ok () \<Longrightarrow> verify raw' chs' = Ok ()"
  using accepts [of chs raw] accepts [of chs' raw'] by blast

lemma raw_irrelevant: "chs \<noteq> [] \<Longrightarrow> verify raw chs = Ok () \<longleftrightarrow> verify raw' chs = Ok ()"
  using accepts by blast

end

lemma NewValidator_Ok: "NewValidator vms raw chs = Ok () \<longleftrightarrow> (\<forall>vm \<in> set vms. vm raw chs = Ok ())"
  by (induction vms) (auto split: res.splits)

text \<open>The validator of two verifiers that meet the contract meets it too.\<close>

locale two_verifiers = a: chain_verifier va ra pa + b: chain_verifier vb rb pb
  for va ra pa vb rb pb

sublocale two_verifiers \<subseteq> both: chain_verifier "NewValidator [va, vb]" "ra \<and> rb" "\<lambda>p. pa p \<and> pb p"
  by unfold_locales (auto simp: NewValidator_Ok a.accepts b.accepts simp del: NewValidator.simps)

section \<open>What the CRL verifier accepts\<close>

text \<open>A list is trusted from its bytes when it decodes, is signed by the signer, if one is given, and has not expired.\<close>

definition trusted_crl :: "tls_env \<Rightarrow> bytes \<Rightarrow> x509 option \<Rightarrow> RevocationList \<Rightarrow> bool" where
  "trusted_crl v bs signer crl \<longleftrightarrow>
     (\<exists>block. env_PemDecode v bs = Some block \<and> env_ParseRevocationList v block = Inr crl)
     \<and> (\<forall>i. signer = Some i \<longrightarrow> env_CheckSignatureFrom v crl i = None) \<and> env_Now v \<le> rl_NextUpdate crl"

text \<open>
  A certificate passes when its serial number is absent from the list in force: that of its
  own first distribution point, else that of the configured one, else the offline list.
\<close>

definition listed_crl :: "tls_env \<Rightarrow> crl_config \<Rightarrow> x509 \<Rightarrow> x509 option \<Rightarrow> RevocationList \<Rightarrow> bool" where
  "listed_crl v c cert issuer crl \<longleftrightarrow> (\<exists>url body signer. env_Get v url = Inr (Inr body) \<and> trusted_crl v body (Some signer) crl
     \<and> (if x_CRLDistributionPoints cert \<noteq> [] then url = hd (x_CRLDistributionPoints cert) \<and> issuer = Some signer
        else CRLDistributionPoints c \<noteq> [] \<and> CRLDistributionPointsIssuerCertFile c \<noteq> []
             \<and> url = CRLDistributionPoints c \<and> loadDistPointCRLIssuerCert v c = Ok (Some signer)))"

definition no_point :: "crl_config \<Rightarrow> x509 \<Rightarrow> bool" where
  "no_point c cert \<longleftrightarrow> x_CRLDistributionPoints cert = []
     \<and> (CRLDistributionPoints c = [] \<or> CRLDistributionPointsIssuerCertFile c = [])"

definition crl_passes :: "tls_env \<Rightarrow> crl_config \<Rightarrow> RevocationList option \<Rightarrow> x509 \<Rightarrow> x509 option \<Rightarrow> bool" where
  "crl_passes v c offlineCRL cert issuer \<longleftrightarrow> (\<exists>crl. x_SerialNumber cert \<notin> set (rl_RevokedSerials crl)
     \<and> (listed_crl v c cert issuer crl \<or> no_point c cert \<and> offlineCRL = Some crl))"

lemma crlVerify_Ok: "crlVerify serial rs = Ok () \<longleftrightarrow> serial \<notin> set rs"
  by (induction rs) auto

lemma parseVerifyCRL_Ok:
  "parseVerifyCRL v bs issuer sign = Ok crl \<longleftrightarrow>
     (if sign then \<exists>i. issuer = Some i \<and> trusted_crl v bs (Some i) crl else trusted_crl v bs None crl)"
  by (auto simp: parseVerifyCRL_def trusted_crl_def split: option.splits sum.splits)

lemma retrieveCRL_Ok:
  "retrieveCRL v url issuer True = Ok crl \<longleftrightarrow>
     (\<exists>body i. env_Get v url = Inr (Inr body) \<and> issuer = Some i \<and> trusted_crl v body (Some i) crl)"
  by (auto simp: retrieveCRL_def parseVerifyCRL_Ok split: sum.splits)

lemma lift_Some: "(case r of Ok crl \<Rightarrow> Ok (Some crl) | Fail e \<Rightarrow> Fail e | Panics \<Rightarrow> Panics) = Ok (Some crl) \<longleftrightarrow> r = Ok crl"
  by (auto split: res.splits)

lemma getCRL_Some:
  "getCRLFromDistributionPoint v c cert issuer = Ok (Some crl) \<longleftrightarrow> listed_crl v c cert issuer crl"
proof (cases "x_CRLDistributionPoints cert")
  case Nil
  then show ?thesis
    by (auto simp: getCRLFromDistributionPoint_def listed_crl_def lift_Some retrieveCRL_Ok split: res.splits)
next
  case (Cons p ps)
  then show ?thesis
    by (auto simp: getCRLFromDistributionPoint_def listed_crl_def lift_Some retrieveCRL_Ok)
qed

lemma getCRL_None: "getCRLFromDistributionPoint v c cert issuer = Ok None \<longleftrightarrow> no_point c cert"
  by (auto simp: getCRLFromDistributionPoint_def no_point_def split: list.splits res.splits)

lemma crl_check_Ok: "crl_check v c off cert issuer = Ok () \<longleftrightarrow> crl_passes v c off cert issuer"
  unfolding crl_check_def crl_passes_def getCRL_Some [symmetric] getCRL_None [of v c cert issuer, symmetric]
  by (auto simp: crlVerify_Ok split: res.splits option.splits)

lemma crl_chain_Ok:
  "crl_chain v c off chain = Ok () \<longleftrightarrow> (\<forall>(cert, issuer) \<in> set (issued chain). crl_passes v c off cert (Some issuer))"
  by (induction chain) (auto simp: crl_check_Ok [symmetric] split: res.splits)

lemma crl_chains_Ok: "crl_chains v c off chs = Ok () \<longleftrightarrow> (\<forall>chain \<in> set chs. crl_chain v c off chain = Ok ())"
  by (induction chs) (auto split: res.splits)

definition offline_list :: "tls_env \<Rightarrow> crl_config \<Rightarrow> RevocationList option" where
  "offline_list v c = (case loadOfflineCRL v c of Ok off \<Rightarrow> off | _ \<Rightarrow> None)"

interpretation crl_verifier: chain_verifier "crl_VerifyPeerCertificate v c" "loadOfflineCRL v c = Ok (offline_list v c)"
    "\<lambda>(cert, issuer). crl_passes v c (offline_list v c) cert (Some issuer)" for v c
  by unfold_locales
    (auto simp: crl_VerifyPeerCertificate_def crl_VerifyVerifiedPeerCertificates_def offline_list_def
      crl_chains_Ok crl_chain_Ok split: res.splits)

section \<open>What the OCSP verifier accepts\<close>

definition responder :: "tls_env \<Rightarrow> ocsp_config \<Rightarrow> x509 \<Rightarrow> string \<Rightarrow> bool" where
  "responder v c cert url \<longleftrightarrow> (if OCSPResponderURL c \<noteq> [] then url = OCSPResponderURL c
     else x_OCSPServer cert \<noteq> [] \<and> url = hd (x_OCSPServer cert) \<and> env_UrlParse v url = None)"

text \<open>The responder of the certificate answers, about the certificate and its issuer, that it is good.\<close>

definition ocsp_good :: "tls_env \<Rightarrow> ocsp_config \<Rightarrow> x509 \<Rightarrow> x509 \<Rightarrow> bool" where
  "ocsp_good v c cert issuer \<longleftrightarrow> (\<exists>req url out. env_CreateRequest v cert issuer = Inr req \<and> responder v c cert url
     \<and> env_NewRequest v url = None \<and> env_Post v url req = Inr (Inr out)
     \<and> env_ParseResponseForCert v out cert issuer = Inr Good)"

lemma ocsp_url_Ok: "ocsp_url v c cert = Ok url \<longleftrightarrow> responder v c cert url"
  by (auto simp: ocsp_url_def responder_def split: list.splits option.splits)

lemma ocsp_answer_Ok:
  "ocsp_answer v url req cert issuer = Ok () \<longleftrightarrow> env_NewRequest v url = None
     \<and> (\<exists>out. env_Post v url req = Inr (Inr out) \<and> env_ParseResponseForCert v out cert issuer = Inr Good)"
  by (auto simp: ocsp_answer_def split: option.splits sum.splits ocsp_Status.splits)

lemma ocspVerify_Ok:
  "ocspVerify v c cert issuerCert = Ok () \<longleftrightarrow> (\<exists>issuer. ocsp_issuer v cert issuerCert = Ok issuer \<and> ocsp_good v c cert issuer)"
  unfolding ocspVerify_def ocsp_good_def ocsp_url_Ok [symmetric]
  by (auto simp: ocsp_answer_Ok split: res.splits sum.splits)

lemma ocsp_issuer_Some: "ocsp_issuer v cert (Some issuer) = Ok (if isRootCA cert then cert else issuer)"
  by (simp add: ocsp_issuer_def)

lemma ocsp_chain_Ok:
  "ocsp_chain v c chain = Ok () \<longleftrightarrow>
     (\<forall>(cert, issuer) \<in> set (issued chain). ocsp_good v c cert (if isRootCA cert then cert else issuer))"
proof (induction chain)
  case (Cons cert rest)
  then show ?case
    using ocspVerify_Ok [of v c cert "Some (case rest of [] \<Rightarrow> cert | issuer # others \<Rightarrow> issuer)"]
    by (auto simp: ocsp_issuer_Some split: res.splits)
qed simp

lemma ocsp_chains_Ok:
  "ocsp_VerifyVerifiedPeerCertificates v c chs = Ok () \<longleftrightarrow> (\<forall>chain \<in> set chs. ocsp_chain v c chain = Ok ())"
  by (induction chs) (auto split: res.splits)

interpretation ocsp_verifier: chain_verifier "ocsp_VerifyPeerCertificate v c" True
    "\<lambda>(cert, issuer). ocsp_good v c cert (if isRootCA cert then cert else issuer)" for v c
  by unfold_locales (auto simp: ocsp_VerifyPeerCertificate_def ocsp_chains_Ok ocsp_chain_Ok)

interpretation both_verifiers: two_verifiers
    "ocsp_VerifyPeerCertificate v c" True "\<lambda>(cert, issuer). ocsp_good v c cert (if isRootCA cert then cert else issuer)"
    "crl_VerifyPeerCertificate v d" "loadOfflineCRL v d = Ok (offline_list v d)"
    "\<lambda>(cert, issuer). crl_passes v d (offline_list v d) cert (Some issuer)" for v c d
  by unfold_locales

section \<open>Certificates as sent\<close>

text \<open>How many of the certificates as sent the depth \<open>d\<close> lets the loops reach.\<close>

definition within_depth :: "int \<Rightarrow> x509 list \<Rightarrow> x509 list" where
  "within_depth d certs = (if wrap64 d \<le> 0 then certs else take (nat (wrap64 d)) certs)"

lemma crl_raw_Ok:
  "crl_raw v c off all i certs = Ok () \<longleftrightarrow>
     (\<forall>cert \<in> set (if wrap64 (CRLDepth c) \<le> i then certs else take (nat (wrap64 (CRLDepth c) - i)) certs).
        crl_passes v c off cert (retrieveIssuerCert (x_Issuer cert) all))"
proof (induction certs arbitrary: i)
  case (Cons cert rest)
  let ?k = "nat (wrap64 (CRLDepth c) - i)"
  have k: "i < wrap64 (CRLDepth c) \<Longrightarrow> ?k = Suc (nat (wrap64 (CRLDepth c) - (i + 1)))" by simp
  show ?case
    using Cons.IH [of "i + 1"] crl_check_Ok [of v c off cert "retrieveIssuerCert (x_Issuer cert) all"] k
    by (cases "wrap64 (CRLDepth c) \<le> i"; cases "i + 1 = wrap64 (CRLDepth c)") (auto split: res.splits)
qed simp

lemma ocsp_raw_Ok:
  "ocsp_raw v c all i certs = Ok () \<longleftrightarrow>
     (\<forall>cert \<in> set (if wrap64 (OCSPDepth c) \<le> i then certs else take (nat (wrap64 (OCSPDepth c) - i)) certs).
        ocspVerify v c cert (retrieveIssuerCert (x_Issuer cert) all) = Ok ())"
proof (induction certs arbitrary: i)
  case (Cons cert rest)
  let ?k = "nat (wrap64 (OCSPDepth c) - i)"
  have k: "i < wrap64 (OCSPDepth c) \<Longrightarrow> ?k = Suc (nat (wrap64 (OCSPDepth c) - (i + 1)))" by simp
  show ?case
    using Cons.IH [of "i + 1"] k
    by (cases "wrap64 (OCSPDepth c) \<le> i"; cases "i + 1 = wrap64 (OCSPDepth c)") (auto split: res.splits)
qed simp

section \<open>Names of methods\<close>

fun method_name :: "verification \<Rightarrow> string" where
  "method_name OCSP = ''ocsp''"
| "method_name CRL = ''crl''"

fun method_list :: "verification list \<Rightarrow> string" where
  "method_list [] = []"
| "method_list [m] = method_name m"
| "method_list (m # k # ms) = method_name m @ '','' @ method_list (k # ms)"

lemma split_comma_word:
  "CHR '','' \<notin> set w \<Longrightarrow> split_comma acc (w @ CHR '','' # s) = (acc @ w) # split_comma [] s"
  by (induction w arbitrary: acc) auto

lemma split_comma_last: "CHR '','' \<notin> set w \<Longrightarrow> split_comma acc w = [acc @ w]"
  by (induction w arbitrary: acc) auto

lemma method_name_no_comma: "CHR '','' \<notin> set (method_name m)"
  by (cases m) auto

lemma parse_method_name: "parseValidation (method_name m) = Inr m"
proof (cases m)
  case OCSP
  have "parseValidation ''ocsp'' = Inr verification.OCSP" by code_simp
  with OCSP show ?thesis by simp
next
  case CRL
  have "parseValidation ''crl'' = Inr verification.CRL" by code_simp
  with CRL show ?thesis by simp
qed

lemma split_method_list: "ms \<noteq> [] \<Longrightarrow> split_comma [] (method_list ms) = map method_name ms"
  by (induction ms rule: method_list.induct) (simp_all add: split_comma_word split_comma_last method_name_no_comma)

lemma parse_all_names: "parse_all (map method_name ms) = Inr ms"
  by (induction ms) (simp_all add: parse_method_name)

lemma method_name_no_space: "set (method_name m) \<inter> Collect is_space = {}"
  by (cases m) (auto simp: is_space_def)

lemma method_list_no_space: "set (method_list ms) \<inter> Collect is_space = {}"
  using method_name_no_space by (induction ms rule: method_list.induct) (auto simp: is_space_def)

lemma dropWhile_none: "set s \<inter> Collect P = {} \<Longrightarrow> dropWhile P s = s"
  by (cases s) auto

lemma TrimSpace_none: "set s \<inter> Collect is_space = {} \<Longrightarrow> TrimSpace s = s"
  by (simp add: TrimSpace_def dropWhile_none)

lemma TrimSpace_pad:
  "\<forall>ch \<in> set a. is_space ch \<Longrightarrow> \<forall>ch \<in> set b. is_space ch \<Longrightarrow> TrimSpace (a @ s @ b) = TrimSpace s"
proof -
  assume ab: "\<forall>ch \<in> set a. is_space ch" "\<forall>ch \<in> set b. is_space ch"
  have "dropWhile is_space (a @ s @ b) = dropWhile is_space (s @ b)"
    using ab(1) by (induction a) auto
  moreover have "dropWhile is_space (rev (dropWhile is_space (s @ b))) = dropWhile is_space (rev (dropWhile is_space s))"
  proof (cases "\<forall>ch \<in> set s. is_space ch")
    case True
    then have "dropWhile is_space (s @ b) = []" "dropWhile is_space s = []"
      using ab(2) by (auto simp: dropWhile_eq_Nil_conv)
    then show ?thesis by (simp only:)
  next
    case False
    then have "dropWhile is_space (s @ b) = dropWhile is_space s @ b"
      by (induction s) auto
    moreover have "dropWhile is_space (rev b @ t) = dropWhile is_space t" for t
      using ab(2) by (intro dropWhile_append2) auto
    ultimately show ?thesis by simp
  qed
  ultimately show ?thesis by (simp add: TrimSpace_def)
qed

section \<open>Properties\<close>

text \<open>
  A small public key infrastructure for the examples: certificate 7 was issued by
  certificate 1, whose list of revoked serials is the argument, served at \<open>u\<close> and stored in
  the file \<open>f\<close>; the responder at \<open>o\<close> finds every certificate good.
\<close>

definition name_of :: "string \<Rightarrow> pkix_name" where
  "name_of s = \<lparr>nm_SerialNumber = [], nm_CommonName = s, nm_String = s\<rparr>"

definition cert_of :: "string \<Rightarrow> string \<Rightarrow> int \<Rightarrow> string list \<Rightarrow> bool \<Rightarrow> x509" where
  "cert_of subject issuer serial points ca = \<lparr>x_Subject = name_of subject, x_Issuer = name_of issuer, x_SerialNumber = serial,
     x_CRLDistributionPoints = points, x_OCSPServer = [''o''], x_IssuingCertificateURL = [], x_IsCA = ca,
     x_AuthorityKeyId = [], x_SubjectKeyId = []\<rparr>"

definition leaf_cert :: x509 where
  "leaf_cert = cert_of ''leaf'' ''ca'' 7 [''u''] False"

definition ca_cert :: x509 where
  "ca_cert = cert_of ''ca'' ''ca'' 1 [''u''] True"

definition sample_env :: "int list \<Rightarrow> tls_env" where
  "sample_env revoked = \<lparr>env_ReadFile = \<lambda>f. Inr ''1'', env_Get = \<lambda>url. Inr (Inr ''1''), env_Post = \<lambda>url req. Inr (Inr ''2''),
     env_NewRequest = \<lambda>url. None, env_UrlParse = \<lambda>url. None, env_PemDecode = Some,
     env_ParseCertificate = \<lambda>bs. Inr (if bs = ''7'' then leaf_cert else ca_cert),
     env_ParseRevocationList = \<lambda>bs. Inr \<lparr>rl_RevokedSerials = revoked, rl_NextUpdate = 100, rl_raw = bs\<rparr>,
     env_CheckSignatureFrom = \<lambda>crl issuer. if issuer = ca_cert then None else Some EOF,
     env_CreateRequest = \<lambda>cert issuer. Inr ''3'', env_ParseResponseForCert = \<lambda>out cert issuer. Inr Good, env_Now = 50\<rparr>"

definition crl_sample :: crl_config where
  "crl_sample = \<lparr>CRLDepth = 1, OfflineCRLFile = [], OfflineCRLIssuerCertFile = [], CRLDistributionPoints = [],
     CRLDistributionPointsIssuerCertFile = []\<rparr>"

lemmas sample_simps = name_of_def cert_of_def leaf_cert_def ca_cert_def sample_env_def crl_sample_def

lemmas crl_run_simps = crl_VerifyPeerCertificate_def crl_VerifyVerifiedPeerCertificates_def crl_VerifyRawPeerCertificates_def
  loadOfflineCRL_def loadCertFile_def crl_check_def getCRLFromDistributionPoint_def retrieveCRL_def parseVerifyCRL_def



text \<open>C24 (functional). On verified chains the OCSP verifier accepts exactly when, for every certificate of
  every chain, the configured responder, or else the first one the certificate names,
  answers the request about the certificate and its issuer with the status good. A root
  certificate is its own issuer. Revoked, unknown and failed answers, and every error on
  the way, make it refuse.\<close>

theorem ocsp_accepts_chains:
  assumes "chs \<noteq> []"
  shows "ocsp_VerifyPeerCertificate v c raw chs = Ok () \<longleftrightarrow>
    (\<forall>chain \<in> set chs. \<forall>(cert, issuer) \<in> set (issued chain). ocsp_good v c cert (if isRootCA cert then cert else issuer))"
  using ocsp_verifier.accepts [OF assms] by simp

definition ocsp_sample :: ocsp_config where
  "ocsp_sample = \<lparr>OCSPDepth = 0, OCSPResponderURL = []\<rparr>"

lemma ocsp_accepts_chains_witness:
  "ocsp_VerifyPeerCertificate (sample_env []) ocsp_sample [] [[leaf_cert, ca_cert]] = Ok ()
   \<and> ocsp_good (sample_env []) ocsp_sample leaf_cert ca_cert"
proof -
  have "ocsp_VerifyPeerCertificate (sample_env []) ocsp_sample [] [[leaf_cert, ca_cert]] = Ok ()"
    by (simp add: ocsp_VerifyPeerCertificate_def ocspVerify_def ocsp_issuer_def ocsp_url_def ocsp_answer_def sample_simps ocsp_sample_def)
  moreover have "\<not> isRootCA leaf_cert" by (simp add: isRootCA_def sample_simps)
  ultimately show ?thesis
    using ocsp_accepts_chains [of "[[leaf_cert, ca_cert]]" "sample_env []" ocsp_sample "[]"] by simp
qed

text \<open>On the certificates as they were sent, which the verifiers look at only when there are
  no verified chains, a positive depth \<open>d\<close> limits the checks to the first \<open>d\<close> certificates,
  and zero or a value beyond the range of \<^verbatim>\<open>int\<close> means all of them. The issuer of each is looked
  for by name among the certificates sent.\<close>

lemma raw_certificates_depth:
  "(crl_VerifyPeerCertificate v c raw [] = Ok () \<longleftrightarrow> raw \<noteq> []
      \<and> (\<exists>certs off. parseCertificates ''crl'' v raw = Inr certs \<and> loadOfflineCRL v c = Ok off
         \<and> (\<forall>cert \<in> set (within_depth (CRLDepth c) certs). crl_passes v c off cert (retrieveIssuerCert (x_Issuer cert) certs))))
   \<and> (ocsp_VerifyPeerCertificate v e raw [] = Ok () \<longleftrightarrow> raw \<noteq> []
      \<and> (\<exists>certs. parseCertificates ''ocsp'' v raw = Inr certs
         \<and> (\<forall>cert \<in> set (within_depth (OCSPDepth e) certs).
              \<exists>issuer. ocsp_issuer v cert (retrieveIssuerCert (x_Issuer cert) certs) = Ok issuer \<and> ocsp_good v e cert issuer)))"
  by (auto simp: crl_VerifyPeerCertificate_def crl_VerifyRawPeerCertificates_def ocsp_VerifyPeerCertificate_def
      crl_raw_Ok ocsp_raw_Ok within_depth_def ocspVerify_Ok split: sum.splits res.splits)

lemma raw_certificates_depth_witness:
  "crl_VerifyPeerCertificate (sample_env [1]) crl_sample [''7'', ''1''] [] = Ok ()
   \<and> crl_VerifyPeerCertificate (sample_env [1]) (crl_sample\<lparr>CRLDepth := 2\<rparr>) [''7'', ''1''] [] \<noteq> Ok ()"
proof -
  have p: "parseCertificates ''crl'' (sample_env [1]) [''7'', ''1''] = Inr [leaf_cert, ca_cert]"
    by (simp add: sample_simps)
  have off: "loadOfflineCRL (sample_env [1]) crl_sample = Ok None"
    by (simp add: loadOfflineCRL_def loadCertFile_def crl_sample_def)
  have d: "within_depth 1 [leaf_cert, ca_cert] = [leaf_cert]"
    by (simp add: within_depth_def wrap64_def)
  have leaf: "crl_check (sample_env [1]) crl_sample None leaf_cert (retrieveIssuerCert (x_Issuer leaf_cert) [leaf_cert, ca_cert]) = Ok ()"
    by (simp add: crl_run_simps sample_simps Let_def)
  have "crl_VerifyPeerCertificate (sample_env [1]) crl_sample [''7'', ''1''] [] = Ok ()"
    using raw_certificates_depth [of "sample_env [1]" crl_sample "[''7'', ''1'']"] p off d leaf
    by (simp add: crl_check_Ok crl_sample_def)
  moreover have "crl_VerifyPeerCertificate (sample_env [1]) (crl_sample\<lparr>CRLDepth := 2\<rparr>) [''7'', ''1''] [] \<noteq> Ok ()"
    by (simp add: crl_run_simps sample_simps Let_def wrap64_def)
  ultimately show ?thesis by blast
qed

text \<open>Once there are verified chains the depth settings change nothing: the CRL and the OCSP
  verifier give the same answer, with the same error, for every value of \<^verbatim>\<open>CRL_DEPTH\<close> and
  \<^verbatim>\<open>OCSP_DEPTH\<close>.\<close>

lemma depth_ignored_on_chains:
  assumes "chs \<noteq> []"
  shows "crl_VerifyPeerCertificate v (c\<lparr>CRLDepth := d\<rparr>) raw chs = crl_VerifyPeerCertificate v c raw chs
    \<and> ocsp_VerifyPeerCertificate v (e\<lparr>OCSPDepth := d\<rparr>) raw chs = ocsp_VerifyPeerCertificate v e raw chs"
proof -
  have load: "loadOfflineCRL v (c\<lparr>CRLDepth := d\<rparr>) = loadOfflineCRL v c"
    by (simp add: loadOfflineCRL_def loadOfflineCRLIssuerCert_def split: sum.split list.split)
  have crl: "crl_check v (c\<lparr>CRLDepth := d\<rparr>) off cert i = crl_check v c off cert i" for off cert i
    by (cases "x_CRLDistributionPoints cert")
      (simp_all add: crl_check_def getCRLFromDistributionPoint_def loadDistPointCRLIssuerCert_def split: res.split)
  have chain: "crl_chain v (c\<lparr>CRLDepth := d\<rparr>) off chain = crl_chain v c off chain" for off chain
    by (induction chain) (simp_all add: crl split: res.split)
  have crl_all: "crl_chains v (c\<lparr>CRLDepth := d\<rparr>) off chs = crl_chains v c off chs" for off
    by (induction chs) (simp_all add: chain split: res.split)
  have ocsp: "ocspVerify v (e\<lparr>OCSPDepth := d\<rparr>) cert i = ocspVerify v e cert i" for cert i
    by (simp add: ocspVerify_def ocsp_url_def split: res.split sum.split)
  have ochain: "ocsp_chain v (e\<lparr>OCSPDepth := d\<rparr>) chain = ocsp_chain v e chain" for chain
    by (induction chain) (simp_all add: ocsp split: res.split)
  have "ocsp_VerifyVerifiedPeerCertificates v (e\<lparr>OCSPDepth := d\<rparr>) chs = ocsp_VerifyVerifiedPeerCertificates v e chs"
    by (induction chs) (simp_all add: ochain split: res.split)
  then show ?thesis
    using assms load crl_all
    by (simp add: crl_VerifyPeerCertificate_def crl_VerifyVerifiedPeerCertificates_def ocsp_VerifyPeerCertificate_def
        split: res.split)
qed

lemma depth_ignored_on_chains_witness:
  "CRLDepth crl_sample = 1
   \<and> crl_VerifyPeerCertificate (sample_env [1]) crl_sample [] [[leaf_cert, ca_cert]] = Fail crl_errCertRevoked
   \<and> crl_VerifyPeerCertificate (sample_env [1]) (crl_sample\<lparr>CRLDepth := 2\<rparr>) [] [[leaf_cert, ca_cert]] = Fail crl_errCertRevoked"
proof -
  have "crl_VerifyPeerCertificate (sample_env [1]) crl_sample [] [[leaf_cert, ca_cert]] = Fail crl_errCertRevoked"
    by (simp add: crl_run_simps sample_simps)
  then show ?thesis
    using depth_ignored_on_chains [of "[[leaf_cert, ca_cert]]" "sample_env [1]" 2 crl_sample "[]"]
    by (simp add: crl_sample_def)
qed

text \<open>The signature of the offline list is never checked: whatever signature checks would
  say, the same offline list is loaded, although its issuer's certificate is read and must
  decode.\<close>

lemma offline_signature_unchecked:
  "loadOfflineCRL (v\<lparr>env_CheckSignatureFrom := check\<rparr>) c = loadOfflineCRL v c
   \<and> (loadOfflineCRL v c = Ok (Some crl) \<longrightarrow> (\<exists>bs. env_ReadFile v (OfflineCRLFile c) = Inr bs \<and> trusted_crl v bs None crl)
        \<and> (\<exists>issuer. loadOfflineCRLIssuerCert v c = Ok issuer))"
proof
  have "parseVerifyCRL (v\<lparr>env_CheckSignatureFrom := check\<rparr>) bs None False = parseVerifyCRL v bs None False" for bs
    by (simp add: parseVerifyCRL_def cong: option.case_cong sum.case_cong)
  moreover have "loadCertFile (v\<lparr>env_CheckSignatureFrom := check\<rparr>) f = loadCertFile v f" for f
    by (simp add: loadCertFile_def)
  moreover have "loadOfflineCRLIssuerCert (v\<lparr>env_CheckSignatureFrom := check\<rparr>) c = loadOfflineCRLIssuerCert v c"
    by (simp add: loadOfflineCRLIssuerCert_def loadIssuerFile_def loadCertFile_def split: sum.split list.split option.split)
  ultimately show "loadOfflineCRL (v\<lparr>env_CheckSignatureFrom := check\<rparr>) c = loadOfflineCRL v c"
    by (simp add: loadOfflineCRL_def split: sum.split list.split res.split)
  show "loadOfflineCRL v c = Ok (Some crl) \<longrightarrow> (\<exists>bs. env_ReadFile v (OfflineCRLFile c) = Inr bs \<and> trusted_crl v bs None crl)
        \<and> (\<exists>issuer. loadOfflineCRLIssuerCert v c = Ok issuer)"
    by (auto simp: loadOfflineCRL_def loadCertFile_def parseVerifyCRL_Ok split: sum.splits list.splits res.splits if_splits)
qed

lemma offline_signature_unchecked_witness:
  "\<exists>crl. loadOfflineCRL (sample_env [5]\<lparr>env_CheckSignatureFrom := \<lambda>crl issuer. Some EOF\<rparr>)
      (crl_sample\<lparr>OfflineCRLFile := ''f'', OfflineCRLIssuerCertFile := ''i''\<rparr>) = Ok (Some crl) \<and> trusted_crl (sample_env [5]) ''1'' None crl"
proof -
  let ?c = "crl_sample\<lparr>OfflineCRLFile := ''f'', OfflineCRLIssuerCertFile := ''i''\<rparr>"
  let ?crl = "\<lparr>rl_RevokedSerials = [5], rl_NextUpdate = 100, rl_raw = ''1''\<rparr>"
  have "loadOfflineCRL (sample_env [5]) ?c = Ok (Some ?crl)"
    by (simp add: loadOfflineCRL_def loadOfflineCRLIssuerCert_def loadIssuerFile_def loadCertFile_def parseVerifyCRL_def sample_simps)
  moreover have "env_ReadFile (sample_env [5]) (OfflineCRLFile ?c) = Inr ''1''"
    by (simp add: sample_simps)
  ultimately show ?thesis
    using offline_signature_unchecked [of "\<lambda>crl issuer. Some EOF" "sample_env [5]" ?c ?crl] by auto
qed

text \<open>When the issuer of a certificate that names a distribution point is not among the
  certificates sent, and its list can be fetched and decoded, the CRL verifier checks the
  signature against a nil certificate and panics instead of refusing the client.\<close>

theorem crl_missing_issuer_panics:
  assumes "parseCertificates ''crl'' v raw = Inr (cert # certs)" "loadOfflineCRL v c = Ok off"
    and "x_CRLDistributionPoints cert = url # urls" "retrieveIssuerCert (x_Issuer cert) (cert # certs) = None"
    and "env_Get v url = Inr (Inr body)" "env_PemDecode v body = Some block" "env_ParseRevocationList v block = Inr crl"
  shows "crl_VerifyPeerCertificate v c raw [] = Panics"
proof -
  have "raw \<noteq> []" using assms(1) by auto
  then show ?thesis
    using assms
    by (simp add: crl_VerifyPeerCertificate_def crl_VerifyRawPeerCertificates_def crl_check_def getCRLFromDistributionPoint_def
        retrieveCRL_def parseVerifyCRL_def del: retrieveIssuerCert.simps)
qed

lemma crl_missing_issuer_panics_witness:
  "crl_VerifyPeerCertificate (sample_env []) crl_sample [''7''] [] = Panics"
  by (rule crl_missing_issuer_panics [where cert = leaf_cert and certs = "[]" and off = None and url = "''u''" and urls = "[]"
        and body = "''1''" and block = "''1''" and crl = "\<lparr>rl_RevokedSerials = [], rl_NextUpdate = 100, rl_raw = ''1''\<rparr>"])
    (simp_all add: loadOfflineCRL_def loadCertFile_def sample_simps Let_def)

text \<open>A non-empty list of method names separated by commas, padded with white space, parses
  to those methods in order.\<close>

theorem methods_round_trip:
  assumes "ms \<noteq> []" "\<forall>ch \<in> set a. is_space ch" "\<forall>ch \<in> set b. is_space ch"
  shows "envParseSliceValidate (a @ method_list ms @ b) = Inr ms"
  using assms by (simp add: envParseSliceValidate_def TrimSpace_pad TrimSpace_none method_list_no_space
      split_method_list parse_all_names)

lemma methods_round_trip_witness: "envParseSliceValidate '' ocsp,crl'' = Inr [OCSP, CRL]"
  using methods_round_trip [of "[OCSP, CRL]" "'' ''" "[]"] by (simp add: is_space_def)

end
