(* ===== verification/TlsConfig.thy ===== *)
theory TlsConfig
  imports TlsVerifier
begin

text \<open>
  Loading of TLS and DTLS configurations (\<^verbatim>\<open>src/pkg/tls/tls.go\<close>, \<^verbatim>\<open>config.go\<close>). The
  configuration objects of the two libraries have the fields the code sets; a pool of
  certificates is the list of the PEM blocks added to it. The key pair and the PEM parser
  are arguments; \<^verbatim>\<open>LoadTLSConfig\<close> changes the configuration it is given in place, so it
  returns the object together with the result. Shown: when a configuration demands and
  verifies client certificates, and which clients a server configured with both
  revocation methods lets in.
\<close>

section \<open>Definitions\<close>

type_synonym validator = "bytes list \<Rightarrow> x509 list list \<Rightarrow> unit res"

record tls_Config =
  CertFile :: string
  KeyFile :: string
  ServerCAFile :: string
  ClientCAFile :: string
  Validator :: "validator option"

datatype ClientAuth = NoClientCert | RequireAndVerifyClientCert

record server_config =
  sc_Certificates :: "bytes list"
  sc_RootCAs :: "bytes list option"
  sc_ClientCAs :: "bytes list option"
  sc_ClientAuth :: ClientAuth
  sc_VerifyPeerCertificate :: "validator option"

datatype TLSConfig = TLS server_config | DTLS server_config

record key_env =
  env_LoadX509KeyPair :: "string \<Rightarrow> string \<Rightarrow> err + bytes"
  env_IsPEM :: "bytes \<Rightarrow> bool"

definition errTLS :: "string \<Rightarrow> err" where
  "errTLS txt = sentinel ''tls'' txt"

definition errTLSdetails :: err where
  "errTLSdetails = errTLS ''failed to get TLS details of connection''"

definition errAppendCA :: err where
  "errAppendCA = errTLS ''failed to append root ca tls.Config''"

text \<open>\<^verbatim>\<open>AppendCertsFromPEM\<close> on a pool that is created when it is nil.\<close>

definition append_pool :: "key_env \<Rightarrow> bytes list option \<Rightarrow> bytes \<Rightarrow> bytes list option \<times> bool" where
  "append_pool k pool pem = (let xs = (case pool of None \<Rightarrow> [] | Some ps \<Rightarrow> ps)
     in if env_IsPEM k pem then (Some (xs @ [pem]), True) else (Some xs, False))"

text \<open>The body of both cases of the type switch (lines 54-77 and 79-102), which are the same.\<close>

definition fill_config :: "key_env \<Rightarrow> tls_Config \<Rightarrow> bytes \<Rightarrow> bytes \<Rightarrow> bytes \<Rightarrow> server_config \<Rightarrow> server_config \<times> err option" where
  "fill_config k c certificate rootCA clientCA s = (
     let s = s\<lparr>sc_Certificates := [certificate]\<rparr>;
         (s, ok) = (if rootCA \<noteq> [] then
                      (let (pool, ok) = append_pool k (sc_RootCAs s) rootCA in (s\<lparr>sc_RootCAs := pool\<rparr>, ok))
                    else (s, True))
     in if \<not> ok then (s, Some errAppendCA)
        else if clientCA \<noteq> [] then
          (let (pool, ok) = append_pool k (sc_ClientCAs s) clientCA;
               s = s\<lparr>sc_ClientCAs := pool\<rparr>
           in if \<not> ok then (s, Some errAppendCA)
              else (let s = s\<lparr>sc_ClientAuth := RequireAndVerifyClientCert\<rparr>
                    in (if Validator c \<noteq> None then s\<lparr>sc_VerifyPeerCertificate := Validator c\<rparr> else s, None)))
        else (s, None))"

definition tls_loadCertFile :: "tls_env \<Rightarrow> string \<Rightarrow> err + bytes" where
  "tls_loadCertFile v certFile = (if certFile \<noteq> [] then env_ReadFile v certFile else Inr [])"

lemma tls_loadCertFile_eq [simp]: "tls_loadCertFile v certFile = loadCertFile v certFile"
  by (simp add: tls_loadCertFile_def loadCertFile_def)

text \<open>The result: \<open>Inr None\<close> for the nil configuration, \<open>Inr (Some s)\<close> for the one given.\<close>

definition LoadTLSConfig :: "tls_env \<Rightarrow> key_env \<Rightarrow> tls_Config \<Rightarrow> TLSConfig \<Rightarrow> TLSConfig \<times> (err + TLSConfig option)" where
  "LoadTLSConfig v k c s = (
     if CertFile c = [] \<or> KeyFile c = [] then (s, Inr None)
     else case env_LoadX509KeyPair k (CertFile c) (KeyFile c) of
       Inl e \<Rightarrow> (s, Inl (Join [errTLS ''failed to load certificates'', e]))
     | Inr certificate \<Rightarrow> (case tls_loadCertFile v (ServerCAFile c) of
         Inl e \<Rightarrow> (s, Inl (Join [errTLS ''failed to load Server CA'', e]))
       | Inr rootCA \<Rightarrow> (case tls_loadCertFile v (ClientCAFile c) of
           Inl e \<Rightarrow> (s, Inl (Join [errTLS ''failed to load Client CA'', e]))
         | Inr clientCA \<Rightarrow>
             (let (mk, config) = (case s of TLS x \<Rightarrow> (TLS, x) | DTLS x \<Rightarrow> (DTLS, x));
                  (config', e) = fill_config k c certificate rootCA clientCA config
              in (mk config', case e of Some x \<Rightarrow> Inl x | None \<Rightarrow> Inr (Some (mk config')))))))"

text \<open>\<^verbatim>\<open>NewConfig\<close>: \<open>parsed\<close> is what the environment library yields for the paths.\<close>

definition tls_NewConfig :: "err + tls_Config \<Rightarrow> err + validator list \<Rightarrow> err + tls_Config" where
  "tls_NewConfig parsed verifiers = (case parsed of
     Inl e \<Rightarrow> Inl e
   | Inr c \<Rightarrow> (case verifiers of
       Inl e \<Rightarrow> Inl e
     | Inr vs \<Rightarrow> Inr (c\<lparr>Validator := Some (NewValidator vs)\<rparr>)))"

text \<open>A connection, for \<^verbatim>\<open>ClientCert\<close>: a TLS one with the outcome of its handshake, its version and peer certificates; \<open>zero\<close> is the zero value of a certificate.\<close>

datatype net_Conn = TlsConn "err option" nat "x509 list" | OtherConn

definition ClientCert :: "x509 \<Rightarrow> net_Conn \<Rightarrow> x509 \<times> err option" where
  "ClientCert zero conn = (case conn of
     TlsConn handshake version peers \<Rightarrow>
       (case handshake of
          Some e \<Rightarrow> (zero, Some e)
        | None \<Rightarrow> if version = 0 then (zero, Some errTLSdetails)
                  else (case peers of [] \<Rightarrow> (zero, None) | cert # certs \<Rightarrow> (cert, None)))
   | OtherConn \<Rightarrow> (zero, None))"

fun ClientAuth_String :: "ClientAuth \<Rightarrow> string" where
  "ClientAuth_String NoClientCert = ''NoClientCert''"
| "ClientAuth_String RequireAndVerifyClientCert = ''RequireAndVerifyClientCert''"

fun SecurityStatus :: "TLSConfig option \<Rightarrow> string" where
  "SecurityStatus None = ''no TLS''"
| "SecurityStatus (Some (TLS c)) = (let ret = (if sc_Certificates c = [] then ''no server certificates'' else ''TLS'')
     in if sc_ClientCAs c \<noteq> None then ret @ '' and '' @ ClientAuth_String (sc_ClientAuth c) else ret)"
| "SecurityStatus (Some (DTLS c)) = ''DTLS''"

section \<open>Lemmas\<close>

fun config_of :: "TLSConfig \<Rightarrow> server_config" where
  "config_of (TLS s) = s"
| "config_of (DTLS s) = s"

lemma fill_config_ok:
  assumes "fill_config k c cert rootCA clientCA s = (s', None)" "clientCA \<noteq> []" "Validator c = Some f"
  shows "sc_ClientAuth s' = RequireAndVerifyClientCert" "sc_VerifyPeerCertificate s' = Some f"
    and "sc_Certificates s' = [cert]" "\<exists>ps. sc_ClientCAs s' = Some ps \<and> clientCA \<in> set ps"
  using assms by (auto simp: fill_config_def append_pool_def Let_def split: if_splits option.splits)

lemma LoadTLSConfig_Some:
  assumes "LoadTLSConfig v k c s = (t, Inr (Some t'))"
  obtains cert rootCA clientCA where "t' = t" "loadCertFile v (ClientCAFile c) = Inr clientCA"
    "fill_config k c cert rootCA clientCA (config_of s) = (config_of t, None)"
  using assms
  by (cases s) (auto simp: LoadTLSConfig_def Let_def split: if_splits sum.splits prod.splits option.splits)

lemma build_verifiers_both:
  "build_verifiers (Inr a) (Inr b) ms acc = Inr (acc @ map (\<lambda>m. case m of OCSP \<Rightarrow> a | CRL \<Rightarrow> b) ms)"
  by (induction ms arbitrary: acc) (auto split: verification.splits)

lemma fill_config_no_client_ca:
  assumes "fill_config k c cert rootCA [] s = (s', None)"
  shows "sc_ClientAuth s' = sc_ClientAuth s \<and> sc_VerifyPeerCertificate s' = sc_VerifyPeerCertificate s"
  using assms by (auto simp: fill_config_def append_pool_def Let_def split: if_splits option.splits)

section \<open>Properties\<close>

text \<open>C12 (safety). A server whose environment names both methods and a client CA demands a certificate
  of every client and verifies it, and on the chains found for it the callback accepts
  exactly when every certificate of every chain is good for OCSP and absent from the
  revocation list in force. The OCSP check comes first and its error wins.\<close>

theorem revocation_checked_clients:
  assumes "newVerifiers (envParseSliceValidate ''ocsp,crl'') (ocsp_New v (Inr oc)) (crl_New v (Inr c)) = vs"
    and "tls_NewConfig (Inr paths) vs = Inr cfg" "LoadTLSConfig v k cfg s = (t, Inr (Some t'))"
    and "loadCertFile v (ClientCAFile paths) = Inr ca" "ca \<noteq> []" "chs \<noteq> []"
  shows "\<exists>f. sc_ClientAuth (config_of t') = RequireAndVerifyClientCert \<and> sc_VerifyPeerCertificate (config_of t') = Some f
    \<and> (f raw chs = Ok () \<longleftrightarrow> (\<exists>off. loadOfflineCRL v c = Ok off
         \<and> (\<forall>chain \<in> set chs. \<forall>(cert, issuer) \<in> set (issued chain).
              ocsp_good v oc cert (if isRootCA cert then cert else issuer) \<and> crl_passes v c off cert (Some issuer))))
    \<and> (\<forall>e. ocsp_VerifyPeerCertificate v oc raw chs = Fail e \<longrightarrow> f raw chs = Fail e)"
proof -
  let ?f = "NewValidator [ocsp_VerifyPeerCertificate v oc, crl_VerifyPeerCertificate v c]"
  have "envParseSliceValidate ''ocsp,crl'' = Inr [OCSP, CRL]" by code_simp
  with assms(1) have "vs = Inr [ocsp_VerifyPeerCertificate v oc, crl_VerifyPeerCertificate v c]"
    by (simp add: newVerifiers_def ocsp_New_def crl_New_def)
  with assms(2) have cfg: "cfg = paths\<lparr>Validator := Some ?f\<rparr>" by (simp add: tls_NewConfig_def)
  from assms(3) obtain cert rootCA clientCA where t: "t' = t" "loadCertFile v (ClientCAFile cfg) = Inr clientCA"
    "fill_config k cfg cert rootCA clientCA (config_of s) = (config_of t, None)"
    by (rule LoadTLSConfig_Some)
  with cfg assms(4,5) have "clientCA \<noteq> []" "Validator cfg = Some ?f" by simp_all
  note fill = fill_config_ok [OF t(3) this]
  have "?f raw chs = Ok () \<longleftrightarrow> (\<exists>off. loadOfflineCRL v c = Ok off
         \<and> (\<forall>chain \<in> set chs. \<forall>(cert, issuer) \<in> set (issued chain).
              ocsp_good v oc cert (if isRootCA cert then cert else issuer) \<and> crl_passes v c off cert (Some issuer)))"
    using both_verifiers.both.accepts [OF assms(6), of v oc c raw]
    by (cases "loadOfflineCRL v c") (simp_all add: offline_list_def split_beta del: NewValidator.simps)
  with fill t(1) show ?thesis by (intro exI [of _ ?f]) simp
qed

definition sample_paths :: tls_Config where
  "sample_paths = \<lparr>CertFile = ''c'', KeyFile = ''k'', ServerCAFile = [], ClientCAFile = ''ca'', Validator = None\<rparr>"

definition sample_keys :: key_env where
  "sample_keys = \<lparr>env_LoadX509KeyPair = \<lambda>c k. Inr ''pair'', env_IsPEM = \<lambda>bs. True\<rparr>"

definition new_config :: server_config where
  "new_config = \<lparr>sc_Certificates = [], sc_RootCAs = None, sc_ClientCAs = None, sc_ClientAuth = NoClientCert,
     sc_VerifyPeerCertificate = None\<rparr>"

lemma revocation_checked_clients_witness:
  "\<exists>t f. LoadTLSConfig (sample_env [9]) sample_keys
       (sample_paths\<lparr>Validator := Some (NewValidator [ocsp_VerifyPeerCertificate (sample_env [9]) ocsp_sample,
          crl_VerifyPeerCertificate (sample_env [9]) crl_sample])\<rparr>) (TLS new_config) = (t, Inr (Some t))
     \<and> sc_ClientAuth (config_of t) = RequireAndVerifyClientCert \<and> sc_VerifyPeerCertificate (config_of t) = Some f
     \<and> (f [] [[leaf_cert, ca_cert]] = Ok () \<longleftrightarrow> (\<exists>off. loadOfflineCRL (sample_env [9]) crl_sample = Ok off
         \<and> (\<forall>chain \<in> set [[leaf_cert, ca_cert]]. \<forall>(cert, issuer) \<in> set (issued chain).
              ocsp_good (sample_env [9]) ocsp_sample cert (if isRootCA cert then cert else issuer)
              \<and> crl_passes (sample_env [9]) crl_sample off cert (Some issuer))))"
proof -
  let ?v = "sample_env [9]"
  let ?vms = "[ocsp_VerifyPeerCertificate ?v ocsp_sample, crl_VerifyPeerCertificate ?v crl_sample]"
  let ?cfg = "sample_paths\<lparr>Validator := Some (NewValidator ?vms)\<rparr>"
  obtain t where load: "LoadTLSConfig ?v sample_keys ?cfg (TLS new_config) = (t, Inr (Some t))"
    by (simp add: LoadTLSConfig_def sample_paths_def sample_keys_def loadCertFile_def sample_env_def fill_config_def append_pool_def Let_def)
  have vs: "newVerifiers (envParseSliceValidate ''ocsp,crl'') (ocsp_New ?v (Inr ocsp_sample))
      (crl_New ?v (Inr crl_sample)) = Inr ?vms"
  proof -
    have "envParseSliceValidate ''ocsp,crl'' = Inr [OCSP, CRL]" by code_simp
    then show ?thesis by (simp add: newVerifiers_def ocsp_New_def crl_New_def)
  qed
  have cfg: "tls_NewConfig (Inr sample_paths) (Inr ?vms) = Inr ?cfg" by (simp add: tls_NewConfig_def)
  have ca: "loadCertFile ?v (ClientCAFile sample_paths) = Inr ''1''"
    by (simp add: loadCertFile_def sample_paths_def sample_env_def)
  have "''1'' \<noteq> []" "[[leaf_cert, ca_cert]] \<noteq> []" by simp_all
  with revocation_checked_clients [OF vs cfg load ca, of "[[leaf_cert, ca_cert]]" "[]"] load
  show ?thesis by blast
qed

text \<open>Without a client CA the loaded configuration keeps the client authentication and the
  callback of the one it was given: naming revocation methods alone checks nothing.\<close>

theorem no_client_ca_no_checks:
  assumes "LoadTLSConfig v k c s = (t, Inr (Some t'))" "loadCertFile v (ClientCAFile c) = Inr []"
  shows "sc_ClientAuth (config_of t') = sc_ClientAuth (config_of s)
    \<and> sc_VerifyPeerCertificate (config_of t') = sc_VerifyPeerCertificate (config_of s)"
  using LoadTLSConfig_Some [OF assms(1)] assms(2) fill_config_no_client_ca by (metis sum.inject(2))

lemma no_client_ca_no_checks_witness:
  "\<exists>t. LoadTLSConfig (sample_env []) sample_keys (sample_paths\<lparr>ClientCAFile := [], Validator := Some (NewValidator [])\<rparr>) (DTLS new_config)
      = (t, Inr (Some t)) \<and> sc_ClientAuth (config_of t) = NoClientCert \<and> sc_VerifyPeerCertificate (config_of t) = None"
proof -
  let ?c = "sample_paths\<lparr>ClientCAFile := [], Validator := Some (NewValidator [])\<rparr>"
  obtain t where load: "LoadTLSConfig (sample_env []) sample_keys ?c (DTLS new_config) = (t, Inr (Some t))"
    by (simp add: LoadTLSConfig_def sample_paths_def sample_keys_def loadCertFile_def fill_config_def Let_def)
  moreover have "loadCertFile (sample_env []) (ClientCAFile ?c) = Inr []" by (simp add: loadCertFile_def)
  ultimately show ?thesis
    using no_client_ca_no_checks [OF load] by (auto simp: new_config_def)
qed

end
