(* ===== verification/HttpParser.thy ===== *)
theory HttpParser
  imports Parser
begin

text \<open>
  The HTTP parser (\<^verbatim>\<open>src/pkg/parser/http/parser.go\<close>) and what it uses of Go's packages
  \<^verbatim>\<open>net/http\<close>, \<^verbatim>\<open>net/url\<close> and \<^verbatim>\<open>encoding/base64\<close>: Basic credentials, query
  parameters, limited reading. A request has the fields the parser reads or writes; its
  body is the bytes it yields and the error that follows them, \<open>None\<close> for the end of the
  body. The result of a request is the error reply, or the request handed to the reverse
  proxy. Parsing of a whole URL is a parameter. Shown: what is forwarded and with which
  approval, every error reply, and that Basic credentials reach the handler unchanged.
\<close>

section \<open>Definitions\<close>

record url =
  u_Path :: string
  u_RawQuery :: string
  u_Host :: string
  u_rest :: string

record http_Request =
  hr_Method :: string
  hr_RequestURI :: string
  hr_URL :: url
  hr_Header :: "string list gomap"
  hr_Host :: string
  hr_RemoteAddr :: string
  hr_Body :: "bytes \<times> err option"
  hr_ContentLength :: int

text \<open>\<^verbatim>\<open>Header.Get\<close> of a key in canonical form: its first value, or the empty string.\<close>

definition header_Get :: "string list gomap \<Rightarrow> string \<Rightarrow> string" where
  "header_Get hdr k = (case go_get hdr k of Some (v # vs) \<Rightarrow> v | _ \<Rightarrow> [])"

text \<open>\<^verbatim>\<open>strings.Cut\<close> at a character.\<close>

fun cut :: "char \<Rightarrow> string \<Rightarrow> string \<times> string \<times> bool" where
  "cut sep [] = ([], [], False)"
| "cut sep (ch # s) = (if ch = sep then ([], s, True) else case cut sep s of (a, b, ok) \<Rightarrow> (ch # a, b, ok))"

subsection \<open>Base64\<close>

definition b64_val :: "char \<Rightarrow> nat option" where
  "b64_val ch = (let n = of_char ch in
     if 65 \<le> n \<and> n \<le> 90 then Some (n - 65)
     else if 97 \<le> n \<and> n \<le> 122 then Some (n - 71)
     else if 48 \<le> n \<and> n \<le> 57 then Some (n + 4)
     else if n = 43 then Some 62 else if n = 47 then Some 63 else None)"

fun b64_groups :: "string \<Rightarrow> bytes option" where
  "b64_groups [] = Some []"
| "b64_groups (a # b # c # d # rest) = (case (b64_val a, b64_val b) of
     (Some x, Some y) \<Rightarrow>
       (if rest = [] \<and> c = CHR ''='' \<and> d = CHR ''='' then Some [char_of (x * 4 + y div 16)]
        else case b64_val c of
          None \<Rightarrow> None
        | Some z \<Rightarrow>
            (if rest = [] \<and> d = CHR ''='' then Some [char_of (x * 4 + y div 16), char_of (y mod 16 * 16 + z div 4)]
             else case b64_val d of
               None \<Rightarrow> None
             | Some u \<Rightarrow> (case b64_groups rest of
                 None \<Rightarrow> None
               | Some bs \<Rightarrow> Some (char_of (x * 4 + y div 16) # char_of (y mod 16 * 16 + z div 4) # char_of (z mod 4 * 64 + u) # bs))))
   | _ \<Rightarrow> None)"
| "b64_groups s = None"

text \<open>\<^verbatim>\<open>base64.StdEncoding.DecodeString\<close>, which skips line breaks.\<close>

definition b64_DecodeString :: "string \<Rightarrow> bytes option" where
  "b64_DecodeString s = b64_groups (filter (\<lambda>ch. ch \<noteq> CHR 0x0A \<and> ch \<noteq> CHR 0x0D) s)"

definition lower :: "char \<Rightarrow> char" where
  "lower ch = (if 65 \<le> (of_char ch :: nat) \<and> (of_char ch :: nat) \<le> 90 then char_of (of_char ch + 32 :: nat) else ch)"

text \<open>\<^verbatim>\<open>Request.BasicAuth\<close>; the prefix is matched whatever its letter case.\<close>

definition BasicAuth :: "http_Request \<Rightarrow> (string \<times> string) option" where
  "BasicAuth r = (let auth = header_Get (hr_Header r) ''Authorization'' in
     if length auth < 6 \<or> map lower (take 6 auth) \<noteq> ''basic '' then None
     else case b64_DecodeString (drop 6 auth) of
       None \<Rightarrow> None
     | Some cs \<Rightarrow> (case cut (CHR '':'') cs of (u, p, ok) \<Rightarrow> if ok then Some (u, p) else None))"

subsection \<open>Query parameters\<close>

definition unhex :: "char \<Rightarrow> nat option" where
  "unhex ch = (let n = of_char ch in
     if 48 \<le> n \<and> n \<le> 57 then Some (n - 48)
     else if 97 \<le> n \<and> n \<le> 102 then Some (n - 87)
     else if 65 \<le> n \<and> n \<le> 70 then Some (n - 55) else None)"

fun QueryUnescape :: "string \<Rightarrow> string option" where
  "QueryUnescape [] = Some []"
| "QueryUnescape (ch # s) = (
     if ch = CHR ''%'' then
       (case s of
          a # b # t \<Rightarrow> (case (unhex a, unhex b, QueryUnescape t) of
            (Some x, Some y, Some rest) \<Rightarrow> Some (char_of (x * 16 + y) # rest)
          | _ \<Rightarrow> None)
        | _ \<Rightarrow> None)
     else map_option (\<lambda>rest. (if ch = CHR ''+'' then CHR '' '' else ch) # rest) (QueryUnescape s))"

fun split_amp :: "string \<Rightarrow> string \<Rightarrow> string list" where
  "split_amp acc [] = [acc]"
| "split_amp acc (ch # s) = (if ch = CHR ''&'' then acc # split_amp [] s else split_amp (acc @ [ch]) s)"

text \<open>The pair of one component of a query; a malformed one is skipped.\<close>

definition query_pair :: "string \<Rightarrow> (string \<times> string) option" where
  "query_pair s = (
     if CHR '';'' \<in> set s \<or> s = [] then None
     else case cut (CHR ''='') s of (k, v, ok) \<Rightarrow>
       (case (QueryUnescape k, QueryUnescape v) of (Some k', Some v') \<Rightarrow> Some (k', v') | _ \<Rightarrow> None))"

text \<open>\<^verbatim>\<open>URL.Query().Get\<close>: the first value of the key.\<close>

definition query_Get :: "url \<Rightarrow> string \<Rightarrow> string" where
  "query_Get u k = (case map_of (List.map_filter query_pair (split_amp [] (u_RawQuery u))) k of Some v \<Rightarrow> v | None \<Rightarrow> [])"

subsection \<open>The parser\<close>

definition extractAuth :: "http_Request \<Rightarrow> string \<times> string" where
  "extractAuth r = (case BasicAuth r of
     Some (user, pass) \<Rightarrow> (user, pass)
   | None \<Rightarrow>
       (let auth = query_Get (hr_URL r) ''authorization'' in
        if auth \<noteq> [] then ([], auth)
        else let auth = header_Get (hr_Header r) ''Authorization'' in
          if auth \<noteq> [] then ([], auth) else ([], [])))"

definition maxBodySize :: nat where
  "maxBodySize = 10 * 1024 * 1024"

text \<open>\<^verbatim>\<open>io.ReadAll(io.LimitReader(body, n))\<close>: an error after more than \<open>n\<close> bytes is not reached.\<close>

definition read_limited :: "nat \<Rightarrow> bytes \<times> err option \<Rightarrow> err + bytes" where
  "read_limited n body = (case body of (bs, e) \<Rightarrow>
     if length bs < n then (case e of Some x \<Rightarrow> Inl x | None \<Rightarrow> Inr bs) else Inr (take n bs))"

definition write_method :: "string \<Rightarrow> bool" where
  "write_method m \<longleftrightarrow> m = ''POST'' \<or> m = ''PUT'' \<or> m = ''PATCH''"

datatype http_outcome = Reply nat string | Forward http_Request

definition http_context :: "http_Request \<Rightarrow> 'c Context" where
  "http_context r = (case extractAuth r of (username, password) \<Rightarrow>
     zero_Context\<lparr>SessionID := header_Get (hr_Header r) ''X-Request-Id'', Username := username, Password := password,
       RemoteAddr := hr_RemoteAddr r, Protocol := ''http''\<rparr>)"

text \<open>The part for methods that write (lines 113-142); \<open>Inl\<close>: the reply.\<close>

definition http_publish :: "(string \<Rightarrow> err + url) \<Rightarrow> ('h, 'c) Handler \<Rightarrow> http_Request \<Rightarrow> bytes \<Rightarrow> ('h, 'c) session
    \<Rightarrow> ((nat \<times> string) + http_Request) \<times> ('h, 'c) session" where
  "http_publish url_Parse H r payload s = (case s of (hctx, h) \<Rightarrow>
     (case AuthPublish H h hctx (hr_RequestURI r) payload of
        (Some e, hctx, topic, payload, h) \<Rightarrow> (Inl (403, ''Forbidden''), hctx, h)
      | (None, hctx, topic, payload, h) \<Rightarrow>
          (let r = (if topic \<noteq> hr_RequestURI r then
                      (case url_Parse topic of
                         Inr newURL \<Rightarrow> r\<lparr>hr_URL := newURL, hr_RequestURI := topic\<rparr>
                       | Inl e \<Rightarrow> r)
                    else r);
               r = r\<lparr>hr_Body := (payload, None), hr_ContentLength := int (length payload)\<rparr>
           in case OnPublish H h hctx topic payload of (e, hctx, h) \<Rightarrow> (Inr r, hctx, h))))"

definition http_ServeHTTP :: "(string \<Rightarrow> err + url) \<Rightarrow> ('h, 'c) Handler \<Rightarrow> http_Request \<Rightarrow> 'h
    \<Rightarrow> http_outcome \<times> ('h, 'c) session" where
  "http_ServeHTTP url_Parse H r h = (case AuthConnect H h (http_context r) of
     (Some e, hctx, h) \<Rightarrow> (Reply 401 ''Unauthorized'', hctx, h)
   | (None, hctx, h) \<Rightarrow> (case read_limited (maxBodySize + 1) (hr_Body r) of
       Inl e \<Rightarrow> (Reply 400 ''Bad Request'', hctx, h)
     | Inr payload \<Rightarrow>
         (if length payload > maxBodySize then (Reply 413 ''Request Entity Too Large'', hctx, h)
          else let r = r\<lparr>hr_Body := (payload, None)\<rparr> in
            case (if write_method (hr_Method r) then http_publish url_Parse H r payload (hctx, h) else (Inr r, hctx, h)) of
              (Inl (code, txt), s) \<Rightarrow> (Reply code txt, s)
            | (Inr r, hctx, h) \<Rightarrow> (case OnConnect H h hctx of (e, hctx, h) \<Rightarrow> (Forward r, hctx, h)))))"

text \<open>The director of the reverse proxy: the library's, then the host of the target.\<close>

definition http_Director :: "(http_Request \<Rightarrow> http_Request) \<Rightarrow> url \<Rightarrow> http_Request \<Rightarrow> http_Request" where
  "http_Director originalDirector target req = (originalDirector req)\<lparr>hr_Host := u_Host target\<rparr>"

definition http_NewParser :: "(string \<Rightarrow> err + url) \<Rightarrow> string \<Rightarrow> err + url" where
  "http_NewParser url_Parse targetURL = (case url_Parse targetURL of
     Inl e \<Rightarrow> Inl (Wrapf ''failed to parse target URL: '' e [])
   | Inr target \<Rightarrow> Inr target)"

definition http_Parse :: "('r, 'w, 'h, 'c) parser" where
  "http_Parse dir H r w s = (Some (Sentinel ''http.Parse'' ''Parse not supported for HTTP parser, use ServeHTTP''), r, w, s)"

section \<open>Base64 decodes what was encoded\<close>

definition b64_char :: "nat \<Rightarrow> char" where
  "b64_char n = char_of (if n < 26 then n + 65 else if n < 52 then n + 71 else if n < 62 then n - 4 else if n = 62 then 43 else 47)"

fun b64_encode :: "bytes \<Rightarrow> string" where
  "b64_encode [] = []"
| "b64_encode [a] = (let x = of_char a in [b64_char (x div 4), b64_char (x mod 4 * 16), CHR ''='', CHR ''=''])"
| "b64_encode [a, b] = (let x = of_char a; y = of_char b in
     [b64_char (x div 4), b64_char (x mod 4 * 16 + y div 16), b64_char (y mod 16 * 4), CHR ''=''])"
| "b64_encode (a # b # c # bs) = (let x = of_char a; y = of_char b; z = of_char c in
     b64_char (x div 4) # b64_char (x mod 4 * 16 + y div 16) # b64_char (y mod 16 * 4 + z div 64) # b64_char (z mod 64)
     # b64_encode bs)"

lemma b64_val_char: "n < 64 \<Longrightarrow> b64_val (b64_char n) = Some n"
  by (auto simp: b64_val_def b64_char_def Let_def)

lemma b64_val_pad: "b64_val (CHR ''='') = None" "b64_val (CHR 0x0A) = None" "b64_val (CHR 0x0D) = None"
  by (simp_all add: b64_val_def)

lemma b64_char_plain: "b64_char n \<noteq> CHR ''='' \<and> b64_char n \<noteq> CHR 0x0A \<and> b64_char n \<noteq> CHR 0x0D"
proof -
  have "b64_char n = b64_char (min n 63)" by (simp add: b64_char_def min_def)
  then show ?thesis using b64_val_char [of "min n 63"] b64_val_pad by (metis option.distinct(1) min_less_iff_disj numeral_less_iff semiring_norm(76,78,81))
qed

lemma char_nat_less [simp]: "(of_char ch :: nat) < 256"
  using nat_of_char_less_256 by simp

lemma sextet_bounds:
  fixes x y z :: nat
  assumes "x < 256" "y < 256" "z < 256"
  shows "x div 4 < 64" "x mod 4 * 16 < 64" "x mod 4 * 16 + y div 16 < 64" "y mod 16 * 4 < 64"
    "y mod 16 * 4 + z div 64 < 64" "z mod 64 < 64"
  using assms by auto

lemma octets:
  fixes x y z :: nat
  assumes "y < 256" "z < 256"
  shows "x div 4 * 4 + (x mod 4 * 16 + y div 16) div 16 = x" "x div 4 * 4 + x mod 4 * 16 div 16 = x"
    "(x mod 4 * 16 + y div 16) mod 16 * 16 + (y mod 16 * 4 + z div 64) div 4 = y"
    "(x mod 4 * 16 + y div 16) mod 16 * 16 + y mod 16 * 4 div 4 = y"
    "(y mod 16 * 4 + z div 64) mod 4 * 64 + z mod 64 = z"
  using assms by auto

lemma high_nibble: "of_char b div 16 div 16 = (0 :: nat)" "of_char b div 16 mod 16 = (of_char b div 16 :: nat)"
proof -
  have "(of_char b :: nat) div 16 < 16" using char_nat_less [of b] by linarith
  then show "of_char b div 16 div 16 = (0 :: nat)" "of_char b div 16 mod 16 = (of_char b div 16 :: nat)" by simp_all
qed

lemma high_bits: "of_char c div 64 div 4 = (0 :: nat)" "of_char c div 64 mod 4 = (of_char c div 64 :: nat)"
proof -
  have "(of_char c :: nat) div 64 < 4" using char_nat_less [of c] by linarith
  then show "of_char c div 64 div 4 = (0 :: nat)" "of_char c div 64 mod 4 = (of_char c div 64 :: nat)" by simp_all
qed

lemma b64_groups_encode: "b64_groups (b64_encode bs) = Some bs"
proof (induction bs rule: b64_encode.induct)
  case (2 a)
  show ?case
    using sextet_bounds [of "of_char a" 0 0] by (simp add: Let_def b64_val_char octets)
next
  case (3 a b)
  show ?case
    using sextet_bounds [of "of_char a" "of_char b" 0] high_nibble [of b]
    by (simp add: Let_def b64_val_char b64_char_plain octets)
next
  case (4 a b c bs)
  then show ?case
    using sextet_bounds [of "of_char a" "of_char b" "of_char c"] high_nibble [of b] high_bits [of c]
    by (simp add: Let_def b64_val_char b64_char_plain octets)
qed simp

lemma b64_encode_plain: "ch \<in> set (b64_encode bs) \<Longrightarrow> ch \<noteq> CHR 0x0A \<and> ch \<noteq> CHR 0x0D"
  by (induction bs rule: b64_encode.induct) (auto simp: Let_def b64_char_plain)

lemma b64_round_trip: "b64_DecodeString (b64_encode bs) = Some bs"
proof -
  have "filter (\<lambda>ch. ch \<noteq> CHR 0x0A \<and> ch \<noteq> CHR 0x0D) (b64_encode bs) = b64_encode bs"
    by (simp add: filter_id_conv b64_encode_plain)
  then show ?thesis by (simp add: b64_DecodeString_def b64_groups_encode)
qed

lemma cut_append: "sep \<notin> set a \<Longrightarrow> cut sep (a @ sep # b) = (a, b, True)"
  by (induction a) auto

section \<open>Properties\<close>

text \<open>
  The specification of one request: the answers of the handler and what it turned the
  request into.
\<close>

definition http_asked :: "('h, 'c) Handler \<Rightarrow> http_Request \<Rightarrow> 'h \<Rightarrow> err option \<times> ('h, 'c) session" where
  "http_asked H r h = (case AuthConnect H h (http_context r) of (e, s) \<Rightarrow> (e, s))"

definition publish_asked :: "('h, 'c) Handler \<Rightarrow> http_Request \<Rightarrow> 'h \<Rightarrow> err option \<times> string \<times> bytes" where
  "publish_asked H r h = (case snd (http_asked H r h) of (hctx, h1) \<Rightarrow>
     (case AuthPublish H h1 hctx (hr_RequestURI r) (fst (hr_Body r)) of (e, hctx, topic, payload, h2) \<Rightarrow> (e, topic, payload)))"

definition body_ok :: "http_Request \<Rightarrow> bool" where
  "body_ok r \<longleftrightarrow> snd (hr_Body r) = None \<and> length (fst (hr_Body r)) \<le> maxBodySize"

definition body_fails :: "http_Request \<Rightarrow> bool" where
  "body_fails r \<longleftrightarrow> snd (hr_Body r) \<noteq> None \<and> length (fst (hr_Body r)) \<le> maxBodySize"

text \<open>The request as the handler left it.\<close>

definition http_rewritten :: "(string \<Rightarrow> err + url) \<Rightarrow> ('h, 'c) Handler \<Rightarrow> http_Request \<Rightarrow> 'h \<Rightarrow> http_Request" where
  "http_rewritten url_Parse H r h = (
     if write_method (hr_Method r) then
       (case publish_asked H r h of (e, topic, payload) \<Rightarrow>
         (case (topic = hr_RequestURI r, url_Parse topic) of
            (False, Inr u) \<Rightarrow> r\<lparr>hr_URL := u, hr_RequestURI := topic\<rparr>
          | _ \<Rightarrow> r)\<lparr>hr_Body := (payload, None), hr_ContentLength := int (length payload)\<rparr>)
     else r)"

lemma read_limited_ok:
  "read_limited (maxBodySize + 1) body = Inr bs \<longleftrightarrow>
     (if length (fst body) \<le> maxBodySize then snd body = None \<and> bs = fst body else bs = take (maxBodySize + 1) (fst body))"
  by (auto simp: read_limited_def split: prod.splits option.splits)

lemma read_limited_error:
  "(\<exists>e. read_limited (maxBodySize + 1) body = Inl e) \<longleftrightarrow> length (fst body) \<le> maxBodySize \<and> snd body \<noteq> None"
  by (auto simp: read_limited_def split: prod.splits option.splits)

lemma http_publish_cases:
  "fst (http_publish url_Parse H r bs (hctx, h)) = (case AuthPublish H h hctx (hr_RequestURI r) bs of
     (Some e, _) \<Rightarrow> Inl (403, ''Forbidden'')
   | (None, hctx', topic, payload, h') \<Rightarrow>
       Inr ((case (topic = hr_RequestURI r, url_Parse topic) of
            (False, Inr u) \<Rightarrow> r\<lparr>hr_URL := u, hr_RequestURI := topic\<rparr>
          | _ \<Rightarrow> r)\<lparr>hr_Body := (payload, None), hr_ContentLength := int (length payload)\<rparr>))"
  by (auto simp: http_publish_def Let_def split: prod.splits option.splits sum.splits bool.splits)

lemma serve_publish:
  assumes "AuthConnect H h (http_context r) = (None, hctx, h1)" "hr_Body r = (bs, None)" "length bs \<le> maxBodySize"
    and "write_method (hr_Method r)"
  shows "fst (http_ServeHTTP url_Parse H r h) =
    (if fst (publish_asked H r h) \<noteq> None then Reply 403 ''Forbidden'' else Forward (http_rewritten url_Parse H r h))"
proof -
  have r: "r\<lparr>hr_Body := (bs, None)\<rparr> = r" using assms(2) by simp
  have p: "fst (http_publish url_Parse H r bs (hctx, h1)) =
      (if fst (publish_asked H r h) \<noteq> None then Inl (403, ''Forbidden'') else Inr (http_rewritten url_Parse H r h))"
    using assms by (auto simp: http_publish_cases publish_asked_def http_asked_def http_rewritten_def split: prod.splits option.splits)
  obtain x s' where x: "http_publish url_Parse H r bs (hctx, h1) = (x, s')" by (cases "http_publish url_Parse H r bs (hctx, h1)")
  then have "http_publish url_Parse H (r\<lparr>hr_Body := (bs, None)\<rparr>) bs (hctx, h1) = (x, s')" by (simp only: r)
  then have "fst (http_ServeHTTP url_Parse H r h) = (case x of Inl ct \<Rightarrow> Reply (fst ct) (snd ct) | Inr r' \<Rightarrow> Forward r')"
    using assms by (auto simp: http_ServeHTTP_def read_limited_def Let_def split: prod.splits sum.splits)
  with p x show ?thesis by simp
qed

lemma serve_read:
  assumes "AuthConnect H h (http_context r) = (None, hctx, h1)" "hr_Body r = (bs, None)" "length bs \<le> maxBodySize"
    and "\<not> write_method (hr_Method r)"
  shows "fst (http_ServeHTTP url_Parse H r h) = Forward r"
proof -
  have "r\<lparr>hr_Body := (bs, None)\<rparr> = r" using assms(2) by simp
  then show ?thesis
    using assms by (simp add: http_ServeHTTP_def read_limited_def Let_def split: prod.splits)
qed

text \<open>C21 (functional). The reverse proxy: a request is answered 401 exactly when the handler
  refuses the connection, 400 when the body cannot be read, 413 when it is longer than 10
  MiB, 403 when the method writes and the handler refuses the publication; otherwise it is
  forwarded as the handler left it: with the handler's payload as body and its length as
  content length, and the handler's topic as URI when it is a URL.\<close>

theorem http_outcomes:
  "fst (http_ServeHTTP url_Parse H r h) =
    (if fst (http_asked H r h) \<noteq> None then Reply 401 ''Unauthorized''
     else if body_fails r then Reply 400 ''Bad Request''
     else if \<not> body_ok r then Reply 413 ''Request Entity Too Large''
     else if write_method (hr_Method r) \<and> fst (publish_asked H r h) \<noteq> None then Reply 403 ''Forbidden''
     else Forward (http_rewritten url_Parse H r h))"
proof (cases "AuthConnect H h (http_context r)")
  case c: (fields e hctx h1)
  show ?thesis
  proof (cases "e = None \<and> body_ok r")
    case True
    then obtain bs where bs: "hr_Body r = (bs, None)" "length bs \<le> maxBodySize"
      by (cases "hr_Body r") (auto simp: body_ok_def)
    then show ?thesis
      using serve_publish [OF _ bs, of H h hctx h1 url_Parse] serve_read [OF _ bs, of H h hctx h1 url_Parse] c True
      by (auto simp: http_asked_def http_rewritten_def body_fails_def)
  next
    case False
    then show ?thesis
      using c by (auto simp: http_ServeHTTP_def http_asked_def body_ok_def body_fails_def read_limited_def
          split: prod.splits option.splits)
  qed
qed

text \<open>C34 (roundtrip). Basic credentials reach the handler byte for byte: whatever the user name
  without a colon and the password, the context of a request that carries them encoded in
  its header has exactly that user name and password, whatever the query says.\<close>

theorem basic_credentials_round_trip:
  assumes "CHR '':'' \<notin> set user" "go_get (hr_Header r) ''Authorization'' = Some ((''Basic '' @ b64_encode (user @ CHR '':'' # pass)) # vs)"
  shows "Username (http_context r) = user \<and> Password (http_context r) = pass"
proof -
  have "header_Get (hr_Header r) ''Authorization'' = ''Basic '' @ b64_encode (user @ CHR '':'' # pass)"
    using assms(2) by (simp add: header_Get_def)
  moreover have "map lower ''Basic '' = ''basic ''" by code_simp
  ultimately have "BasicAuth r = Some (user, pass)"
    using assms(1) by (simp add: BasicAuth_def b64_round_trip cut_append)
  then show ?thesis by (simp add: http_context_def extractAuth_def)
qed

definition sample_request :: http_Request where
  "sample_request = \<lparr>hr_Method = ''POST'', hr_RequestURI = ''/a'', hr_URL = \<lparr>u_Path = ''/a'', u_RawQuery = [], u_Host = [], u_rest = []\<rparr>,
     hr_Header = [(''Authorization'', [''Basic '' @ b64_encode ''me:a:b''])], hr_Host = ''h'', hr_RemoteAddr = ''c'',
     hr_Body = (''x'', None), hr_ContentLength = 1\<rparr>"

lemma basic_credentials_round_trip_witness:
  "Username (http_context sample_request :: unit Context) = ''me'' \<and> Password (http_context sample_request :: unit Context) = ''a:b''"
  using basic_credentials_round_trip [of "''me''" sample_request "''a:b''" "[]"] by (simp add: sample_request_def)

text \<open>When the handler rewrites the topic to something that is not a URL, the request is
  still forwarded, to the resource the client asked for, although the handler approved
  another one.\<close>

lemma unparsable_topic_ignored:
  assumes "body_ok r" "write_method (hr_Method r)" "fst (http_asked H r h) = None"
    and "publish_asked H r h = (None, topic, payload)" "url_Parse topic = Inl e"
  shows "\<exists>r'. fst (http_ServeHTTP url_Parse H r h) = Forward r' \<and> hr_URL r' = hr_URL r \<and> hr_RequestURI r' = hr_RequestURI r"
  using assms serve_publish [of H h r] by (cases "AuthConnect H h (http_context r)"; cases "hr_Body r")
    (auto simp: http_asked_def body_ok_def http_rewritten_def split: bool.splits)

end
