(* ===== verification/WebsocketParser.thy ===== *)
theory WebsocketParser
  imports HttpParser TcpServer
begin

text \<open>
  MQTT over WebSocket (\<^verbatim>\<open>src/pkg/parser/websocket/parser.go\<close> and \<^verbatim>\<open>conn.go\<close>): the
  origin check, the target URL, the two streams over the underlying parser, and the adapter
  that turns messages into a byte stream. The WebSocket library, URL parsing and the
  network are parameters; the hypotheses about the library's readers are the predicate
  \<open>message_source\<close>. Shown: everything relayed was approved, a request from another origin
  reaches nothing, and reading through the adapter yields the bytes of the messages in
  order and returns.
\<close>

section \<open>Definitions\<close>

definition CheckOrigin :: "http_Request \<Rightarrow> bool" where
  "CheckOrigin r = (let origin = header_Get (hr_Header r) ''Origin'' in
     if origin = [] then True else origin = ''http://'' @ hr_Host r \<or> origin = ''https://'' @ hr_Host r)"

text \<open>\<^verbatim>\<open>NewParser\<close>: the settings of the upgrader and the target.\<close>

text \<open>The parsers of the sources that implement \<^verbatim>\<open>parser.Parser\<close>.\<close>

datatype stream_parser = Mqtt_Parser | Coap_Parser

record ws_Parser =
  wp_CheckOrigin :: "http_Request \<Rightarrow> bool"
  wp_ReadBufferSize :: int
  wp_WriteBufferSize :: int
  wp_targetURL :: string
  wp_underlyingParser :: stream_parser

definition ws_NewParser :: "string \<Rightarrow> stream_parser \<Rightarrow> ws_Parser" where
  "ws_NewParser targetURL underlyingParser = \<lparr>wp_CheckOrigin = CheckOrigin, wp_ReadBufferSize = 4096, wp_WriteBufferSize = 4096,
     wp_targetURL = targetURL, wp_underlyingParser = underlyingParser\<rparr>"

definition buildTargetURL :: "(string \<Rightarrow> err + url) \<Rightarrow> (url \<Rightarrow> string) \<Rightarrow> string \<Rightarrow> http_Request \<Rightarrow> err + string" where
  "buildTargetURL url_Parse url_String targetURL r = (case url_Parse targetURL of
     Inl e \<Rightarrow> Inl (Wrapf ''failed to parse target URL: '' e [])
   | Inr target \<Rightarrow> Inr (url_String (target\<lparr>u_Path := u_Path (hr_URL r), u_RawQuery := u_RawQuery (hr_URL r)\<rparr>)))"

text \<open>The loop of one direction; \<open>cancelled i\<close> is the error of the context in round \<open>i\<close>.\<close>

fun ws_stream :: "nat \<Rightarrow> (nat \<Rightarrow> err option) \<Rightarrow> ('r \<Rightarrow> 'w \<Rightarrow> 's \<Rightarrow> err option \<times> 'r \<times> 'w \<times> 's)
    \<Rightarrow> 'r \<Rightarrow> 'w \<Rightarrow> 's \<Rightarrow> (err \<times> 'r \<times> 'w \<times> 's) option" where
  "ws_stream 0 cancelled parse r w s = None"
| "ws_stream (Suc n) cancelled parse r w s = (case cancelled 0 of
     Some e \<Rightarrow> Some (e, r, w, s)
   | None \<Rightarrow> (case parse r w s of
       (Some e, r, w, s) \<Rightarrow> Some (e, r, w, s)
     | (None, r, w, s) \<Rightarrow> ws_stream n (\<lambda>i. cancelled (Suc i)) parse r w s))"

text \<open>
  One round of one direction of a running session; the context is cancelled only when the
  handler returns. A stream that has ended is in \<open>tc_errCh\<close>.
\<close>

definition ws_round :: "(Direction \<Rightarrow> 'r \<Rightarrow> 'w \<Rightarrow> 's \<Rightarrow> err option \<times> 'r \<times> 'w \<times> 's) \<Rightarrow> Direction
    \<Rightarrow> ('r, 'w, 's) tcp_conn \<Rightarrow> ('r, 'w, 's) tcp_conn" where
  "ws_round parse dir t = (
     if dir \<in> fst ` set (tc_errCh t) then t
     else case (if dir = Upstream then parse dir (tc_in_r t) (tc_out_w t) (tc_session t)
                else parse dir (tc_out_r t) (tc_in_w t) (tc_session t)) of
       (e, r, w, s) \<Rightarrow>
         (let t = (if dir = Upstream then t\<lparr>tc_in_r := r, tc_out_w := w, tc_session := s\<rparr>
                   else t\<lparr>tc_out_r := r, tc_in_w := w, tc_session := s\<rparr>)
          in case e of None \<Rightarrow> t | Some e \<Rightarrow> t\<lparr>tc_errCh := tc_errCh t @ [(dir, e)]\<rparr>))"

text \<open>
  \<^verbatim>\<open>ServeHTTP\<close>: \<open>Upgrade\<close> is the library's upgrade given the outcome of the origin check,
  \<open>Dial\<close> that of the backend. The result says how far it came and what was written to the
  two sides; it is \<open>None\<close> while a stream is running.
\<close>

datatype ws_outcome = NotUpgraded err | BadTarget err | NotDialed err | Served

definition ws_ServeHTTP :: "('r, 'w, 'h, 'c) parser \<Rightarrow> (string \<Rightarrow> err + url) \<Rightarrow> (url \<Rightarrow> string) \<Rightarrow> string \<Rightarrow> ('h, 'c) Handler
    \<Rightarrow> (bool \<Rightarrow> err option) \<Rightarrow> (string \<Rightarrow> err option) \<Rightarrow> string \<Rightarrow> http_Request \<Rightarrow> Direction list
    \<Rightarrow> 'r \<Rightarrow> 'w \<Rightarrow> 'r \<Rightarrow> 'w \<Rightarrow> 'h \<Rightarrow> (ws_outcome \<times> 'w \<times> 'w \<times> 'h) option" where
  "ws_ServeHTTP parse url_Parse url_String targetURL H Upgrade Dial sessionID r sched in_r in_w out_r out_w h = (
     case Upgrade (CheckOrigin r) of
       Some e \<Rightarrow> Some (NotUpgraded e, in_w, out_w, h)
     | None \<Rightarrow> (case buildTargetURL url_Parse url_String targetURL r of
         Inl e \<Rightarrow> Some (BadTarget e, in_w, out_w, h)
       | Inr target \<Rightarrow> (case Dial target of
           Some e \<Rightarrow> Some (NotDialed e, in_w, out_w, h)
         | None \<Rightarrow>
             (let hctx = zero_Context\<lparr>SessionID := sessionID, RemoteAddr := hr_RemoteAddr r, Protocol := ''websocket''\<rparr>;
                  t = fold (ws_round (\<lambda>dir. parse dir H)) sched
                    \<lparr>tc_in_r = in_r, tc_in_w = in_w, tc_out_r = out_r, tc_out_w = out_w,
                     tc_session = (hctx, h), tc_errCh = []\<rparr>
              in if length (tc_errCh t) < 2 then None
                 else case tc_session t of (hctx, h) \<Rightarrow>
                   (case OnDisconnect H h hctx of (e, hctx, h) \<Rightarrow> Some (Served, tc_in_w t, tc_out_w t, h))))))"

definition ws_Parse :: "('r, 'w, 'h, 'c) parser" where
  "ws_Parse dir H r w s = (Some (Sentinel ''websocket.Parse'' ''Parse not supported for WebSocket parser, use ServeHTTP''), r, w, s)"

subsection \<open>The adapter\<close>

text \<open>A new adapter has no reader yet; the state is the reader and the connection.\<close>

definition ws_NewConn :: "'ws \<Rightarrow> 'm option \<times> 'ws" where
  "ws_NewConn ws = (None, ws)"

definition ws_Close :: "('ws \<Rightarrow> err option \<times> 'ws) \<Rightarrow> 'm option \<times> 'ws \<Rightarrow> err option \<times> 'm option \<times> 'ws" where
  "ws_Close Close c = (case c of (r, ws) \<Rightarrow> (case Close ws of (e, ws) \<Rightarrow> (e, r, ws)))"

definition ws_SetDeadline :: "err option \<Rightarrow> err option \<Rightarrow> err option" where
  "ws_SetDeadline readDeadline writeDeadline = (case readDeadline of Some e \<Rightarrow> Some e | None \<Rightarrow> writeDeadline)"

definition ws_Write :: "(bytes \<Rightarrow> 'ws \<Rightarrow> err option \<times> 'ws) \<Rightarrow> bytes \<Rightarrow> 'ws \<Rightarrow> (nat \<times> err option) \<times> 'ws" where
  "ws_Write WriteMessage p ws = (case WriteMessage p ws of
     (Some e, ws) \<Rightarrow> ((0, Some e), ws)
   | (None, ws) \<Rightarrow> ((length p, None), ws))"

text \<open>
  \<^verbatim>\<open>Read\<close> into a buffer of \<open>n\<close> bytes; the state is the reader of the current message, if
  any, and the connection. \<open>None\<close>: still looping over empty messages.
\<close>

fun ws_Read :: "nat \<Rightarrow> ('ws \<Rightarrow> (err + 'm) \<times> 'ws) \<Rightarrow> (nat \<Rightarrow> 'm \<Rightarrow> bytes \<times> err option \<times> 'm) \<Rightarrow> nat
    \<Rightarrow> 'm option \<times> 'ws \<Rightarrow> ((bytes \<times> err option) \<times> 'm option \<times> 'ws) option" where
  "ws_Read 0 NextReader MRead n s = None"
| "ws_Read (Suc k) NextReader MRead n (cr, ws) =
     (case (case cr of
              Some m \<Rightarrow> (Inr m, ws)
            | None \<Rightarrow> NextReader ws) of
        (Inl e, ws) \<Rightarrow> Some (([], Some e), None, ws)
      | (Inr m, ws) \<Rightarrow> (case MRead n m of (d, e, m) \<Rightarrow>
          (if e = Some EOF then
             (if d \<noteq> [] then Some ((d, None), None, ws) else ws_Read k NextReader MRead n (None, ws))
           else Some ((d, e), Some m, ws))))"

text \<open>A reader that takes everything, as the packet library does: buffers of \<open>n\<close> bytes until an error.\<close>

fun ws_read_all :: "nat \<Rightarrow> nat \<Rightarrow> ('ws \<Rightarrow> (err + 'm) \<times> 'ws) \<Rightarrow> (nat \<Rightarrow> 'm \<Rightarrow> bytes \<times> err option \<times> 'm) \<Rightarrow> nat
    \<Rightarrow> 'm option \<times> 'ws \<Rightarrow> (bytes \<times> err) option" where
  "ws_read_all 0 k NextReader MRead n s = None"
| "ws_read_all (Suc j) k NextReader MRead n s = (case ws_Read k NextReader MRead n s of
     None \<Rightarrow> None
   | Some ((d, Some e), s) \<Rightarrow> Some (d, e)
   | Some ((d, None), s) \<Rightarrow> map_option (\<lambda>(b, e). (d @ b, e)) (ws_read_all j k NextReader MRead n s))"

text \<open>A sequence of writes, stopped by the first that fails.\<close>

fun ws_write_all :: "(bytes \<Rightarrow> 'ws \<Rightarrow> err option \<times> 'ws) \<Rightarrow> bytes list \<Rightarrow> 'ws \<Rightarrow> err option \<times> 'ws" where
  "ws_write_all WriteMessage [] ws = (None, ws)"
| "ws_write_all WriteMessage (p # ps) ws = (case ws_Write WriteMessage p ws of
     ((n, Some e), ws) \<Rightarrow> (Some e, ws)
   | ((n, None), ws) \<Rightarrow> ws_write_all WriteMessage ps ws)"

section \<open>The library's readers\<close>

text \<open>
  What the adapter relies on: \<open>NextReader\<close> yields readers of the messages still to come, in
  order, and an error when there is none; a reader yields its message in non-empty pieces
  that fit the buffer, with the end of input on or after the last piece.
\<close>

definition message_source :: "('ws \<Rightarrow> (err + 'm) \<times> 'ws) \<Rightarrow> (nat \<Rightarrow> 'm \<Rightarrow> bytes \<times> err option \<times> 'm) \<Rightarrow> ('ws \<Rightarrow> bytes list) \<Rightarrow> ('m \<Rightarrow> bytes) \<Rightarrow> bool" where
  "message_source NextReader MRead pending content \<longleftrightarrow>
     (\<forall>ws. pending ws = [] \<longrightarrow> (\<exists>e ws'. NextReader ws = (Inl e, ws') \<and> pending ws' = []))
     \<and> (\<forall>ws x xs. pending ws = x # xs \<longrightarrow> (\<exists>m ws'. NextReader ws = (Inr m, ws') \<and> content m = x \<and> pending ws' = xs))
     \<and> (\<forall>n m. content m = [] \<longrightarrow> (\<exists>m'. MRead n m = ([], Some EOF, m')))
     \<and> (\<forall>n m. 0 < n \<longrightarrow> content m \<noteq> [] \<longrightarrow> (\<exists>d e m'. MRead n m = (d, e, m') \<and> d \<noteq> [] \<and> length d \<le> n
          \<and> content m = d @ content m' \<and> (e = None \<or> e = Some EOF \<and> content m' = [])))"

text \<open>A write that succeeds adds one message to those the other side will read.\<close>

definition message_sink :: "(bytes \<Rightarrow> 'ws \<Rightarrow> err option \<times> 'ws) \<Rightarrow> ('ws \<Rightarrow> bytes list) \<Rightarrow> bool" where
  "message_sink WriteMessage pending \<longleftrightarrow> (\<forall>p ws ws'. WriteMessage p ws = (None, ws') \<longrightarrow> pending ws' = pending ws @ [p])"

definition unread :: "('ws \<Rightarrow> bytes list) \<Rightarrow> ('m \<Rightarrow> bytes) \<Rightarrow> 'm option \<times> 'ws \<Rightarrow> bytes" where
  "unread pending content s = (case fst s of Some m \<Rightarrow> content m | None \<Rightarrow> []) @ concat (pending (snd s))"

text \<open>What one read has to do.\<close>

definition read_ok :: "('ws \<Rightarrow> bytes list) \<Rightarrow> ('m \<Rightarrow> bytes) \<Rightarrow> nat \<Rightarrow> 'm option \<times> 'ws \<Rightarrow> (bytes \<times> err option) \<times> 'm option \<times> 'ws \<Rightarrow> bool" where
  "read_ok pending content n s res \<longleftrightarrow> (case res of ((d, e), s') \<Rightarrow>
     unread pending content s = d @ unread pending content s' \<and> length d \<le> n
     \<and> (if unread pending content s = [] then e \<noteq> None else d \<noteq> [] \<and> e = None))"

section \<open>Lemmas\<close>

lemma unread_NewConn: "unread pending content (ws_NewConn ws) = concat (pending ws)"
  by (simp add: unread_def ws_NewConn_def)

lemma ws_stream_tcp:
  "ws_stream n cancelled parse r w s = stream n (\<lambda>i. quiet\<lparr>rd_done := cancelled i\<rparr>) c parse r w s"
  by (induction n arbitrary: cancelled r w s)
    (simp_all add: round_guard_def quiet_def split: option.splits prod.splits)

lemma ws_round_tcp: "ws_round parse dir t = conn_round parse c (dir, quiet) t"
  by (simp add: ws_round_def conn_round_def round_guard_def quiet_def)

text \<open>A read from a reader at hand.\<close>

lemma ws_Read_current:
  assumes "message_source NextReader MRead pending content" "0 < n" "content m \<noteq> []"
  shows "\<exists>res. ws_Read (Suc k) NextReader MRead n (Some m, ws) = Some res \<and> read_ok pending content n (Some m, ws) res"
proof -
  from assms obtain d e m' where "MRead n m = (d, e, m')" "d \<noteq> []" "length d \<le> n" "content m = d @ content m'"
    "e = None \<or> e = Some EOF \<and> content m' = []"
    unfolding message_source_def by blast
  then show ?thesis by (auto simp: read_ok_def unread_def)
qed

lemma ws_Read_empty:
  assumes "message_source NextReader MRead pending content" "content m = []"
  shows "ws_Read (Suc k) NextReader MRead n (Some m, ws) = ws_Read k NextReader MRead n (None, ws)"
proof -
  from assms obtain m' where "MRead n m = ([], Some EOF, m')" unfolding message_source_def by blast
  then show ?thesis by simp
qed

lemma ws_Read_next:
  assumes "message_source NextReader MRead pending content" "0 < n"
  shows "length (pending ws) < k \<Longrightarrow>
    \<exists>res. ws_Read k NextReader MRead n (None, ws) = Some res \<and> read_ok pending content n (None, ws) res"
proof (induction "pending ws" arbitrary: ws k)
  case Nil
  with assms(1) obtain e ws' where "NextReader ws = (Inl e, ws')" "pending ws' = []"
    unfolding message_source_def by metis
  with Nil show ?case by (cases k) (auto simp: read_ok_def unread_def)
next
  case (Cons x xs)
  with assms(1) obtain m ws' where m: "NextReader ws = (Inr m, ws')" "content m = x" "pending ws' = xs"
    unfolding message_source_def by metis
  from Cons.prems obtain j where j: "k = Suc j" by (cases k) auto
  have step: "ws_Read k NextReader MRead n (None, ws) = ws_Read k NextReader MRead n (Some m, ws')"
    by (simp add: j m)
  have same: "unread pending content (None, ws) = unread pending content (Some m, ws')"
    using m Cons.hyps(2) [symmetric] by (simp add: unread_def)
  show ?case
  proof (cases "x = []")
    case True
    have "length (pending ws') < j" using Cons.prems m(3) Cons.hyps(2) [symmetric] j by simp
    from Cons.hyps(1) [OF m(3) [symmetric] this] obtain res where
      "ws_Read j NextReader MRead n (None, ws') = Some res" "read_ok pending content n (None, ws') res" by blast
    moreover have "ws_Read k NextReader MRead n (Some m, ws') = ws_Read j NextReader MRead n (None, ws')"
      using ws_Read_empty [OF assms(1), of m j n ws'] m(2) True j by simp
    moreover have "unread pending content (Some m, ws') = unread pending content (None, ws')"
      using m(2) True by (simp add: unread_def)
    ultimately show ?thesis using step same by (simp add: read_ok_def)
  next
    case False
    with ws_Read_current [OF assms, of m j ws'] m(2) step same j show ?thesis by (auto simp: read_ok_def)
  qed
qed

lemma ws_Read_ok:
  assumes "message_source NextReader MRead pending content" "0 < n" "length (pending (snd s)) + 1 < k"
  shows "\<exists>res. ws_Read k NextReader MRead n s = Some res \<and> read_ok pending content n s res"
proof -
  obtain cr ws where s: "s = (cr, ws)" by (cases s)
  show ?thesis
  proof (cases cr)
    case None
    then show ?thesis using ws_Read_next [OF assms(1,2), of ws k] assms(3) s by simp
  next
    case (Some m)
    obtain j where j: "k = Suc j" "length (pending ws) < j" using assms(3) s by (cases k) auto
    show ?thesis
    proof (cases "content m = []")
      case True
      then have "unread pending content s = unread pending content (None, ws)" using s Some by (simp add: unread_def)
      then show ?thesis
        using ws_Read_next [OF assms(1,2) j(2)] ws_Read_empty [OF assms(1) True, of j n ws] s Some j(1) by (simp add: read_ok_def)
    next
      case False
      then show ?thesis using ws_Read_current [OF assms(1,2), of m j ws] s Some j(1) by simp
    qed
  qed
qed

lemma ws_Read_pending:
  "message_source NextReader MRead pending content \<Longrightarrow> ws_Read k NextReader MRead n s = Some (de, s') \<Longrightarrow>
   length (pending (snd s')) \<le> length (pending (snd s))"
proof (induction k arbitrary: s)
  case (Suc k)
  obtain cr ws where s: "s = (cr, ws)" by (cases s)
  have next_le: "length (pending ws') \<le> length (pending ws)" if "NextReader ws = (x, ws')" for x ws'
    using Suc.prems(1) that unfolding message_source_def by (cases "pending ws") fastforce+
  define x ws1 where "x = fst (case cr of Some m \<Rightarrow> (Inr m, ws) | None \<Rightarrow> NextReader ws)"
    and "ws1 = snd (case cr of Some m \<Rightarrow> (Inr m, ws) | None \<Rightarrow> NextReader ws)"
  then have x: "(case cr of Some m \<Rightarrow> (Inr m, ws) | None \<Rightarrow> NextReader ws) = (x, ws1)" by simp
  then have le: "length (pending ws1) \<le> length (pending ws)" using next_le by (auto split: option.splits)
  show ?case
  proof (cases x)
    case (Inl e)
    then show ?thesis using Suc.prems(2) le by (auto simp: s x)
  next
    case (Inr m)
    obtain d e m' where "MRead n m = (d, e, m')" by (cases "MRead n m")
    then have "ws_Read (Suc k) NextReader MRead n s = (if e = Some EOF
        then (if d \<noteq> [] then Some ((d, None), None, ws1) else ws_Read k NextReader MRead n (None, ws1))
        else Some ((d, e), Some m', ws1))" unfolding s ws_Read.simps x Inr by simp
    then consider "ws_Read k NextReader MRead n (None, ws1) = Some (de, s')" | "snd s' = ws1"
      using Suc.prems(2) by (auto split: if_splits)
    then show ?thesis
    proof cases
      case 1
      from Suc.IH [OF Suc.prems(1) this] le show ?thesis by (simp add: s)
    qed (use le s in simp)
  qed
qed simp

lemma ws_read_all_unread:
  assumes "message_source NextReader MRead pending content" "0 < n"
  shows "length (pending (snd s)) + 1 < k \<Longrightarrow> length (unread pending content s) < j \<Longrightarrow>
    \<exists>e. ws_read_all j k NextReader MRead n s = Some (unread pending content s, e)"
proof (induction j arbitrary: s)
  case (Suc j)
  obtain d e s' where r: "ws_Read k NextReader MRead n s = Some ((d, e), s')" "read_ok pending content n s ((d, e), s')"
    using ws_Read_ok [OF assms Suc.prems(1)] by auto
  show ?case
  proof (cases e)
    case None
    have d: "unread pending content s = d @ unread pending content s'" and d0: "d \<noteq> []"
      using r(2) None unfolding read_ok_def by (metis (mono_tags, lifting) case_prod_conv)+
    have "length (pending (snd s')) + 1 < k" using Suc.prems(1) ws_Read_pending [OF assms(1) r(1)] by linarith
    moreover have "length (unread pending content s') < j"
      using Suc.prems(2) arg_cong [OF d, of length] d0 by (cases d) simp_all
    ultimately obtain x where "ws_read_all j k NextReader MRead n s' = Some (unread pending content s', x)"
      using Suc.IH by blast
    then show ?thesis using r(1) None by (simp add: d)
  next
    case (Some x)
    have u: "unread pending content s = []" and d: "unread pending content s = d @ unread pending content s'"
      using r(2) Some unfolding read_ok_def by (metis (mono_tags, lifting) case_prod_conv option.distinct(1))+
    then have "d = []" by simp
    then show ?thesis using r(1) Some u by simp
  qed
qed simp

lemma ws_write_all_pending:
  "message_sink WriteMessage pending \<Longrightarrow> ws_write_all WriteMessage ps ws = (None, ws') \<Longrightarrow> pending ws' = pending ws @ ps"
  by (induction ps arbitrary: ws) (auto simp: ws_Write_def message_sink_def split: prod.splits option.splits)

section \<open>Properties\<close>

text \<open>MQTT over WebSocket is guarded like MQTT over TCP: however the reads and
  writes behave and whenever the loop ends, what a direction has written is a run of
  packets that were read, approved and completely written, in order, followed at most by
  one partial write of an approved packet.\<close>

lemma ws_stream_authorised:
  assumes "ws_stream n cancelled (mqtt_Parse ReadPacket Write dir H) r w s = Some (e, r', w', s')"
  shows "\<exists>ms r1 w1 s1.
      relayed ReadPacket Write (mqtt_verdict dir H) (mqtt_forwarded dir H) (mqtt_after dir H) r w s ms r1 w1 s1
    \<and> (w' = w1 \<or> (\<exists>m e1. fst (ReadPacket r1) = Inr m \<and> mqtt_verdict dir H m s1 = None
          \<and> Write (mqtt_forwarded dir H m s1) w1 = (Some e1, w')))"
proof -
  have "stream n (\<lambda>i. quiet\<lparr>rd_done := cancelled i\<rparr>) sample_tcp (mqtt_Parse ReadPacket Write dir H) r w s = Some (e, r', w', s')"
    using assms by (simp add: ws_stream_tcp [where c = sample_tcp])
  from mqtt_gate.stream_relays [OF this] show ?thesis by (blast dest: stream_end_write)
qed

lemma ws_stream_authorised_witness:
  "\<exists>ms r1 w1 s1. relayed list_recv log_send (mqtt_verdict Upstream (forbids ''x''))
      (mqtt_forwarded Upstream (forbids ''x'')) (mqtt_after Upstream (forbids ''x''))
      [pub ''a'', pub ''x''] [] (zero_Context, ()) ms r1 w1 s1"
proof -
  have "\<exists>e r' w' s'. ws_stream 3 (\<lambda>i. None) (mqtt_Parse list_recv log_send Upstream (forbids ''x''))
      [pub ''a'', pub ''x''] [] (zero_Context, ()) = Some (e, r', w', s')"
    by (simp add: numeral_3_eq_3 pub_def forbids_def NoopHandler_def log_send_def mqtt_Parse_def mqtt_handle_def mqtt_handlers)
  then show ?thesis by (elim exE) (drule ws_stream_authorised, blast)
qed

text \<open>C33 (termination). The adapter is a byte stream: over a library that behaves as documented a
  read into a non-empty buffer returns, with the next bytes of the messages to come, in
  order and across message boundaries, at most as many as fit; it returns at least one byte
  as long as any is left, whatever empty messages come in between, and an error afterwards.
  The bound \<open>k\<close> on its loop is one turn for each message still to come, one for a finished
  message and one for the read.\<close>

theorem ws_read_in_order:
  assumes "message_source NextReader MRead pending content" "0 < n" "length (pending (snd s)) + 1 < k"
  shows "\<exists>d e s'. ws_Read k NextReader MRead n s = Some ((d, e), s')
    \<and> unread pending content s = d @ unread pending content s' \<and> length d \<le> n
    \<and> (if unread pending content s = [] then e \<noteq> None else d \<noteq> [] \<and> e = None)"
  using ws_Read_ok [OF assms] by (auto simp: read_ok_def)

text \<open>A library whose connection is the list of messages to come.\<close>

definition list_NextReader :: "bytes list \<Rightarrow> (err + bytes) \<times> bytes list" where
  "list_NextReader ws = (case ws of [] \<Rightarrow> (Inl ErrConnectionClosed, []) | x # xs \<Rightarrow> (Inr x, xs))"

definition list_MRead :: "nat \<Rightarrow> bytes \<Rightarrow> bytes \<times> err option \<times> bytes" where
  "list_MRead n m = (if m = [] then ([], Some EOF, []) else (take n m, None, drop n m))"

lemma list_message_source: "message_source list_NextReader list_MRead (\<lambda>ws. ws) (\<lambda>m. m)"
  by (auto simp: message_source_def list_NextReader_def list_MRead_def split: list.splits)

lemma ws_read_in_order_witness:
  "\<exists>d e s'. ws_Read 5 list_NextReader list_MRead 4 (Some [], [[], ''hello'', ''world'']) = Some ((d, e), s')
     \<and> ''helloworld'' = d @ unread (\<lambda>ws. ws) (\<lambda>m. m) s' \<and> d \<noteq> []"
  using ws_read_in_order [OF list_message_source, of 4 "(Some [], [[], ''hello'', ''world''])" 5]
  by (simp add: unread_def) blast

text \<open>C27 (roundtrip). The adapter carries a byte stream over messages: whatever pieces one side writes,
  empty ones included, a reader on the other side that takes buffers of any size gets back
  exactly their concatenation, and then an error, not a block; \<open>k\<close> bounds the loop of one
  read and \<open>j\<close> the number of reads.\<close>

theorem ws_adapter_round_trip:
  assumes "message_source NextReader MRead pending content" "message_sink WriteMessage pending" "0 < n"
    and "pending ws = []" "ws_write_all WriteMessage ps ws = (None, ws')"
    and "length ps + 1 < k" "length (concat ps) < j"
  shows "\<exists>e. ws_read_all j k NextReader MRead n (ws_NewConn ws') = Some (concat ps, e)"
proof -
  have p: "pending ws' = ps" using ws_write_all_pending [OF assms(2,5)] assms(4) by simp
  then have u: "unread pending content (ws_NewConn ws') = concat ps" by (simp add: unread_NewConn)
  show ?thesis using ws_read_all_unread [OF assms(1,3), of "ws_NewConn ws'" k j] assms(6,7) p
    unfolding u by (simp add: ws_NewConn_def)
qed

lemma ws_adapter_round_trip_witness:
  "\<exists>e. ws_read_all 11 5 list_NextReader list_MRead 4 (ws_NewConn [''hello'', [], ''world'']) = Some (''helloworld'', e)"
proof -
  have s: "message_sink (\<lambda>p ws. (None, ws @ [p])) (\<lambda>ws. ws)" by (simp add: message_sink_def)
  have w: "ws_write_all (\<lambda>p ws. (None, ws @ [p])) [''hello'', [], ''world''] [] = (None, [''hello'', [], ''world''])"
    by (simp add: ws_Write_def)
  from ws_adapter_round_trip [OF list_message_source s _ refl w, of 4 5 11] show ?thesis by simp
qed

text \<open>A browser on another site reaches nothing: when the library refuses an upgrade whose
  origin check fails, as it documents, a request with a foreign origin is not upgraded, no
  backend is dialed, nothing is written and the handler is not called.\<close>

lemma ws_foreign_origin_refused:
  assumes "Upgrade False = Some e" "header_Get (hr_Header r) ''Origin'' \<notin> {[], ''http://'' @ hr_Host r, ''https://'' @ hr_Host r}"
  shows "ws_ServeHTTP parse url_Parse url_String targetURL H Upgrade Dial sessionID r sched in_r in_w out_r out_w h
    = Some (NotUpgraded e, in_w, out_w, h)"
proof -
  have "\<not> CheckOrigin r" using assms(2) by (auto simp: CheckOrigin_def Let_def)
  with assms(1) show ?thesis by (simp add: ws_ServeHTTP_def)
qed

end
