(* ===== verification/Proxy.thy ===== *)
theory Proxy
  imports UdpServer TlsConfig WebsocketParser
begin

text \<open>
  The proxy coordinators (\<^verbatim>\<open>src/pkg/proxy\<close>: \<^verbatim>\<open>mqtt.go\<close>, \<^verbatim>\<open>coap.go\<close>, \<^verbatim>\<open>http.go\<close>,
  \<^verbatim>\<open>websocket.go\<close>) and the configuration of one server (\<^verbatim>\<open>src/config.go\<close>). A coordinator
  turns its configuration into that of the TCP, UDP or HTTP server it owns. Go's HTTP
  server and the environment library are parameters: \<open>http_env\<close> says how the server ends,
  \<open>proc_env\<close> what the environment library yields for the variables of one prefix. Loggers
  are left out. Shown: a server speaks TLS exactly when both of its key files are named.
\<close>

section \<open>Definitions\<close>

subsection \<open>Configuration\<close>

record mproxy_Config =
  mp_Host :: string
  mp_Port :: string
  mp_PathPrefix :: string
  mp_TargetHost :: string
  mp_TargetPort :: string
  mp_TargetProtocol :: string
  mp_TargetPath :: string
  mp_TLSConfig :: "TLSConfig option"
  mp_DTLSConfig :: "TLSConfig option"

text \<open>What the environment library yields for one prefix: the fields of the server, the paths
  of the TLS files, the verifiers; and what lies behind the paths.\<close>

record proc_env =
  pe_server :: "err + mproxy_Config"
  pe_paths :: "err + tls_Config"
  pe_verifiers :: "err + validator list"
  pe_tls :: tls_env
  pe_keys :: key_env

definition mproxy_NewConfig :: "proc_env \<Rightarrow> err + mproxy_Config" where
  "mproxy_NewConfig v = (case pe_server v of
     Inl e \<Rightarrow> Inl e
   | Inr c \<Rightarrow> (case tls_NewConfig (pe_paths v) (pe_verifiers v) of
       Inl e \<Rightarrow> Inl e
     | Inr cfg \<Rightarrow> (case snd (LoadTLSConfig (pe_tls v) (pe_keys v) cfg (TLS new_config)) of
         Inl e \<Rightarrow> Inl e
       | Inr t \<Rightarrow> (case snd (LoadTLSConfig (pe_tls v) (pe_keys v) cfg (DTLS new_config)) of
           Inl e \<Rightarrow> Inl e
         | Inr d \<Rightarrow> Inr (c\<lparr>mp_TLSConfig := t, mp_DTLSConfig := d\<rparr>)))))"

subsection \<open>MQTT\<close>

record MQTTConfig =
  mq_Host :: string
  mq_Port :: string
  mq_TargetHost :: string
  mq_TargetPort :: string
  mq_TLSConfig :: "TLSConfig option"
  mq_ShutdownTimeout :: duration

text \<open>\<^verbatim>\<open>fmt.Sprintf("%s:%s", host, port)\<close>.\<close>

definition host_port :: "string \<Rightarrow> string \<Rightarrow> string" where
  "host_port host port = host @ '':'' @ port"

text \<open>The fields of \<^verbatim>\<open>tcp.Config\<close> that are not set are zero; the parser is the MQTT one.\<close>

definition NewMQTT :: "MQTTConfig \<Rightarrow> tcp_Config \<times> nat option" where
  "NewMQTT cfg = tcp_New
     \<lparr>tcp_Address = host_port (mq_Host cfg) (mq_Port cfg),
      tcp_TargetAddress = host_port (mq_TargetHost cfg) (mq_TargetPort cfg),
      tcp_TLSConfig = (mq_TLSConfig cfg \<noteq> None), tcp_ShutdownTimeout = mq_ShutdownTimeout cfg,
      tcp_MaxConnections = 0, tcp_ReadTimeout = 0, tcp_WriteTimeout = 0, tcp_IdleTimeout = 0, tcp_BufferSize = 0,
      tcp_TCPKeepAlive = 0, tcp_DisableNoDelay = False\<rparr>"

subsection \<open>CoAP\<close>

record CoAPConfig =
  co_Host :: string
  co_Port :: string
  co_TargetHost :: string
  co_TargetPort :: string
  co_SessionTimeout :: duration
  co_ShutdownTimeout :: duration

definition NewCoAP :: "CoAPConfig \<Rightarrow> 'h \<Rightarrow> ('h, 'c) udp_sys option" where
  "NewCoAP cfg h = udp_New
     \<lparr>udp_Address = host_port (co_Host cfg) (co_Port cfg),
      udp_TargetAddress = host_port (co_TargetHost cfg) (co_TargetPort cfg),
      udp_SessionTimeout = co_SessionTimeout cfg, udp_ShutdownTimeout = co_ShutdownTimeout cfg,
      udp_MaxSessions = 0, udp_BufferSize = 0, udp_WorkerPoolSize = 0, udp_ReadBufferSize = 0, udp_WriteBufferSize = 0\<rparr> h"

subsection \<open>HTTP and WebSocket\<close>

record HTTPConfig =
  ht_Host :: string
  ht_Port :: string
  ht_TargetURL :: string
  ht_TLSConfig :: "TLSConfig option"
  ht_ShutdownTimeout :: duration

text \<open>\<^verbatim>\<open>http.Server\<close> with the target of its handler: a parsed URL for the HTTP parser, the
  WebSocket parser itself for the other.\<close>

record 't http_Server =
  hs_Addr :: string
  hs_Handler :: 't
  hs_TLSConfig :: "TLSConfig option"

definition NewHTTP :: "(string \<Rightarrow> err + url) \<Rightarrow> HTTPConfig \<Rightarrow> err + url http_Server" where
  "NewHTTP url_Parse cfg = (case http_NewParser url_Parse (ht_TargetURL cfg) of
     Inl e \<Rightarrow> Inl (Wrapf ''failed to create HTTP parser: '' e [])
   | Inr parser \<Rightarrow> Inr \<lparr>hs_Addr = host_port (ht_Host cfg) (ht_Port cfg), hs_Handler = parser, hs_TLSConfig = ht_TLSConfig cfg\<rparr>)"

record WebSocketConfig =
  wc_Host :: string
  wc_Port :: string
  wc_TargetURL :: string
  wc_UnderlyingParser :: stream_parser
  wc_TLSConfig :: "TLSConfig option"
  wc_ShutdownTimeout :: duration

definition NewWebSocket :: "WebSocketConfig \<Rightarrow> ws_Parser http_Server" where
  "NewWebSocket cfg = \<lparr>hs_Addr = host_port (wc_Host cfg) (wc_Port cfg),
     hs_Handler = ws_NewParser (wc_TargetURL cfg) (wc_UnderlyingParser cfg), hs_TLSConfig = wc_TLSConfig cfg\<rparr>"

definition ErrServerClosed :: err where
  "ErrServerClosed = Sentinel ''http.ErrServerClosed'' ''http: Server closed''"

text \<open>
  How the goroutine of the server and the context end: which of the two the \<^verbatim>\<open>select\<close> sees
  first, what the serving function returns, and what \<^verbatim>\<open>Shutdown\<close> returns given its timeout.
\<close>

datatype serve = ListenAndServe | ListenAndServeTLS

record http_env =
  he_cancelled :: bool
  he_serve :: "serve \<Rightarrow> string \<Rightarrow> err"
  he_Shutdown :: "duration \<Rightarrow> err option"

definition http_Listen :: "http_env \<Rightarrow> 't http_Server \<Rightarrow> err option" where
  "http_Listen v p = (
     let errCh = he_serve v (if hs_TLSConfig p \<noteq> None then ListenAndServeTLS else ListenAndServe) (hs_Addr p)
     in if he_cancelled v then
          (case he_Shutdown v (30 * second) of Some e \<Rightarrow> Some e | None \<Rightarrow> None)
        else if errCh = ErrServerClosed then None else Some errCh)"

text \<open>The body of \<^verbatim>\<open>WebSocketProxy.Listen\<close> is that of \<^verbatim>\<open>HTTPProxy.Listen\<close> but for its log messages.\<close>

definition ws_Listen :: "http_env \<Rightarrow> 't http_Server \<Rightarrow> err option" where
  "ws_Listen v p = (
     let errCh = he_serve v (if hs_TLSConfig p \<noteq> None then ListenAndServeTLS else ListenAndServe) (hs_Addr p)
     in if he_cancelled v then
          (case he_Shutdown v (30 * second) of Some e \<Rightarrow> Some e | None \<Rightarrow> None)
        else if errCh = ErrServerClosed then None else Some errCh)"

section \<open>Lemmas\<close>

lemma LoadTLSConfig_None:
  "snd (LoadTLSConfig v k c s) = Inr None \<longleftrightarrow> CertFile c = [] \<or> KeyFile c = []"
  by (auto simp: LoadTLSConfig_def Let_def split: sum.splits prod.splits option.splits TLSConfig.splits)

lemma tls_NewConfig_paths:
  "tls_NewConfig (Inr c) vs = Inr cfg \<Longrightarrow> CertFile cfg = CertFile c \<and> KeyFile cfg = KeyFile c \<and> ClientCAFile cfg = ClientCAFile c"
  by (auto simp: tls_NewConfig_def split: sum.splits)

text \<open>A configuration is plain exactly when a key file is missing.\<close>

lemma NewConfig_plain:
  assumes "mproxy_NewConfig v = Inr c" "pe_paths v = Inr ps"
  shows "mp_TLSConfig c = None \<longleftrightarrow> CertFile ps = [] \<or> KeyFile ps = []"
    and "mp_DTLSConfig c = None \<longleftrightarrow> CertFile ps = [] \<or> KeyFile ps = []"
proof -
  from assms obtain c0 cfg t d where c: "tls_NewConfig (Inr ps) (pe_verifiers v) = Inr cfg"
    "snd (LoadTLSConfig (pe_tls v) (pe_keys v) cfg (TLS new_config)) = Inr t"
    "snd (LoadTLSConfig (pe_tls v) (pe_keys v) cfg (DTLS new_config)) = Inr d"
    "c = c0\<lparr>mp_TLSConfig := t, mp_DTLSConfig := d\<rparr>"
    by (auto simp: mproxy_NewConfig_def split: sum.splits)
  have "t = None \<longleftrightarrow> CertFile ps = [] \<or> KeyFile ps = []" "d = None \<longleftrightarrow> CertFile ps = [] \<or> KeyFile ps = []"
    using tls_NewConfig_paths [OF c(1)] LoadTLSConfig_None [of "pe_tls v" "pe_keys v" cfg "TLS new_config"]
      LoadTLSConfig_None [of "pe_tls v" "pe_keys v" cfg "DTLS new_config"] unfolding c(2,3) by simp_all
  with c(4) show "mp_TLSConfig c = None \<longleftrightarrow> CertFile ps = [] \<or> KeyFile ps = []"
    and "mp_DTLSConfig c = None \<longleftrightarrow> CertFile ps = [] \<or> KeyFile ps = []" by simp_all
qed

text \<open>The other fields are those of the environment.\<close>

lemma NewConfig_fields:
  assumes "mproxy_NewConfig v = Inr c"
  obtains c0 where "pe_server v = Inr c0" "c = c0\<lparr>mp_TLSConfig := mp_TLSConfig c, mp_DTLSConfig := mp_DTLSConfig c\<rparr>"
  using assms by (auto simp: mproxy_NewConfig_def split: sum.splits)

lemma NewMQTT_simps [simp]:
  "tcp_Address (fst (NewMQTT cfg)) = host_port (mq_Host cfg) (mq_Port cfg)"
  "tcp_TargetAddress (fst (NewMQTT cfg)) = host_port (mq_TargetHost cfg) (mq_TargetPort cfg)"
  "tcp_TLSConfig (fst (NewMQTT cfg)) \<longleftrightarrow> mq_TLSConfig cfg \<noteq> None"
  "snd (NewMQTT cfg) = None"
  by (simp_all add: NewMQTT_def tcp_New_def Let_def)

text \<open>A CoAP coordinator never panics, and speaks plain UDP on its address.\<close>

lemma NewCoAP_not_None [simp]: "NewCoAP cfg h \<noteq> None"
  by (simp add: NewCoAP_def udp_New_def udp_defaults_def DefaultWorkerPoolSize_def wrap64_def Let_def)

lemma NewCoAP_Some:
  assumes "NewCoAP cfg h = Some s"
  shows "udp_Address (ud_config s) = host_port (co_Host cfg) (co_Port cfg)"
    and "udp_TargetAddress (ud_config s) = host_port (co_TargetHost cfg) (co_TargetPort cfg)"
  using assms by (auto simp: NewCoAP_def udp_New_def udp_defaults_def Let_def split: if_splits)

lemma ws_Listen_http: "ws_Listen v p = http_Listen v p"
  by (simp add: ws_Listen_def http_Listen_def)

text \<open>The shutdown of the HTTP server is given 30 seconds whatever was configured.\<close>

lemma shutdown_timeout_ignored:
  "he_cancelled v \<Longrightarrow> NewHTTP url_Parse (cfg\<lparr>ht_ShutdownTimeout := d\<rparr>) = Inr p \<Longrightarrow> http_Listen v p = he_Shutdown v (30 * second)"
  by (simp add: http_Listen_def split: option.split)

end
