(* ===== verification/Production.thy ===== *)
theory Production
  imports ProdHandlers Health Breaker Pool Cmd "HOL-Library.Multiset"
begin

text \<open>
  The production server (\<^verbatim>\<open>src/cmd/production/main.go\<close>): its configuration, the addresses it
  listens on and dials, the health checks it registers, what it reports of the circuit
  breaker, the routes of its health server, the logger and the exit status. \<^verbatim>\<open>SplitHostPort\<close>
  and \<^verbatim>\<open>JoinHostPort\<close> are those of Go's package \<^verbatim>\<open>net\<close>. Shown: which addresses are used
  for which configuration, what the probes answer, and what the metrics of the breaker say.
\<close>

section \<open>Definitions\<close>

record prod_Config =
  pc_MetricsPort :: int
  pc_HealthPort :: int
  pc_LogLevel :: string
  pc_LogFormat :: string
  pc_MaxConnections :: int
  pc_MaxGoroutines :: int
  pc_PoolMaxIdle :: int
  pc_PoolMaxActive :: int
  pc_PoolIdleTimeout :: duration
  pc_BreakerMaxFailures :: int
  pc_BreakerResetTimeout :: duration
  pc_BreakerTimeout :: duration
  pc_RateLimitCapacity :: int
  pc_RateLimitRefill :: int
  pc_GlobalRateCapacity :: int
  pc_GlobalRateRefill :: int
  pc_ReadTimeout :: duration
  pc_WriteTimeout :: duration
  pc_IdleTimeout :: duration
  pc_ShutdownTimeout :: duration
  pc_MQTTAddress :: string
  pc_MQTTTarget :: string

text \<open>The values of the \<^verbatim>\<open>envDefault\<close> tags.\<close>

definition prod_defaults :: prod_Config where
  "prod_defaults = \<lparr>pc_MetricsPort = 9090, pc_HealthPort = 8080, pc_LogLevel = ''info'', pc_LogFormat = ''json'',
     pc_MaxConnections = 10000, pc_MaxGoroutines = 50000,
     pc_PoolMaxIdle = 100, pc_PoolMaxActive = 1000, pc_PoolIdleTimeout = 5 * minute,
     pc_BreakerMaxFailures = 5, pc_BreakerResetTimeout = 60 * second, pc_BreakerTimeout = 30 * second,
     pc_RateLimitCapacity = 100, pc_RateLimitRefill = 10, pc_GlobalRateCapacity = 10000, pc_GlobalRateRefill = 1000,
     pc_ReadTimeout = 60 * second, pc_WriteTimeout = 60 * second, pc_IdleTimeout = 300 * second, pc_ShutdownTimeout = 30 * second,
     pc_MQTTAddress = '':1884'', pc_MQTTTarget = ''localhost:1883''\<rparr>"

subsection \<open>Addresses\<close>

definition first_index :: "char \<Rightarrow> string \<Rightarrow> nat option" where
  "first_index ch s = (if ch \<in> set s then Some (length (takeWhile (\<lambda>x. x \<noteq> ch) s)) else None)"

definition last_index :: "char \<Rightarrow> string \<Rightarrow> nat option" where
  "last_index ch s = (if ch \<in> set s then Some (length s - 1 - length (takeWhile (\<lambda>x. x \<noteq> ch) (rev s))) else None)"

text \<open>\<^verbatim>\<open>net.SplitHostPort\<close>; the error is not looked at, so it is \<open>None\<close>.\<close>

definition SplitHostPort :: "string \<Rightarrow> (string \<times> string) option" where
  "SplitHostPort hostport = (case last_index (CHR '':'') hostport of
     None \<Rightarrow> None
   | Some i \<Rightarrow>
       (if hostport ! 0 = CHR ''['' then
          (case first_index (CHR '']'') hostport of
             None \<Rightarrow> None
           | Some end \<Rightarrow>
               (if end + 1 = length hostport \<or> end + 1 \<noteq> i then None
                else if CHR ''['' \<in> set (drop 1 hostport) \<or> CHR '']'' \<in> set (drop (end + 1) hostport) then None
                else Some (take (end - 1) (drop 1 hostport), drop (i + 1) hostport)))
        else if CHR '':'' \<in> set (take i hostport) then None
        else if CHR ''['' \<in> set hostport \<or> CHR '']'' \<in> set hostport then None
        else Some (take i hostport, drop (i + 1) hostport)))"

definition JoinHostPort :: "string \<Rightarrow> string \<Rightarrow> string" where
  "JoinHostPort host port = (if CHR '':'' \<in> set host then ''['' @ host @ '']:'' @ port else host @ '':'' @ port)"

text \<open>
  The configuration of the MQTT proxy (lines 190-214). \<open>None\<close> is the panic of slicing the
  empty address from its second byte.
\<close>

definition mqttProxyConfig :: "prod_Config \<Rightarrow> MQTTConfig option" where
  "mqttProxyConfig cfg = (
     if pc_MQTTAddress cfg = [] then None
     else let c = \<lparr>mq_Host = [], mq_Port = drop 1 (pc_MQTTAddress cfg), mq_TargetHost = ''localhost'', mq_TargetPort = ''1883'',
                   mq_TLSConfig = None, mq_ShutdownTimeout = pc_ShutdownTimeout cfg\<rparr>;
              c = (if pc_MQTTAddress cfg \<noteq> [] then
                     (case SplitHostPort (pc_MQTTAddress cfg) of
                        Some (_, port) \<Rightarrow> c\<lparr>mq_Port := port\<rparr>
                      | None \<Rightarrow> if pc_MQTTAddress cfg ! 0 = CHR '':'' then c\<lparr>mq_Port := drop 1 (pc_MQTTAddress cfg)\<rparr> else c)
                   else c);
              c = (if pc_MQTTTarget cfg \<noteq> [] then
                     (case SplitHostPort (pc_MQTTTarget cfg) of
                        Some (host, port) \<Rightarrow> c\<lparr>mq_TargetHost := host, mq_TargetPort := port\<rparr>
                      | None \<Rightarrow> c)
                   else c)
          in Some c)"

text \<open>The server that is run.\<close>

definition production_server :: "prod_Config \<Rightarrow> (tcp_Config \<times> nat option) option" where
  "production_server cfg = map_option NewMQTT (mqttProxyConfig cfg)"

subsection \<open>The parts that are created\<close>

definition prod_perClientLimiter :: "prod_Config \<Rightarrow> Limiter" where
  "prod_perClientLimiter cfg = NewLimiter (pc_RateLimitCapacity cfg) (pc_RateLimitRefill cfg) 10000"

definition prod_globalLimiter :: "prod_Config \<Rightarrow> time \<Rightarrow> TokenBucket" where
  "prod_globalLimiter cfg now = NewTokenBucket (pc_GlobalRateCapacity cfg) (pc_GlobalRateRefill cfg) now"

definition prod_breaker :: "prod_Config \<Rightarrow> time \<Rightarrow> time \<Rightarrow> CircuitBreaker" where
  "prod_breaker cfg t0 now = OnStateChange (Some 0) (breaker_New t0 \<lparr>MaxFailures = pc_BreakerMaxFailures cfg,
     ResetTimeout = pc_BreakerResetTimeout cfg, SuccessThreshold = 2, Timeout = pc_BreakerTimeout cfg\<rparr> now)"

definition prod_pool :: "prod_Config \<Rightarrow> Pool" where
  "prod_pool cfg = pool_New \<lparr>MaxIdle = pc_PoolMaxIdle cfg, MaxActive = pc_PoolMaxActive cfg, IdleTimeout = pc_PoolIdleTimeout cfg,
     MaxConnLifetime = 30 * minute, DialTimeout = 10 * second, WaitTimeout = 5 * second\<rparr>"

text \<open>The callback of the breaker (lines 133-141), as the metric operations it performs.\<close>

definition on_state_change :: "prod_Config \<Rightarrow> State \<times> State \<Rightarrow> metrics" where
  "on_state_change cfg ft = (case ft of (from, to) \<Rightarrow>
     [SetTo ''CircuitBreakerState'' [pc_MQTTTarget cfg] (of_int (State_iota to))]
     @ (if to = StateOpen then [Inc ''CircuitBreakerTrips'' [pc_MQTTTarget cfg]] else []))"

subsection \<open>Health checks\<close>

datatype check_fn = Goroutines | Memory | ConnectionPool

text \<open>What the runtime and the pool say when a check runs.\<close>

record rt_env =
  rt_NumGoroutine :: int
  rt_HeapAlloc :: nat
  rt_Sys :: nat
  rt_pool :: Pool

definition pool_check :: "prod_Config \<Rightarrow> Pool \<Rightarrow> err option \<times> metrics" where
  "pool_check cfg p = (case pool_Stats p of (idle, active) \<Rightarrow>
     (None, [SetTo ''BackendActiveConnections'' [pc_MQTTTarget cfg] (fl64 (of_int active))]))"

definition run_check_fn :: "prod_Config \<Rightarrow> rt_env \<Rightarrow> check_fn \<Rightarrow> err option \<times> metrics" where
  "run_check_fn cfg v f = (case f of
     Goroutines \<Rightarrow>
       (let count = rt_NumGoroutine v in
        if count > pc_MaxGoroutines cfg
        then (Some (Sentinel ''main'' (''too many goroutines: '' @ itoa count @ '' > '' @ itoa (pc_MaxGoroutines cfg))), [])
        else (None, [SetTo ''GoroutinesActive'' [''all''] (fl64 (of_int count))]))
   | Memory \<Rightarrow> (None, [SetTo ''MemoryAllocated'' [''heap''] (fl64 (of_nat (rt_HeapAlloc v))),
                       SetTo ''MemoryAllocated'' [''sys''] (fl64 (of_nat (rt_Sys v)))])
   | ConnectionPool \<Rightarrow> pool_check cfg (rt_pool v))"

definition runtime_checks :: "check_fn Checker" where
  "runtime_checks = Register ''memory'' Memory (Register ''goroutines'' Goroutines (NewChecker (10 * second)))"

definition healthChecker :: "check_fn Checker" where
  "healthChecker = Register ''connection_pool'' ConnectionPool runtime_checks"

text \<open>A run of a check at the given clock readings.\<close>

definition check_probe :: "prod_Config \<Rightarrow> rt_env \<Rightarrow> time \<Rightarrow> time \<Rightarrow> time \<Rightarrow> time \<Rightarrow> check_fn \<Rightarrow> probe" where
  "check_probe cfg v since start endt checked f =
     \<lparr>pr_since = since, pr_start = start, pr_error = fst (run_check_fn cfg v f), pr_end = endt, pr_checked = checked\<rparr>"

subsection \<open>Logger, routes, exit\<close>

datatype log_level = LevelDebug | LevelInfo | LevelWarn | LevelError

datatype log_format = JSONHandler log_level | TextHandler log_level

definition setupLogger :: "string \<Rightarrow> string \<Rightarrow> log_format" where
  "setupLogger level format = (
     let logLevel = (if level = ''debug'' then LevelDebug else if level = ''info'' then LevelInfo
                     else if level = ''warn'' then LevelWarn else if level = ''error'' then LevelError else LevelInfo)
     in if format = ''json'' then JSONHandler logLevel else TextHandler logLevel)"

text \<open>The routes of the health server; any other path is 404.\<close>

definition not_found :: probe_response where
  "not_found = \<lparr>rs_StatusCode = 404, rs_ContentType = ''text/plain; charset=utf-8'', rs_Body = ''404 page not found'' @ [CHR 0x0A]\<rparr>"

definition health_route :: "(time \<Rightarrow> string) \<Rightarrow> (check_fn \<Rightarrow> probe) \<Rightarrow> (string \<times> check_fn) list \<Rightarrow> string \<Rightarrow> check_fn Checker
    \<Rightarrow> probe_response \<times> check_fn Checker" where
  "health_route tm pr order path c = (
     if path = ''/health'' then HTTPHandler tm pr order c
     else if path = ''/ready'' then ReadinessHandler tm pr order c
     else if path = ''/live'' then (LivenessHandler, c)
     else (not_found, c))"

text \<open>
  The two servers beside the proxy: their settings, and what they log when they end with \<open>serve\<close>
  as the result of \<^verbatim>\<open>ListenAndServe\<close>; the metrics server answers on one path.
\<close>

record aux_Server =
  sv_Addr :: string
  sv_ReadTimeout :: duration
  sv_WriteTimeout :: duration
  sv_IdleTimeout :: duration

definition aux_server :: "int \<Rightarrow> aux_Server" where
  "aux_server port = \<lparr>sv_Addr = '':'' @ itoa port, sv_ReadTimeout = 5 * second, sv_WriteTimeout = 10 * second, sv_IdleTimeout = 60 * second\<rparr>"

definition metrics_route :: "string \<Rightarrow> nat" where
  "metrics_route path = (if path = ''/metrics'' then 200 else 404)"

definition startMetricsServer :: "int \<Rightarrow> (aux_Server \<Rightarrow> err option) \<Rightarrow> string list" where
  "startMetricsServer port serve = (let srv = aux_server port in
     ''Starting metrics server'' # (case serve srv of
       Some e \<Rightarrow> if e \<noteq> ErrServerClosed then [''Metrics server error''] else []
     | None \<Rightarrow> []))"

definition startHealthServer :: "int \<Rightarrow> (aux_Server \<Rightarrow> err option) \<Rightarrow> string list" where
  "startHealthServer port serve = (let srv = aux_server port in
     ''Starting health server'' # (case serve srv of
       Some e \<Rightarrow> if e \<noteq> ErrServerClosed then [''Health server error''] else []
     | None \<Rightarrow> []))"

text \<open>The start of \<^verbatim>\<open>main\<close>: an environment that cannot be parsed ends the process with status 1.\<close>

definition load_config :: "err + prod_Config \<Rightarrow> nat + prod_Config" where
  "load_config parsed = (case parsed of Inl e \<Rightarrow> Inl 1 | Inr cfg \<Rightarrow> Inr cfg)"

text \<open>
  What \<^verbatim>\<open>main\<close> puts together before it starts the proxy: the logger, the registered metrics, the
  servers beside the proxy, the health checks, the breaker, the pool and the state of the
  handler stack around \<open>inner\<close>, that of the handler of \<^verbatim>\<open>examples/simple\<close>. \<open>clk\<close> gives the clock
  readings: 0 for the global bucket, 1 and 2 for the breaker, the rest for the handlers.
\<close>

record 'h prod_parts =
  pp_logger :: log_format
  pp_metrics :: "string list \<times> metric_desc list"
  pp_metricsServer :: aux_Server
  pp_healthServer :: aux_Server
  pp_checker :: "check_fn Checker"
  pp_breaker :: CircuitBreaker
  pp_pool :: Pool
  pp_handlers :: "'h pstate"

definition prod_build :: "prod_Config \<Rightarrow> (nat \<Rightarrow> time) \<Rightarrow> 'h \<Rightarrow> 'h prod_parts" where
  "prod_build cfg clk inner = (
     let logger = setupLogger (pc_LogLevel cfg) (pc_LogFormat cfg);
         m = metrics_New ''mproxy'';
         checker = runtime_checks;
         perClientLimiter = prod_perClientLimiter cfg;
         globalLimiter = prod_globalLimiter cfg (clk 0);
         cb = prod_breaker cfg (clk 1) (clk 2);
         connPool = prod_pool cfg;
         checker = Register ''connection_pool'' ConnectionPool checker
     in \<lparr>pp_logger = logger, pp_metrics = m, pp_metricsServer = aux_server (pc_MetricsPort cfg),
         pp_healthServer = aux_server (pc_HealthPort cfg), pp_checker = checker, pp_breaker = cb, pp_pool = connPool,
         pp_handlers = \<lparr>pd_inner = inner, pd_global = globalLimiter, pd_perClient = perClientLimiter, pd_metrics = [],
                       pd_clock = (\<lambda>i. clk (i + 3))\<rparr>\<rparr>)"

text \<open>The end of \<^verbatim>\<open>main\<close>: which case of the last \<^verbatim>\<open>select\<close> is taken gives the exit status.\<close>

datatype main_end = GroupDone "err option" | ShutdownTimedOut

fun exit_status :: "main_end \<Rightarrow> nat" where
  "exit_status (GroupDone (Some e)) = 1"
| "exit_status (GroupDone None) = 0"
| "exit_status ShutdownTimedOut = 1"

section \<open>Lemmas\<close>

text \<open>The failure of one of the two servers is only logged.\<close>

lemma aux_failure_logged:
  "e \<noteq> ErrServerClosed \<Longrightarrow> startMetricsServer port (\<lambda>srv. Some e) = [''Starting metrics server'', ''Metrics server error'']"
  "e \<noteq> ErrServerClosed \<Longrightarrow> startHealthServer port (\<lambda>srv. Some e) = [''Starting health server'', ''Health server error'']"
  by (simp_all add: startMetricsServer_def startHealthServer_def Let_def)

lemma last_index_append: "ch \<notin> set b \<Longrightarrow> last_index ch (a @ ch # b) = Some (length a)"
  by (simp add: last_index_def takeWhile_append)

lemma first_index_append: "ch \<notin> set a \<Longrightarrow> first_index ch (a @ ch # b) = Some (length a)"
  by (simp add: first_index_def takeWhile_append)

definition no_brackets :: "string \<Rightarrow> bool" where
  "no_brackets s \<longleftrightarrow> CHR ''['' \<notin> set s \<and> CHR '']'' \<notin> set s"

lemma no_brackets_nth: "no_brackets (a @ b) \<Longrightarrow> a @ b \<noteq> [] \<Longrightarrow> (a @ b) ! 0 \<noteq> CHR ''[''"
  unfolding no_brackets_def by (metis nth_mem length_greater_0_conv)

text \<open>Splitting a plain address: it fails exactly when the host has a colon of its own.\<close>

lemma Split_plain:
  assumes "no_brackets host" "no_brackets port" "CHR '':'' \<notin> set port"
  shows "SplitHostPort (host @ '':'' @ port) = (if CHR '':'' \<in> set host then None else Some (host, port))"
proof -
  have "no_brackets (host @ '':'' @ port)" using assms(1,2) by (simp add: no_brackets_def)
  then have "(host @ '':'' @ port) ! 0 \<noteq> CHR ''[''" by (rule no_brackets_nth) simp
  then show ?thesis
    using assms last_index_append [OF assms(3), of host] by (simp add: SplitHostPort_def no_brackets_def)
qed

lemma Split_Join:
  assumes "no_brackets host" "no_brackets port" "CHR '':'' \<notin> set port"
  shows "SplitHostPort (JoinHostPort host port) = Some (host, port)"
proof (cases "CHR '':'' \<in> set host")
  case False
  then show ?thesis using Split_plain [OF assms] by (simp add: JoinHostPort_def)
next
  case True
  have "last_index (CHR '':'') ((''['' @ host @ '']'') @ CHR '':'' # port) = Some (length host + 2)"
    using last_index_append [OF assms(3), of "''['' @ host @ '']''"] by simp
  moreover have "first_index (CHR '']'') ((''['' @ host) @ CHR '']'' # '':'' @ port) = Some (length host + 1)"
    using first_index_append [of "CHR '']''" "''['' @ host" "'':'' @ port"] assms(1) by (simp add: no_brackets_def)
  ultimately show ?thesis
    using True assms by (simp add: SplitHostPort_def JoinHostPort_def no_brackets_def)
qed

lemma Join_not_Nil [simp]: "JoinHostPort host port \<noteq> []"
  by (simp add: JoinHostPort_def)

lemma metric_value_other:
  "(\<forall>m \<in> set ms. op_target m \<noteq> (f, ls)) \<Longrightarrow> metric_value f ls v ms = v"
  by (induction f ls v ms rule: metric_value.induct) auto

text \<open>The counter of trips and the gauge after the callbacks have run in some order.\<close>

lemma trips_counted:
  "metric_value ''CircuitBreakerTrips'' [pc_MQTTTarget cfg] v (concat (map (on_state_change cfg) ns))
   = v + of_nat (length (filter (\<lambda>n. snd n = StateOpen) ns))"
  by (induction ns arbitrary: v) (auto simp: on_state_change_def metric_value_append)

lemma gauge_last:
  "metric_value ''CircuitBreakerState'' [pc_MQTTTarget cfg] v (concat (map (on_state_change cfg) (ns @ [n]))) = of_int (State_iota (snd n))"
  by (simp add: metric_value_append) (simp add: on_state_change_def split_beta)

lemma path_last: "transition_path a (ns @ [n]) b \<Longrightarrow> snd n = b"
  by (cases n; induction ns arbitrary: a) auto

lemma on_state_change_labelled: "m \<in> set (on_state_change cfg n) \<Longrightarrow> well_labelled m"
  by (auto simp: on_state_change_def labelled_simps split: prod.splits if_splits)

lemma check_fn_labelled: "m \<in> set (snd (run_check_fn cfg v f)) \<Longrightarrow> well_labelled m"
  by (auto simp: run_check_fn_def pool_check_def labelled_simps Let_def split: check_fn.splits prod.splits if_splits)

section \<open>Properties\<close>

text \<open>The addresses of the production server: an address and a target that
  \<^verbatim>\<open>JoinHostPort\<close> made come apart again, and the proxy listens on the port of the address, on
  every interface whatever host was given, and dials the target; but for a target host with
  a colon, an IPv6 address, what it dials is not an address any more. Without an address it
  panics.\<close>

lemma production_addresses:
  assumes "no_brackets host" "no_brackets port" "CHR '':'' \<notin> set port"
    and "no_brackets thost" "no_brackets tport" "CHR '':'' \<notin> set tport"
    and "pc_MQTTAddress cfg = JoinHostPort host port" "pc_MQTTTarget cfg = JoinHostPort thost tport"
  shows "\<exists>s. production_server cfg = Some s \<and> tcp_Address (fst s) = '':'' @ port
    \<and> tcp_TargetAddress (fst s) = thost @ '':'' @ tport
    \<and> SplitHostPort (tcp_TargetAddress (fst s)) = (if CHR '':'' \<in> set thost then None else Some (thost, tport))
    \<and> production_server (cfg\<lparr>pc_MQTTAddress := []\<rparr>) = None"
  using assms Split_Join [OF assms(1-3)] Split_Join [OF assms(4-6)] Split_plain [OF assms(4-6)]
  by (simp add: production_server_def mqttProxyConfig_def host_port_def)

lemma production_addresses_witness:
  "\<exists>s. production_server (prod_defaults\<lparr>pc_MQTTAddress := ''127.0.0.1:1884'', pc_MQTTTarget := ''[::1]:1883''\<rparr>) = Some s
    \<and> tcp_Address (fst s) = '':1884'' \<and> tcp_TargetAddress (fst s) = ''::1:1883'' \<and> SplitHostPort (tcp_TargetAddress (fst s)) = None"
proof -
  have "pc_MQTTAddress (prod_defaults\<lparr>pc_MQTTAddress := ''127.0.0.1:1884'', pc_MQTTTarget := ''[::1]:1883''\<rparr>) = JoinHostPort ''127.0.0.1'' ''1884''"
    "pc_MQTTTarget (prod_defaults\<lparr>pc_MQTTAddress := ''127.0.0.1:1884'', pc_MQTTTarget := ''[::1]:1883''\<rparr>) = JoinHostPort ''::1'' ''1883''"
    by (simp_all add: JoinHostPort_def)
  from production_addresses [OF _ _ _ _ _ _ this] show ?thesis by (auto simp: no_brackets_def)
qed

text \<open>What the probes of the production server answer on its first checks, in
  whatever order the checks run: it is ready exactly when there are not more goroutines than
  allowed, alive always, and the health endpoint answers 200 in any case.\<close>

lemma production_probes:
  assumes "distinct order" "set order = set (hc_checks healthChecker)"
  shows "rs_StatusCode (fst (health_route tm (check_probe cfg v since start endt checked) order ''/ready'' healthChecker))
      = (if rt_NumGoroutine v \<le> pc_MaxGoroutines cfg then 200 else 503)
    \<and> rs_StatusCode (fst (health_route tm (check_probe cfg v since start endt checked) order ''/health'' healthChecker)) = 200
    \<and> rs_StatusCode (fst (health_route tm (check_probe cfg v since start endt checked) order ''/live'' healthChecker)) = 200"
proof -
  let ?pr = "check_probe cfg v since start endt checked"
  have checks: "hc_checks healthChecker = [(''goroutines'', Goroutines), (''memory'', Memory), (''connection_pool'', ConnectionPool)]"
    "hc_cache healthChecker = []"
    by (simp_all add: healthChecker_def runtime_checks_def Register_def NewChecker_def)
  have "distinct (map fst order)"
    using assms by (auto simp: distinct_map checks inj_on_def)
  from health_loop_exact [OF this, of healthChecker ?pr StatusHealthy "[]"] obtain cache where
    loop: "health_loop (hc_ttl healthChecker) ?pr order (StatusHealthy, [], hc_cache healthChecker)
      = (if \<forall>x \<in> set order. ck_Status (report healthChecker ?pr x) = StatusHealthy then StatusHealthy else StatusDegraded,
         map (report healthChecker ?pr) order, cache)" by auto
  have "(\<forall>x \<in> set order. ck_Status (report healthChecker ?pr x) = StatusHealthy) \<longleftrightarrow> rt_NumGoroutine v \<le> pc_MaxGoroutines cfg"
    unfolding assms(2) checks(1)
    by (auto simp: report_def fresh_entry_def checks(2) run_check_healthy check_probe_def run_check_fn_def pool_check_def Let_def split: prod.splits if_splits)
  with loop show ?thesis
    by (simp add: health_route_def ReadinessHandler_def HTTPHandler_def LivenessHandler_def Health_def)
qed

lemma production_probes_witness:
  "rs_StatusCode (fst (health_route itoa (check_probe prod_defaults \<lparr>rt_NumGoroutine = 50001, rt_HeapAlloc = 0, rt_Sys = 0, rt_pool = prod_pool prod_defaults\<rparr> 1 1 2 2)
     (hc_checks healthChecker) ''/ready'' healthChecker)) = 503"
proof -
  have "distinct (hc_checks healthChecker)" by (simp add: healthChecker_def runtime_checks_def Register_def NewChecker_def)
  from production_probes [OF this refl, of itoa prod_defaults "\<lparr>rt_NumGoroutine = 50001, rt_HeapAlloc = 0, rt_Sys = 0, rt_pool = prod_pool prod_defaults\<rparr>" 1 1 2 2]
  show ?thesis by (simp add: prod_defaults_def)
qed

text \<open>
  The parts are started in the states from which their theories prove what they prove: the
  pool replaces settings that are not positive and the breaker those that are zero, so that only
  a negative limit is a misconfiguration.
\<close>

lemma prod_build_sound:
  assumes "in_int64 (pc_RateLimitCapacity cfg)" "0 \<le> pc_RateLimitRefill cfg" "in_int64 (pc_GlobalRateCapacity cfg)" "0 \<le> pc_GlobalRateRefill cfg"
    and "0 \<le> pc_BreakerMaxFailures cfg" "pc_BreakerMaxFailures cfg \<le> max_int64" "pc_PoolMaxActive cfg \<le> max_int64"
  shows "cb_inv (pp_breaker (prod_build cfg clk inner))
    \<and> pool_inv \<lparr>ps_pool = pp_pool (prod_build cfg clk inner), ps_dialing = 0, ps_waiting = 0, ps_held = [], ps_dialed = []\<rparr>
    \<and> limiter_ok (pd_perClient (pp_handlers (prod_build cfg clk inner))) \<and> bucket_ok (pd_global (pp_handlers (prod_build cfg clk inner)))
    \<and> distinct (fst (pp_metrics (prod_build cfg clk inner))) \<and> pp_checker (prod_build cfg clk inner) = healthChecker"
proof (intro conjI)
  show "cb_inv (pp_breaker (prod_build cfg clk inner))"
    using assms(5,6) by (simp add: prod_build_def prod_breaker_def cb_inv_def breaker_New_def OnStateChange_def config_ok_def max_int64_def Let_def)
  have "pool_init \<lparr>ps_pool = prod_pool cfg, ps_dialing = 0, ps_waiting = 0, ps_held = [], ps_dialed = []\<rparr>"
    unfolding pool_init_def prod_pool_def by (intro exI conjI, rule refl) (simp add: assms(7))
  then show "pool_inv \<lparr>ps_pool = pp_pool (prod_build cfg clk inner), ps_dialing = 0, ps_waiting = 0, ps_held = [], ps_dialed = []\<rparr>"
    using pool_machine.inv_init by (simp add: prod_build_def Let_def)
  show "limiter_ok (pd_perClient (pp_handlers (prod_build cfg clk inner)))"
    using assms(1,2) lim_inv_New [of "pc_RateLimitCapacity cfg" "pc_RateLimitRefill cfg" 10000]
    by (simp add: prod_build_def prod_perClientLimiter_def limiter_ok_def NewLimiter_def Let_def)
  show "bucket_ok (pd_global (pp_handlers (prod_build cfg clk inner)))"
    using assms(3,4) by (simp add: prod_build_def prod_globalLimiter_def bucket_ok_New Let_def)
  show "distinct (fst (pp_metrics (prod_build cfg clk inner)))"
    using metrics_registered_once [of "''mproxy''"] by (simp add: prod_build_def Let_def)
  show "pp_checker (prod_build cfg clk inner) = healthChecker" by (simp add: prod_build_def healthChecker_def Let_def)
qed

text \<open>The metrics of the circuit breaker, after any run of its critical sections: in
  whatever order the goroutines of the callback run, the counter has grown by the number of
  times the breaker opened; run in the order they were started, the gauge shows its state.\<close>

lemma breaker_metrics_exact:
  assumes "run_ops ps (prod_breaker cfg t0 now) = cb" "mset order = mset (map snd (cb_spawned cb))"
  shows "metric_value ''CircuitBreakerTrips'' [pc_MQTTTarget cfg] v (concat (map (on_state_change cfg) order))
      = v + of_nat (length (filter (\<lambda>n. snd n = StateOpen) (map snd (cb_spawned cb))))
    \<and> transition_path StateClosed (map snd (cb_spawned cb)) (cb_state cb)
    \<and> (order = map snd (cb_spawned cb) \<longrightarrow>
         metric_value ''CircuitBreakerState'' [pc_MQTTTarget cfg] 0 (concat (map (on_state_change cfg) order)) = of_int (State_iota (cb_state cb)))"
proof (intro conjI impI)
  have "mset (filter (\<lambda>n. snd n = StateOpen) order) = mset (filter (\<lambda>n. snd n = StateOpen) (map snd (cb_spawned cb)))"
    using assms(2) by (simp add: mset_filter)
  then have "length (filter (\<lambda>n. snd n = StateOpen) order) = length (filter (\<lambda>n. snd n = StateOpen) (map snd (cb_spawned cb)))"
    by (rule mset_eq_length)
  then show "metric_value ''CircuitBreakerTrips'' [pc_MQTTTarget cfg] v (concat (map (on_state_change cfg) order))
      = v + of_nat (length (filter (\<lambda>n. snd n = StateOpen) (map snd (cb_spawned cb))))"
    by (simp only: trips_counted)
  have "cb_onStateChange (prod_breaker cfg t0 now) = Some 0" "transition_path StateClosed (map snd (cb_spawned (prod_breaker cfg t0 now))) (cb_state (prod_breaker cfg t0 now))"
    by (simp_all add: prod_breaker_def OnStateChange_def breaker_New_def Let_def)
  from run_ops_path [OF this, of ps] show path: "transition_path StateClosed (map snd (cb_spawned cb)) (cb_state cb)"
    unfolding assms(1) .
  assume o: "order = map snd (cb_spawned cb)"
  show "metric_value ''CircuitBreakerState'' [pc_MQTTTarget cfg] 0 (concat (map (on_state_change cfg) order)) = of_int (State_iota (cb_state cb))"
  proof (cases order rule: rev_cases)
    case Nil
    with path o show ?thesis by auto
  next
    case (snoc ns n)
    have "snd n = cb_state cb" using path_last [of StateClosed ns n "cb_state cb"] path unfolding snoc [symmetric] o by blast
    then show ?thesis unfolding snoc gauge_last by simp
  qed
qed

text \<open>A breaker that trips, is tried after the reset timeout and trips again.\<close>

definition prod_ops :: "cb_op list" where
  "prod_ops = replicate 5 (After (Some EOF) 20 20) @ [Before (100 * second) (100 * second), After (Some EOF) (101 * second) (101 * second)]"

lemma prod_ops_spawned:
  "map snd (cb_spawned (run_ops prod_ops (prod_breaker prod_defaults 0 0))) = [(StateClosed, StateOpen), (StateOpen, StateHalfOpen), (StateHalfOpen, StateOpen)]
   \<and> cb_state (run_ops prod_ops (prod_breaker prod_defaults 0 0)) = StateOpen"
  by code_simp

lemma breaker_metrics_exact_witness:
  "metric_value ''CircuitBreakerTrips'' [''localhost:1883''] 0
     (concat (map (on_state_change prod_defaults) [(StateHalfOpen, StateOpen), (StateOpen, StateHalfOpen), (StateClosed, StateOpen)])) = 2"
proof -
  have "mset [(StateHalfOpen, StateOpen), (StateOpen, StateHalfOpen), (StateClosed, StateOpen)]
      = mset (map snd (cb_spawned (run_ops prod_ops (prod_breaker prod_defaults 0 0))))"
    using prod_ops_spawned by simp
  from breaker_metrics_exact [OF refl this, of 0] show ?thesis
    unfolding prod_ops_spawned [THEN conjunct1] by (simp add: prod_defaults_def)
qed

text \<open>Run in another order the callbacks leave a gauge that is not the state of the breaker.\<close>

lemma breaker_gauge_stale:
  "\<exists>order. mset order = mset (map snd (cb_spawned (run_ops prod_ops (prod_breaker prod_defaults 0 0))))
    \<and> metric_value ''CircuitBreakerState'' [''localhost:1883''] 0 (concat (map (on_state_change prod_defaults) order)) = of_int (State_iota StateHalfOpen)
    \<and> cb_state (run_ops prod_ops (prod_breaker prod_defaults 0 0)) = StateOpen"
  using prod_ops_spawned
  by (intro exI [of _ "[(StateClosed, StateOpen), (StateHalfOpen, StateOpen), (StateOpen, StateHalfOpen)]"])
    (simp add: on_state_change_def prod_defaults_def)

end
