(* ===== verification/UdpRelay.thy ===== *)
theory UdpRelay
  imports UdpServer
begin

text \<open>
  The UDP server together with the CoAP parser: what reaches the network. A datagram in
  \<open>ud_net\<close> is traced back through a run of events, to the worker that processed it, the
  decision of the handler at that moment, and the client it came from. The parser reads a
  whole datagram (\<^verbatim>\<open>io.ReadAll\<close> on the reader of its bytes) and writes to a socket, where one
  call sends one datagram or fails.
\<close>

section \<open>Definitions\<close>

definition read_datagram :: "bytes \<Rightarrow> (err + bytes) \<times> bytes" where
  "read_datagram data = (Inr data, [])"

definition datagram_socket :: "(bytes \<Rightarrow> bytes list \<Rightarrow> err option \<times> bytes list) \<Rightarrow> bool" where
  "datagram_socket Write \<longleftrightarrow> (\<forall>m w. Write m w = (None, w @ [m]) \<or> (\<exists>e. Write m w = (Some e, w)))"

abbreviation coap_udp :: "'m coap_lib \<Rightarrow> (bytes \<Rightarrow> bytes list \<Rightarrow> err option \<times> bytes list) \<Rightarrow> (bytes, bytes list, 'h, 'c) parser" where
  "coap_udp lib Write \<equiv> coap_Parse lib read_datagram Write"

abbreviation addr_of :: "('h, 'c) udp_sys \<Rightarrow> nat \<Rightarrow> string" where
  "addr_of s ref \<equiv> ss_RemoteAddr (sm_heap (ud_sm s) ! ref)"

abbreviation state_of :: "('h, 'c) udp_sys \<Rightarrow> nat \<Rightarrow> ('h, 'c) session" where
  "state_of s ref \<equiv> (ss_Context (sm_heap (ud_sm s) ! ref), sm_handler (ud_sm s))"

text \<open>A datagram that came from a client, cut to the size of a buffer.\<close>

definition arrived :: "udp_event list \<Rightarrow> udp_Config \<Rightarrow> string \<Rightarrow> bytes \<Rightarrow> bool" where
  "arrived evs c a data \<longleftrightarrow> (\<exists>full. Arrives a full \<in> set evs \<and> data = take (nat (udp_BufferSize c)) full)"

definition traced :: "udp_event list \<Rightarrow> ('h, 'c) udp_sys \<Rightarrow> bool" where
  "traced evs s \<longleftrightarrow> (\<forall>(a, data) \<in> set (ud_packetCh s) \<union> set (ud_missed s). arrived evs (ud_config s) a data)
     \<and> (\<forall>(ref, isNew, data) \<in> set (ud_found s). arrived evs (ud_config s) (addr_of s ref) data)"

section \<open>One event\<close>

lemma exec_config:
  assumes "udp_exec parse H ev s = Some t"
  shows "ud_config t = ud_config s"
  using assms
  by (cases ev) (auto simp: udp_enqueue_def packet_found_def reader_removes_def downstream_round_def session_parse_def Let_def
      split: list.splits option.splits prod.splits sum.splits if_splits bool.splits read_result.splits)

lemma touch_addr [simp]: "ss_RemoteAddr (sm_heap (touch now r sm) ! i) = ss_RemoteAddr (sm_heap sm ! i)"
  by (cases "i = r"; cases "r < length (sm_heap sm)") (simp_all add: touch_def UpdateActivity_def list_update_beyond)

lemma session_parse_addr [simp]: "addr_of (session_parse parse H dir dst r data s) i = addr_of s i"
  by (cases "i = r"; cases "r < length (sm_heap (ud_sm s))") (simp_all add: session_parse_def Let_def list_update_beyond split: prod.splits)

lemma create_addr:
  "sm_create a t rs dl sid now sm = (x, sm') \<Longrightarrow> i < length (sm_heap sm) \<Longrightarrow>
   ss_RemoteAddr (sm_heap sm' ! i) = ss_RemoteAddr (sm_heap sm ! i)"
  by (auto simp: sm_create_def Let_def nth_append split: option.splits if_splits)

lemma create_found_addr:
  assumes "sm_inv sm" "sm_create a t rs dl sid now sm = (Inr (ref, isNew), sm')"
  shows "ss_RemoteAddr (sm_heap sm' ! ref) = a"
proof (cases "go_get (sm_sessions sm) a")
  case None
  then show ?thesis using assms(2) by (auto simp: sm_create_def Let_def new_session_def split: option.splits if_splits)
next
  case (Some r)
  then have "ss_RemoteAddr (sm_heap sm ! r) = a"
    using assms(1) map_of_SomeD [OF Some] by (auto simp: sm_inv_def list_all_iff)
  then show ?thesis using assms(2) Some by (auto simp: sm_create_def)
qed

lemma cleanup_apply_addr:
  "i < length (sm_heap sm) \<Longrightarrow> ss_RemoteAddr (sm_heap (cleanup_apply H ks sm) ! i) = ss_RemoteAddr (sm_heap sm ! i)"
  by (induction H ks sm rule: cleanup_apply.induct) (auto simp: end_session_addr split: option.splits)

lemma exec_addr:
  assumes "udp_exec parse H ev s = Some t" "i < length (sm_heap (ud_sm s))"
  shows "addr_of t i = addr_of s i"
proof (cases ev)
  case (Creates a data rs dl sid now)
  then show ?thesis using assms by (auto simp: Let_def create_addr split: if_splits prod.splits sum.splits)
next
  case (Reads ref ok res now)
  then show ?thesis using assms
    by (auto simp: downstream_round_def reader_removes_def Let_def split: if_splits read_result.splits)
next
  case Sweeps
  then show ?thesis using assms by (auto simp: cleanup_apply_addr)
qed (use assms in \<open>auto simp: udp_enqueue_def packet_found_def end_session_addr Let_def
    split: if_splits list.splits prod.splits option.splits\<close>)

text \<open>What an event adds to the network.\<close>

fun emitted :: "(bytes, bytes list, 'h, 'c) parser \<Rightarrow> ('h, 'c) Handler \<Rightarrow> udp_event \<Rightarrow> ('h, 'c) udp_sys \<Rightarrow> (dest \<times> bytes) list" where
  "emitted parse H (Processes ref isNew data) s =
     map (Pair (ToBackend ref)) (fst (snd (snd (parse Upstream H data [] (state_of s ref)))))"
| "emitted parse H (Reads ref ok (ReadData full) now) s =
     (if ss_cancelled (sm_heap (ud_sm s) ! ref) \<or> \<not> ok then [] else
      map (Pair (ToClient (addr_of s ref)))
        (fst (snd (snd (parse Downstream H (take (nat (udp_BufferSize (ud_config s))) full) [] (state_of s ref))))))"
| "emitted parse H ev s = []"

lemma session_parse_net:
  "ud_net (session_parse parse H dir dst ref data s)
   = ud_net s @ map (Pair dst) (fst (snd (snd (parse dir H data [] (state_of s ref)))))"
  by (simp add: session_parse_def Let_def split: prod.splits)

lemma touch_context [simp]: "ss_Context (sm_heap (touch now r sm) ! i) = ss_Context (sm_heap sm ! i)" "sm_handler (touch now r sm) = sm_handler sm"
  by (cases "i = r"; cases "r < length (sm_heap sm)") (simp_all add: touch_def UpdateActivity_def list_update_beyond)

lemma exec_net:
  assumes "udp_exec parse H ev s = Some t"
  shows "ud_net t = ud_net s @ emitted parse H ev s"
proof (cases ev)
  case (Reads ref ok res now)
  then show ?thesis using assms
    by (cases res) (auto simp: downstream_round_def reader_removes_def session_parse_net Let_def split: if_splits)
qed (use assms in \<open>auto simp: udp_enqueue_def packet_found_def session_parse_net Let_def
    split: if_splits list.splits prod.splits option.splits sum.splits\<close>)

lemma exec_enabled:
  assumes "udp_exec parse H ev s = Some t"
  shows "case ev of Processes ref isNew data \<Rightarrow> (ref, isNew, data) \<in> set (ud_found s)
    | Reads ref ok res now \<Rightarrow> ref \<in> set (ud_readers s) | _ \<Rightarrow> True"
  using assms by (cases ev) (auto split: if_splits)

section \<open>Runs\<close>

lemma udp_run_snoc: "udp_run parse H (evs @ [ev]) s = Option.bind (udp_run parse H evs s) (udp_exec parse H ev)"
  by (induction evs arbitrary: s) (auto split: Option.bind_splits)

lemma arrived_mono: "arrived evs c a data \<Longrightarrow> arrived (evs @ evs') c a data"
  by (auto simp: arrived_def)

lemma traced_I:
  assumes "udp_inv s" "traced evs s" "udp_exec parse H ev s = Some t"
    and "\<And>a data. (a, data) \<in> set (ud_packetCh t) \<union> set (ud_missed t) \<Longrightarrow>
      (a, data) \<in> set (ud_packetCh s) \<union> set (ud_missed s) \<or> arrived (evs @ [ev]) (ud_config s) a data"
    and "\<And>ref isNew data. (ref, isNew, data) \<in> set (ud_found t) \<Longrightarrow>
      (ref, isNew, data) \<in> set (ud_found s) \<or> arrived (evs @ [ev]) (ud_config s) (addr_of t ref) data"
  shows "traced (evs @ [ev]) t"
proof -
  have c: "ud_config t = ud_config s" by (rule exec_config [OF assms(3)])
  have old: "arrived (evs @ [ev]) (ud_config s) (addr_of t ref) data" if "(ref, isNew, data) \<in> set (ud_found s)" for ref isNew data
  proof -
    have "ref \<in> udp_refs s" using that by (force simp: udp_refs_def)
    then have "ref < length (sm_heap (ud_sm s))" using assms(1) by (auto simp: udp_inv_def)
    from exec_addr [OF assms(3) this] show ?thesis
      using assms(2) that by (auto simp: traced_def intro!: arrived_mono)
  qed
  have "arrived (evs @ [ev]) (ud_config s) a data" if "(a, data) \<in> set (ud_packetCh t) \<union> set (ud_missed t)" for a data
    using assms(4) [OF that] assms(2) by (auto simp: traced_def intro: arrived_mono)
  moreover have "arrived (evs @ [ev]) (ud_config s) (addr_of t ref) data" if "(ref, isNew, data) \<in> set (ud_found t)" for ref isNew data
    using assms(5) [OF that] old by blast
  ultimately show ?thesis by (auto simp: traced_def c)
qed

lemma Get_addr: "sm_inv sm \<Longrightarrow> sm_Get a sm = Some ref \<Longrightarrow> ss_RemoteAddr (sm_heap sm ! ref) = a"
  by (auto simp: sm_inv_def sm_Get_def list_all_iff dest!: map_of_SomeD)

lemma traced_exec:
  assumes "udp_inv s" "traced evs s" "udp_exec parse H ev s = Some t"
  shows "traced (evs @ [ev]) t"
proof -
  note tr = traced_I [OF assms]
  have i: "sm_inv (ud_sm s)" using assms(1) by (simp add: udp_inv_def)
  show ?thesis
  proof (cases ev)
    case (Arrives a full)
    have "arrived (evs @ [ev]) (ud_config s) a (take (nat (udp_BufferSize (ud_config s))) full)"
      using Arrives by (auto simp: arrived_def)
    then show ?thesis using Arrives assms(3) by (intro tr) (auto simp: udp_enqueue_def Let_def split: if_splits)
  next
    case (LooksUp now)
    obtain a d rest where q: "ud_packetCh s = (a, d) # rest" using LooksUp assms(3) by (cases "ud_packetCh s") auto
    then have "arrived (evs @ [ev]) (ud_config s) a d" using assms(2) by (auto simp: traced_def intro: arrived_mono)
    then show ?thesis using LooksUp assms(3) q Get_addr [OF i, of a]
      by (intro tr) (auto simp: Let_def split: option.splits)
  next
    case (Creates a d rs dl sid now)
    obtain res sm where c: "sm_create a (udp_TargetAddress (ud_config s)) rs dl sid now (ud_sm s) = (res, sm)"
      by (cases "sm_create a (udp_TargetAddress (ud_config s)) rs dl sid now (ud_sm s)")
    have "(a, d) \<in> set (ud_missed s)" using Creates assms(3) by (simp split: if_splits)
    then have "arrived (evs @ [ev]) (ud_config s) a d" using assms(2) by (auto simp: traced_def intro: arrived_mono)
    then show ?thesis using Creates assms(3) c create_found_addr [OF i, of a "udp_TargetAddress (ud_config s)" rs dl sid now]
      by (intro tr) (auto simp: Let_def split: if_splits sum.splits prod.splits dest: subsetD [OF set_remove1_subset])
  next
    case (Reads ref ok res now)
    then show ?thesis using assms(3)
      by (intro tr) (auto simp: downstream_round_def reader_removes_def session_parse_def Let_def split: if_splits read_result.splits prod.splits)
  next
    case (Processes ref isNew data)
    then show ?thesis using assms(3)
      by (intro tr) (auto simp: packet_found_def session_parse_def Let_def split: if_splits prod.splits dest: subsetD [OF set_remove1_subset])
  qed (rule tr; use assms(3) in \<open>auto split: if_splits\<close>)+
qed

text \<open>Every datagram on the network was put there by an event of the run, in a state whose
  packets are traced.\<close>

lemma run_sent:
  assumes "udp_New cfg h = Some s0" "udp_run parse H evs s0 = Some s"
  shows "traced evs s \<and> udp_inv s \<and> (x \<in> set (ud_net s) \<longrightarrow> (\<exists>evs1 ev evs2 s1 t. evs = evs1 @ ev # evs2
    \<and> udp_run parse H evs1 s0 = Some s1 \<and> traced evs1 s1 \<and> udp_inv s1
    \<and> udp_exec parse H ev s1 = Some t \<and> x \<in> set (emitted parse H ev s1)))"
  using assms(2)
proof (induction evs arbitrary: s rule: rev_induct)
  case Nil
  have "udp_inv s0" using assms(1) by (intro udp_machine.inv_init) (auto simp: udp_init_def)
  with Nil assms(1) show ?case by (auto simp: udp_New_def traced_def Let_def split: if_splits)
next
  case (snoc ev evs)
  then obtain u where u: "udp_run parse H evs s0 = Some u" "udp_exec parse H ev u = Some s"
    by (auto simp: udp_run_snoc split: Option.bind_splits)
  note IH = snoc.IH [OF u(1)]
  have "traced (evs @ [ev]) s" "udp_inv s" using IH traced_exec [OF _ _ u(2)] udp_inv_exec [OF _ u(2)] by blast+
  moreover have "\<exists>evs1 e evs2 s1 t. evs @ [ev] = evs1 @ e # evs2 \<and> udp_run parse H evs1 s0 = Some s1 \<and> traced evs1 s1
      \<and> udp_inv s1 \<and> udp_exec parse H e s1 = Some t \<and> x \<in> set (emitted parse H e s1)" if "x \<in> set (ud_net s)"
  proof (cases "x \<in> set (ud_net u)")
    case True
    then obtain evs1 e evs2 s1 t where "evs = evs1 @ e # evs2" "udp_run parse H evs1 s0 = Some s1" "traced evs1 s1"
      "udp_inv s1" "udp_exec parse H e s1 = Some t" "x \<in> set (emitted parse H e s1)" using IH by blast
    then show ?thesis by (intro exI [of _ evs1] exI [of _ e] exI [of _ "evs2 @ [ev]"]) auto
  next
    case False
    then have "x \<in> set (emitted parse H ev u)" using that exec_net [OF u(2)] by simp
    then show ?thesis using u IH by blast
  qed
  ultimately show ?case by blast
qed

lemma coap_written:
  assumes "datagram_socket Write" "x \<in> set (fst (snd (snd (coap_udp lib Write dir H data [] s))))"
  shows "x = data \<and> (\<exists>msg. Unmarshal lib data = Inr msg) \<and> coap_verdict lib dir H data s = None"
proof -
  have W: "snd (Write data []) = [data] \<or> snd (Write data []) = []"
    using assms(1) unfolding datagram_socket_def by (metis append_Nil snd_conv)
  have ok: "coap_verdict_msg lib H msg s = None" if "coap_handleUpstream lib H msg s = (None, s')" for msg s'
    using coap_handle_verdict [of lib H msg s] that by (cases "coap_verdict_msg lib H msg s") simp_all
  show ?thesis
    using assms(2) W
    by (auto dest: ok simp: coap_Parse_def read_datagram_def coap_verdict_def split: sum.splits prod.splits option.splits Direction.splits if_splits)
qed

section \<open>Properties\<close>

text \<open>C3 (safety). CoAP end to end, under every interleaving of the read loop, the workers, the
  readers and the cleaner, and whatever the sockets do: each datagram sent to a backend came
  from the client of that session, was decoded, and was approved by the handler for the
  context this session had when the worker took it up; each datagram sent to a client was
  read from the backend socket of a session of this client.\<close>

theorem udp_coap_authorised:
  assumes "datagram_socket Write" "udp_New cfg h = Some s0" "udp_run (coap_udp lib Write) H evs s0 = Some s"
    and "(dst, data) \<in> set (ud_net s)"
  shows "\<exists>evs1 ev evs2 s1. evs = evs1 @ ev # evs2 \<and> udp_run (coap_udp lib Write) H evs1 s0 = Some s1
    \<and> (\<exists>msg. Unmarshal lib data = Inr msg)
    \<and> (case dst of
         ToBackend ref \<Rightarrow> (\<exists>isNew full. ev = Processes ref isNew data
           \<and> coap_verdict lib Upstream H data (ss_Context (sm_heap (ud_sm s1) ! ref), sm_handler (ud_sm s1)) = None
           \<and> Arrives (ss_RemoteAddr (sm_heap (ud_sm s1) ! ref)) full \<in> set evs1
           \<and> data = take (nat (udp_BufferSize (ud_config s1))) full)
       | ToClient a \<Rightarrow> (\<exists>ref full now. ev = Reads ref True (ReadData full) now \<and> ref \<in> set (ud_readers s1)
           \<and> ss_RemoteAddr (sm_heap (ud_sm s1) ! ref) = a \<and> data = take (nat (udp_BufferSize (ud_config s1))) full))"
proof -
  obtain evs1 ev evs2 s1 t where e: "evs = evs1 @ ev # evs2" "udp_run (coap_udp lib Write) H evs1 s0 = Some s1" "traced evs1 s1"
    "udp_exec (coap_udp lib Write) H ev s1 = Some t" "(dst, data) \<in> set (emitted (coap_udp lib Write) H ev s1)"
    using run_sent [OF assms(2,3), of "(dst, data)"] assms(4) by blast
  note written = coap_written [OF assms(1), of _ lib _ H _ "state_of s1 _"]
  show ?thesis
  proof (cases ev)
    case (Processes ref isNew d)
    have "(ref, isNew, d) \<in> set (ud_found s1)" using exec_enabled [OF e(4)] Processes by simp
    then have "arrived evs1 (ud_config s1) (addr_of s1 ref) d" using e(3) by (auto simp: traced_def)
    moreover have "dst = ToBackend ref \<and> data = d \<and> (\<exists>msg. Unmarshal lib d = Inr msg)
        \<and> coap_verdict lib Upstream H d (state_of s1 ref) = None" using e(5) Processes by (auto dest!: written)
    ultimately show ?thesis using e(1,2) Processes unfolding arrived_def
      by (intro exI [of _ evs1] exI [of _ ev] exI [of _ evs2] exI [of _ s1]) auto
  next
    case (Reads ref ok res now)
    then obtain full where "res = ReadData full" "ok" "dst = ToClient (addr_of s1 ref)"
      "data = take (nat (udp_BufferSize (ud_config s1))) full" "\<exists>msg. Unmarshal lib data = Inr msg"
      using e(5) by (cases res) (auto dest!: written split: if_splits)
    moreover have "ref \<in> set (ud_readers s1)" using exec_enabled [OF e(4)] Reads by simp
    ultimately show ?thesis using e(1,2) Reads
      by (intro exI [of _ evs1] exI [of _ ev] exI [of _ evs2] exI [of _ s1]) auto
  qed (use e(5) in simp_all)
qed

text \<open>A request with the right key, and the answer of the backend.\<close>

definition coap_exchange :: "udp_event list" where
  "coap_exchange = [Arrives ''a'' ''auth=k'', LooksUp 0, Creates ''a'' ''auth=k'' None None ''s0'' 0,
     Processes 0 True ''auth=k'', Reads 0 True (ReadData ''ok'') 1]"

definition coap_server :: "(unit, unit) udp_sys" where
  "coap_server = the (udp_New one_session ())"

lemma coap_exchange_net:
  "\<exists>s. udp_run (coap_udp sample_lib (\<lambda>m w. (None, w @ [m]))) (key_handler ''k'') coap_exchange coap_server = Some s
     \<and> ud_net s = [(ToBackend 0, ''auth=k''), (ToClient ''a'', ''ok'')]"
  by (simp add: coap_exchange_def coap_server_def udp_eval coap_Parse_def read_datagram_def coap_handleUpstream_def
      coap_dispatch_def extractAuthFromQuery_def sample_coap UpdateActivity_def touch_def)

theorem udp_coap_authorised_witness:
  "\<exists>evs1 ev evs2 s1 s. coap_exchange = evs1 @ ev # evs2
    \<and> udp_run (coap_udp sample_lib (\<lambda>m w. (None, w @ [m]))) (key_handler ''k'') coap_exchange coap_server = Some s
    \<and> udp_run (coap_udp sample_lib (\<lambda>m w. (None, w @ [m]))) (key_handler ''k'') evs1 coap_server = Some s1
    \<and> (ToBackend 0, ''auth=k'') \<in> set (ud_net s)
    \<and> coap_verdict sample_lib Upstream (key_handler ''k'') ''auth=k''
        (ss_Context (sm_heap (ud_sm s1) ! 0), sm_handler (ud_sm s1)) = None"
proof -
  obtain s where s: "udp_run (coap_udp sample_lib (\<lambda>m w. (None, w @ [m]))) (key_handler ''k'') coap_exchange coap_server = Some s"
    "ud_net s = [(ToBackend 0, ''auth=k''), (ToClient ''a'', ''ok'')]" using coap_exchange_net by blast
  have w: "datagram_socket (\<lambda>m w. (None, w @ [m]))" by (simp add: datagram_socket_def)
  have n: "udp_New one_session () = Some coap_server" by (simp add: coap_server_def udp_eval)
  have m: "(ToBackend 0, ''auth=k'') \<in> set (ud_net s)" by (simp add: s(2))
  from udp_coap_authorised [OF w n s(1) m] s(1) m show ?thesis
    by (simp only: dest.case) blast
qed

end
