(* ===== verification/UdpListen.thy ===== *)
theory UdpListen
  imports UdpRelay Float64
begin

text \<open>
  \<^verbatim>\<open>Listen\<close> of the UDP server (\<^verbatim>\<open>src/pkg/server/udp/server.go\<close>, lines 146-272) and the
  cleanup goroutine of \<^verbatim>\<open>session.go\<close>: opening the socket, the read loop, the worker pool and
  the sequence of the shutdown. The state adds to that of the server the goroutines still
  running and how far \<^verbatim>\<open>Listen\<close> has come; a step is an event of the server, as far as the
  goroutine for it exists, or one statement of the shutdown. Shown: the workers bound the
  packets in progress, nothing is sent on the closed channel, when \<^verbatim>\<open>Listen\<close> returns no
  session is tracked any more, and it can always go on to return.
\<close>

section \<open>Definitions\<close>

text \<open>Opening the socket; the result is the error, or the warnings that were logged.\<close>

definition udp_open :: "udp_Config \<Rightarrow> err option \<Rightarrow> err option \<Rightarrow> err option \<Rightarrow> err option \<Rightarrow> err + string list" where
  "udp_open c resolve listen readBuf writeBuf = (case resolve of
     Some e \<Rightarrow> Inl (Wrapf (''failed to resolve address '' @ udp_Address c @ '': '') e [])
   | None \<Rightarrow> (case listen of
       Some e \<Rightarrow> Inl (Wrapf (''failed to listen on '' @ udp_Address c @ '': '') e [])
     | None \<Rightarrow> Inr
         ((if udp_ReadBufferSize c > 0 \<and> readBuf \<noteq> None then [''failed to set read buffer size''] else [])
          @ (if udp_WriteBufferSize c > 0 \<and> writeBuf \<noteq> None then [''failed to set write buffer size''] else []))))"

text \<open>The ticker of \<^verbatim>\<open>Cleanup\<close>; \<open>None\<close> is the panic on an interval that is not positive.\<close>

definition Cleanup_ticker :: "duration \<Rightarrow> duration option" where
  "Cleanup_ticker timeout = (let d = trunc_div timeout 2 in if d \<le> 0 then None else Some d)"

datatype udp_phase = Serving | ClosingListener | StoppingWorkers | Draining int | Returned "err option"

record ('h, 'c) udp_listen =
  ul_sys :: "('h, 'c) udp_sys"
  ul_done :: bool
  ul_reading :: bool
  ul_workers :: nat
  ul_drained :: bool
  ul_phase :: udp_phase

text \<open>The packets the workers are busy with.\<close>

definition busy :: "('h, 'c) udp_sys \<Rightarrow> nat" where
  "busy s = length (ud_missed s) + length (ud_found s)"

text \<open>The contexts of all sessions are derived from that of \<^verbatim>\<open>Listen\<close>.\<close>

definition settle :: "bool \<Rightarrow> ('h, 'c) udp_sys \<Rightarrow> ('h, 'c) udp_sys" where
  "settle cancelled s = (if cancelled
     then s\<lparr>ud_sm := (ud_sm s)\<lparr>sm_heap := map (\<lambda>x. x\<lparr>ss_cancelled := True\<rparr>) (sm_heap (ud_sm s))\<rparr>\<rparr> else s)"

text \<open>An event needs its goroutine: the read loop, or a worker that is not busy.\<close>

fun may_happen :: "udp_event \<Rightarrow> ('h, 'c) udp_listen \<Rightarrow> bool" where
  "may_happen (Arrives a data) l \<longleftrightarrow> ul_reading l"
| "may_happen (LooksUp now) l \<longleftrightarrow> busy (ul_sys l) < ul_workers l"
| "may_happen ev l \<longleftrightarrow> True"

inductive listen_step :: "(bytes, bytes list, 'h, 'c) parser \<Rightarrow> ('h, 'c) Handler \<Rightarrow> ('h, 'c) udp_listen \<Rightarrow> ('h, 'c) udp_listen \<Rightarrow> bool"
  for parse H where
  work: "may_happen ev l \<Longrightarrow> udp_exec parse H ev (ul_sys l) = Some t \<Longrightarrow>
     listen_step parse H l (l\<lparr>ul_sys := settle (ul_done l) t\<rparr>)"
| ctx_done: "listen_step parse H l (l\<lparr>ul_done := True, ul_sys := settle True (ul_sys l)\<rparr>)"
| read_loop_returns: "ul_done l \<Longrightarrow> ul_reading l \<Longrightarrow> listen_step parse H l (l\<lparr>ul_reading := False\<rparr>)"
| close_listener: "ul_phase l = Serving \<Longrightarrow> ul_done l \<Longrightarrow> listen_step parse H l (l\<lparr>ul_phase := ClosingListener\<rparr>)"
| close_channel: "ul_phase l = ClosingListener \<Longrightarrow> \<not> ul_reading l \<Longrightarrow> listen_step parse H l (l\<lparr>ul_phase := StoppingWorkers\<rparr>)"
| worker_returns: "busy (ul_sys l) < ul_workers l \<Longrightarrow> ul_done l \<or> (ul_phase l = StoppingWorkers \<and> ud_packetCh (ul_sys l) = []) \<Longrightarrow>
     listen_step parse H l (l\<lparr>ul_workers := ul_workers l - 1\<rparr>)"
| workers_done: "ul_phase l = StoppingWorkers \<Longrightarrow> ul_workers l = 0 \<Longrightarrow>
     listen_step parse H l (l\<lparr>ul_phase := Draining (sm_Count (ud_sm (ul_sys l)))\<rparr>)"
| poll: "ul_phase l = Draining c \<Longrightarrow> sm_Count (ud_sm (ul_sys l)) = 0 \<Longrightarrow> listen_step parse H l (l\<lparr>ul_drained := True\<rparr>)"
| drain_returns: "ul_phase l = Draining c \<Longrightarrow> c = 0 \<or> timed_out \<or> ul_drained l \<Longrightarrow>
     go_map order \<Longrightarrow> set order = set (sm_sessions (ud_sm (ul_sys l))) \<Longrightarrow>
     DrainAll H c timed_out order (ud_sm (ul_sys l)) = (e, sm) \<Longrightarrow>
     listen_step parse H l (l\<lparr>ul_sys := (ul_sys l)\<lparr>ud_sm := sm\<rparr>, ul_phase := Returned e\<rparr>)"

definition listen_init :: "('h, 'c) udp_listen \<Rightarrow> bool" where
  "listen_init l \<longleftrightarrow> udp_init (ul_sys l) \<and> \<not> ul_done l \<and> ul_reading l \<and> ul_workers l = nat (udp_WorkerPoolSize (ud_config (ul_sys l)))
     \<and> \<not> ul_drained l \<and> ul_phase l = Serving"

section \<open>Invariant\<close>

definition channel_closed :: "udp_phase \<Rightarrow> bool" where
  "channel_closed ph \<longleftrightarrow> ph \<noteq> Serving \<and> ph \<noteq> ClosingListener"

definition pool_stopped :: "udp_phase \<Rightarrow> bool" where
  "pool_stopped ph \<longleftrightarrow> (\<exists>c. ph = Draining c) \<or> (\<exists>e. ph = Returned e)"

definition listen_inv :: "('h, 'c) udp_listen \<Rightarrow> bool" where
  [inv_defs]: "listen_inv l \<longleftrightarrow> udp_inv (ul_sys l) \<and> busy (ul_sys l) \<le> ul_workers l
     \<and> ul_workers l \<le> nat (udp_WorkerPoolSize (ud_config (ul_sys l)))
     \<and> (channel_closed (ul_phase l) \<longrightarrow> \<not> ul_reading l)
     \<and> (pool_stopped (ul_phase l) \<longrightarrow> ul_workers l = 0)
     \<and> (ul_drained l \<longrightarrow> pool_stopped (ul_phase l) \<and> sm_sessions (ud_sm (ul_sys l)) = [])
     \<and> (ul_phase l = Draining 0 \<or> (\<exists>e. ul_phase l = Returned e) \<longrightarrow> sm_sessions (ud_sm (ul_sys l)) = [])"

lemma settle_simps [simp]:
  "ud_missed (settle b s) = ud_missed s" "ud_found (settle b s) = ud_found s" "ud_config (settle b s) = ud_config s"
  "sm_sessions (ud_sm (settle b s)) = sm_sessions (ud_sm s)" "busy (settle b s) = busy s" "udp_refs (settle b s) = udp_refs s"
  "length (sm_heap (ud_sm (settle b s))) = length (sm_heap (ud_sm s))" "ud_packetCh (settle b s) = ud_packetCh s"
  by (simp_all add: settle_def busy_def udp_refs_def)

lemma settle_inv [simp]: "udp_inv s \<Longrightarrow> udp_inv (settle b s)"
  by (auto simp: udp_inv_def settle_def udp_refs_def sm_inv_def list_all_iff)

lemma session_parse_busy [simp]:
  "busy (session_parse parse H dir dst ref data s) = busy s" "ud_config (session_parse parse H dir dst ref data s) = ud_config s"
  "ud_missed (session_parse parse H dir dst ref data s) = ud_missed s"
  by (simp_all add: session_parse_def busy_def Let_def split: prod.splits)

lemma downstream_round_other:
  assumes "downstream_round parse H ref ok res now s = (go, t)"
  shows "busy t = busy s \<and> ud_config t = ud_config s \<and> sm_sessions (ud_sm t) = sm_sessions (ud_sm s)"
  using assms by (auto simp: downstream_round_def Let_def busy_def split: if_splits read_result.splits)

lemma cleanup_apply_none: "sm_sessions sm = [] \<Longrightarrow> cleanup_apply H ks sm = sm"
  by (induction ks) simp_all

lemma one_less: "x \<in> set xs \<Longrightarrow> Suc (length xs - Suc 0) = length xs"
  by (cases xs) simp_all

lemma exec_busy:
  assumes "udp_exec parse H ev s = Some t"
  shows "busy t \<le> busy s + (case ev of LooksUp now \<Rightarrow> 1 | _ \<Rightarrow> 0)"
  using assms
  by (cases ev) (auto simp: udp_enqueue_def packet_found_def reader_removes_def busy_def Let_def length_remove1 one_less
      split: list.splits option.splits prod.splits sum.splits if_splits bool.splits dest: downstream_round_other)

lemma exec_no_sessions:
  assumes "udp_exec parse H ev s = Some t" "ud_missed s = []" "sm_sessions (ud_sm s) = []"
  shows "sm_sessions (ud_sm t) = []"
  using assms
  by (cases ev) (auto simp: udp_enqueue_def packet_found_def reader_removes_def Let_def cleanup_apply_none sm_Get_def sm_Remove_def
      split: list.splits option.splits prod.splits sum.splits if_splits bool.splits dest!: downstream_round_other)

text \<open>An event keeps the invariant: a look-up needs an idle worker, and without workers there is no packet
  in progress, so no session is made.\<close>

lemma listen_inv_work:
  assumes "listen_inv l" "may_happen ev l" "udp_exec parse H ev (ul_sys l) = Some t"
  shows "listen_inv (l\<lparr>ul_sys := settle (ul_done l) t\<rparr>)"
proof -
  have "udp_inv t" using assms(1,3) udp_inv_exec by (auto simp: listen_inv_def)
  moreover have "busy t \<le> ul_workers l"
    using exec_busy [OF assms(3)] assms(1,2) by (cases ev) (auto simp: listen_inv_def)
  moreover have "sm_sessions (ud_sm t) = []" if "sm_sessions (ud_sm (ul_sys l)) = []" "pool_stopped (ul_phase l)"
  proof -
    have "busy (ul_sys l) = 0" using that(2) assms(1) by (simp add: listen_inv_def)
    then show ?thesis using exec_no_sessions [OF assms(3)] that(1) by (simp add: busy_def)
  qed
  ultimately show ?thesis
    using assms(1) exec_config [OF assms(3)] by (auto simp: listen_inv_def pool_stopped_def)
qed

lemma sm_Count_0: "sm_Count sm = 0 \<longleftrightarrow> sm_sessions sm = []"
  by (simp add: sm_Count_def)

lemma DrainAll_inv:
  assumes "sm_inv sm" "set order = set (sm_sessions sm)" "DrainAll H c timed_out order sm = (e, sm')"
    and "c = 0 \<or> \<not> timed_out \<Longrightarrow> sm_sessions sm = []"
  shows "sm_inv sm' \<and> sm_sessions sm' = [] \<and> length (sm_heap sm') = length (sm_heap sm)"
proof (cases "c = 0 \<or> \<not> timed_out")
  case True
  then show ?thesis using assms(1,3) assms(4) [OF True] by (auto simp: DrainAll_def split: if_splits)
next
  case False
  then have sm': "sm' = ForceCloseAll H order sm" using assms(3) by (simp add: DrainAll_def)
  have "\<forall>(k, r) \<in> set order. r < length (sm_heap sm)" using assms(1,2) by (auto simp: sm_inv_def list_all_iff)
  moreover have "length (sm_heap (ForceCloseAll H order sm)) = length (sm_heap sm)" for order sm
    unfolding ForceCloseAll_def by (induction order arbitrary: sm) auto
  ultimately show ?thesis
    using force_close_all [of sm order H] sm_inv_ForceCloseAll [OF assms(1), of H order] assms(2) by (simp add: sm')
qed

lemma listen_inv_drain:
  assumes "listen_inv l" "ul_phase l = Draining c" "c = 0 \<or> timed_out \<or> ul_drained l"
    and "set order = set (sm_sessions (ud_sm (ul_sys l)))" "DrainAll H c timed_out order (ud_sm (ul_sys l)) = (e, sm)"
  shows "listen_inv (l\<lparr>ul_sys := (ul_sys l)\<lparr>ud_sm := sm\<rparr>, ul_phase := Returned e\<rparr>)"
proof -
  have "sm_inv (ud_sm (ul_sys l))" using assms(1) by (simp add: inv_defs)
  moreover have "sm_sessions (ud_sm (ul_sys l)) = []" if "c = 0 \<or> \<not> timed_out"
    using that assms(1-3) by (auto simp: listen_inv_def)
  ultimately have "sm_inv sm \<and> sm_sessions sm = [] \<and> length (sm_heap sm) = length (sm_heap (ud_sm (ul_sys l)))"
    using DrainAll_inv [OF _ assms(4,5)] by blast
  then show ?thesis
    using assms(1,2) by (auto simp: listen_inv_def udp_inv_def udp_refs_def busy_def pool_stopped_def channel_closed_def)
qed

lemma listen_inv_step: "listen_step parse H l l' \<Longrightarrow> listen_inv l \<Longrightarrow> listen_inv l'"
proof (induction rule: listen_step.induct)
  case (work ev l t)
  then show ?case by (blast intro: listen_inv_work)
next
  case (drain_returns l c timed_out order e sm)
  then show ?case by (blast intro: listen_inv_drain)
qed (auto simp: listen_inv_def pool_stopped_def channel_closed_def sm_Count_0)

lemma udp_New_idle: "udp_New cfg h = Some s \<Longrightarrow> ud_missed s = [] \<and> ud_found s = []"
  by (auto simp: udp_New_def Let_def split: if_splits)

interpretation listen_machine: inv_system listen_init "listen_step parse H" listen_inv for parse H
proof
  show "listen_init l \<Longrightarrow> listen_inv l" for l :: "('a, 'b) udp_listen"
  proof -
    assume i: "listen_init l"
    then have "udp_inv (ul_sys l)" by (auto simp: listen_init_def intro: udp_machine.inv_init)
    moreover have "busy (ul_sys l) = 0" using i by (auto simp: listen_init_def udp_init_def busy_def dest: udp_New_idle)
    ultimately show "listen_inv l"
      using i by (simp add: listen_inv_def listen_init_def pool_stopped_def channel_closed_def)
  qed
  show "listen_inv l \<Longrightarrow> listen_step parse H l l' \<Longrightarrow> listen_inv l'" for l l' by (rule listen_inv_step)
qed

section \<open>The way out\<close>

text \<open>What is left to do before the workers have returned.\<close>

definition work_left :: "('h, 'c) udp_listen \<Rightarrow> nat" where
  "work_left l = 2 * length (ud_missed (ul_sys l)) + length (ud_found (ul_sys l)) + ul_workers l"

text \<open>Once the context is done, some step brings the workers nearer to their end, and changes nothing else of
  the shutdown.\<close>

lemma worker_progress:
  assumes "ul_done l" "ul_workers l \<noteq> 0"
  shows "\<exists>l'. listen_step parse H l l' \<and> work_left l' < work_left l \<and> ul_phase l' = ul_phase l \<and> ul_done l' \<and> ul_reading l' = ul_reading l"
proof (cases "ud_missed (ul_sys l)")
  case (Cons p ps)
  obtain a data where p: "p = (a, data)" by (cases p)
  obtain r sm where c: "sm_create a (udp_TargetAddress (ud_config (ul_sys l))) None None [] 0 (ud_sm (ul_sys l)) = (r, sm)"
    by (cases "sm_create a (udp_TargetAddress (ud_config (ul_sys l))) None None [] 0 (ud_sm (ul_sys l))")
  let ?ev = "Creates a data None None [] 0"
  obtain t where t: "udp_exec parse H ?ev (ul_sys l) = Some t"
    "2 * length (ud_missed t) + length (ud_found t) < 2 * length (ud_missed (ul_sys l)) + length (ud_found (ul_sys l))"
    using c Cons p by (cases r) (auto simp: split: prod.splits)
  from listen_step.work [OF _ t(1)] t(2) assms(1) show ?thesis
    by (intro exI [of _ "l\<lparr>ul_sys := settle (ul_done l) t\<rparr>"]) (simp add: work_left_def)
next
  case Nil
  show ?thesis
  proof (cases "ud_found (ul_sys l)")
    case (Cons p ps)
    obtain ref isNew data where p: "p = (ref, isNew, data)" by (cases p)
    let ?t = "packet_found parse H ref isNew data ((ul_sys l)\<lparr>ud_found := ps\<rparr>)"
    have t: "udp_exec parse H (Processes ref isNew data) (ul_sys l) = Some ?t" using Cons p by simp
    have "length (ud_missed ?t) = 0" "length (ud_found ?t) = length ps"
      using Nil by (simp_all add: packet_found_def Let_def)
    with listen_step.work [OF _ t] Cons Nil assms(1) show ?thesis
      by (intro exI [of _ "l\<lparr>ul_sys := settle (ul_done l) ?t\<rparr>"]) (simp add: work_left_def)
  next
    case Nil': Nil
    with Nil have "busy (ul_sys l) < ul_workers l" using assms(2) by (simp add: busy_def)
    then have "listen_step parse H l (l\<lparr>ul_workers := ul_workers l - 1\<rparr>)" using assms(1) by (blast intro: listen_step.worker_returns)
    then show ?thesis using assms by (intro exI) (auto simp: work_left_def)
  qed
qed

text \<open>The last step.\<close>

lemma drain_returns:
  assumes "listen_inv l" "ul_phase l = Draining c"
  shows "\<exists>e sm. listen_step parse H l (l\<lparr>ul_sys := (ul_sys l)\<lparr>ud_sm := sm\<rparr>, ul_phase := Returned e\<rparr>)"
proof -
  let ?sm = "ud_sm (ul_sys l)"
  have m: "go_map (sm_sessions ?sm)" using assms(1) by (simp add: inv_defs)
  obtain e sm where d: "DrainAll H c True (sm_sessions ?sm) ?sm = (e, sm)" by (cases "DrainAll H c True (sm_sessions ?sm) ?sm")
  from listen_step.drain_returns [OF assms(2) _ m refl d] show ?thesis by blast
qed

text \<open>What is left before \<^verbatim>\<open>Listen\<close> returns, and the step that makes it less in each phase.\<close>

fun phases_left :: "udp_phase \<Rightarrow> nat" where
  "phases_left Serving = 4"
| "phases_left ClosingListener = 3"
| "phases_left StoppingWorkers = 2"
| "phases_left (Draining c) = 1"
| "phases_left (Returned e) = 0"

definition listen_left :: "('h, 'c) udp_listen \<Rightarrow> nat" where
  "listen_left l = phases_left (ul_phase l) + (if ul_reading l then 1 else 0) + work_left l"

lemma nearer:
  "listen_step parse H l l' \<Longrightarrow> ul_done l' \<Longrightarrow> listen_left l' < listen_left l \<Longrightarrow>
   \<exists>l'. listen_step parse H l l' \<and> ul_done l' \<and> listen_left l' < listen_left l"
  by blast

lemma listen_progress:
  assumes "listen_inv l" "ul_done l" "\<nexists>e. ul_phase l = Returned e"
  shows "\<exists>l'. listen_step parse H l l' \<and> ul_done l' \<and> listen_left l' < listen_left l"
proof (cases "ul_phase l")
  case Serving
  from listen_step.close_listener [OF this assms(2), of parse H] show ?thesis
    by (rule nearer) (use assms(2) Serving in \<open>simp_all add: listen_left_def work_left_def\<close>)
next
  case ClosingListener
  show ?thesis
  proof (cases "ul_reading l")
    case True
    from listen_step.read_loop_returns [OF assms(2) this, of parse H] show ?thesis
      by (rule nearer) (use assms(2) True in \<open>simp_all add: listen_left_def work_left_def\<close>)
  next
    case False
    from listen_step.close_channel [OF ClosingListener this, of parse H] show ?thesis
      by (rule nearer) (use assms(2) ClosingListener in \<open>simp_all add: listen_left_def work_left_def\<close>)
  qed
next
  case StoppingWorkers
  show ?thesis
  proof (cases "ul_workers l = 0")
    case True
    from listen_step.workers_done [OF StoppingWorkers this, of parse H] show ?thesis
      by (rule nearer) (use assms(2) StoppingWorkers in \<open>simp_all add: listen_left_def work_left_def\<close>)
  next
    case False
    from worker_progress [OF assms(2) this, of parse H] show ?thesis by (force simp: listen_left_def)
  qed
next
  case (Draining c)
  from drain_returns [OF assms(1) this, of parse H] obtain e sm where
    "listen_step parse H l (l\<lparr>ul_sys := (ul_sys l)\<lparr>ud_sm := sm\<rparr>, ul_phase := Returned e\<rparr>)" by blast
  then show ?thesis by (rule nearer) (use assms(2) Draining in \<open>simp_all add: listen_left_def work_left_def\<close>)
qed (use assms(3) in blast)

interpretation listen_exit: progress "listen_step parse H" "\<lambda>l. listen_inv l \<and> ul_done l"
    "\<lambda>l. \<exists>e. ul_phase l = Returned e" listen_left for parse H
proof
  fix l :: "('a, 'b) udp_listen"
  assume "listen_inv l \<and> ul_done l" "\<nexists>e. ul_phase l = Returned e"
  with listen_progress [of l parse H] listen_inv_step [of parse H l]
  show "\<exists>l'. listen_step parse H l l' \<and> (listen_inv l' \<and> ul_done l') \<and> listen_left l' < listen_left l" by blast
qed

lemma listen_returns:
  assumes "listen_inv l" and "ul_done l"
  shows "\<exists>l' e. (listen_step parse H)\<^sup>*\<^sup>* l l' \<and> ul_phase l' = Returned e"
  using listen_exit.goal_reachable [of l parse H] assms by blast

text \<open>The small server of \<open>one_session\<close>, started.\<close>

definition one_listen :: "(string list \<times> unit, unit) udp_listen" where
  "one_listen = \<lparr>ul_sys = one_start, ul_done = False, ul_reading = True, ul_workers = nat (udp_WorkerPoolSize (ud_config one_start)),
     ul_drained = False, ul_phase = Serving\<rparr>"

lemma one_listen_reach:
  "reach listen_init (listen_step parse H) (one_listen\<lparr>ul_done := True, ul_sys := settle True one_start\<rparr>)"
proof -
  have "udp_init one_start"
    by (auto simp: udp_init_def one_start_def udp_New_def udp_defaults_def one_session_def wrap64_def Let_def
      DefaultWorkerPoolSize_def intro!: exI [of _ one_session])
  then have "reach listen_init (listen_step parse H) one_listen"
    by (intro reach_init) (simp add: listen_init_def one_listen_def)
  from reach_step [OF this listen_step.ctx_done] show ?thesis by (simp add: one_listen_def)
qed

section \<open>Properties\<close>

text \<open>C11 (safety). The shutdown of the UDP server, under every interleaving of the read loop, the workers,
  the readers, the cleaner and the statements of \<^verbatim>\<open>Listen\<close>: at no time are more packets in
  progress than there are workers, once the channel is closed the read loop does not send on
  it any more, and when \<^verbatim>\<open>Listen\<close> has returned no worker holds a packet and no session is
  tracked, whether the sessions drained or were closed by force.\<close>

theorem udp_shutdown:
  assumes "reach listen_init (listen_step parse H) l"
  shows "busy (ul_sys l) \<le> nat (udp_WorkerPoolSize (ud_config (ul_sys l)))
    \<and> (ul_phase l \<noteq> Serving \<longrightarrow> ul_phase l \<noteq> ClosingListener \<longrightarrow> \<not> may_happen (Arrives a data) l)
    \<and> (\<forall>e. ul_phase l = Returned e \<longrightarrow> busy (ul_sys l) = 0 \<and> sm_Count (ud_sm (ul_sys l)) = 0)"
  using listen_machine.reach_inv [OF assms]
  by (auto simp: listen_inv_def channel_closed_def pool_stopped_def sm_Count_0)

lemma udp_shutdown_witness:
  "\<exists>l e. reach listen_init (listen_step plain_parse (logged (NoopHandler :: (unit, unit) Handler))) l
     \<and> ul_phase l = Returned e \<and> busy (ul_sys l) = 0 \<and> sm_Count (ud_sm (ul_sys l)) = 0"
proof -
  let ?l = "one_listen\<lparr>ul_done := True, ul_sys := settle True one_start\<rparr>"
  let ?H = "logged (NoopHandler :: (unit, unit) Handler)"
  have r: "reach listen_init (listen_step plain_parse ?H) ?l" by (rule one_listen_reach)
  obtain l e where l: "(listen_step plain_parse ?H)\<^sup>*\<^sup>* ?l l" "ul_phase l = Returned e"
    using listen_returns [OF listen_machine.reach_inv [OF r], of plain_parse ?H] by auto
  from udp_shutdown [OF reach_star [OF r l(1)]] l show ?thesis using reach_star [OF r l(1)] by blast
qed

text \<open>The shutdown is never stuck: in every state that is reached, once the context is
  done the goroutines can go on until \<^verbatim>\<open>Listen\<close> returns.\<close>

lemma udp_listen_can_return:
  assumes "reach listen_init (listen_step parse H) l" "ul_done l"
  shows "\<exists>l' e. (listen_step parse H)\<^sup>*\<^sup>* l l' \<and> ul_phase l' = Returned e"
  by (rule listen_returns [OF listen_machine.reach_inv [OF assms(1)] assms(2)])

lemma udp_listen_can_return_witness:
  "\<exists>l' e. (listen_step plain_parse (logged (NoopHandler :: (unit, unit) Handler)))\<^sup>*\<^sup>*
     (one_listen\<lparr>ul_done := True, ul_sys := settle True one_start\<rparr>) l' \<and> ul_phase l' = Returned e"
  using udp_listen_can_return [OF one_listen_reach] by simp

text \<open>A negative session timeout passes \<^verbatim>\<open>New\<close> and makes the cleanup goroutine panic.\<close>

lemma negative_timeout_panics: "timeout < 0 \<Longrightarrow> Cleanup_ticker timeout = None"
  by (simp add: Cleanup_ticker_def trunc_div_def Let_def mult_nonneg_nonneg sgn_if pos_imp_zdiv_nonneg_iff)

end
