(* ===== verification/Lifecycle.thy ===== *)
theory Lifecycle
  imports Production UdpListen
begin

text \<open>
  The lives of the two main programs (\<^verbatim>\<open>src/cmd/main.go\<close>, \<^verbatim>\<open>src/cmd/production/main.go\<close>): the
  proxies they run, the signal, and the end of the process. What \<^verbatim>\<open>Listen\<close> of a proxy may
  return is a relation, made of the steps of its server. The error group
  (\<^verbatim>\<open>golang.org/x/sync/errgroup\<close>) is a parameter: what \<^verbatim>\<open>Wait\<close> returns and whether the
  derived context is done, as functions of the results so far; \<open>errgroup_documented\<close> is what
  its documentation says of them. Shown: the proxies stop together, on a signal or on the
  first failure and for no other reason, the process comes to its end, and what it reports.
\<close>

section \<open>Definitions\<close>

subsection \<open>Listen\<close>

definition tcp_start :: "tcp_Config \<times> nat option \<Rightarrow> tcp_sys" where
  "tcp_start s = \<lparr>ts_config = fst s, ts_cap = snd s, ts_sem = 0, ts_accepting = False, ts_active = 0, ts_leaving = 0, ts_rejected = 0, ts_phase = TcpServer.Serving\<rparr>"

inductive tcp_Listen :: "tcp_Config \<times> nat option \<Rightarrow> bool \<Rightarrow> err option \<Rightarrow> bool" where
  fails: "tcp_open (fst s) (Some l) = Some e \<Longrightarrow> tcp_Listen s ctx_done (Some e)"
| stops: "tcp_open (fst s) None = None \<Longrightarrow> tcp_step\<^sup>*\<^sup>* (tcp_start s) t \<Longrightarrow> ts_phase t = Stopped e \<Longrightarrow> tcp_Listen s True e"

definition udp_start :: "('h, 'c) udp_sys \<Rightarrow> ('h, 'c) udp_listen" where
  "udp_start s = \<lparr>ul_sys = s, ul_done = False, ul_reading = True, ul_workers = nat (udp_WorkerPoolSize (ud_config s)),
     ul_drained = False, ul_phase = UdpListen.Serving\<rparr>"

inductive udp_Listen :: "(bytes, bytes list, 'h, 'c) parser \<Rightarrow> ('h, 'c) Handler \<Rightarrow> ('h, 'c) udp_sys \<Rightarrow> bool \<Rightarrow> err option \<Rightarrow> bool"
  for parse H where
  fails: "udp_open (ud_config s) resolve listen rb wb = Inl e \<Longrightarrow> udp_Listen parse H s ctx_done (Some e)"
| stops: "udp_open (ud_config s) None None rb wb = Inr warnings \<Longrightarrow> (listen_step parse H)\<^sup>*\<^sup>* (udp_start s) l \<Longrightarrow>
     ul_phase l = Returned e \<Longrightarrow> udp_Listen parse H s True e"

text \<open>\<^verbatim>\<open>Listen\<close> of the four proxies: the flag says whether the context is done when it returns.\<close>

inductive proxy_Listen :: "(bytes, bytes list, 'h, 'c) parser \<Rightarrow> ('h, 'c) Handler \<Rightarrow> ('h, 'c) proxy \<Rightarrow> bool \<Rightarrow> err option \<Rightarrow> bool"
  for parse H where
  mqtt: "tcp_Listen s ctx_done e \<Longrightarrow> proxy_Listen parse H (MQTTProxy s) ctx_done e"
| coap: "udp_Listen parse H s ctx_done e \<Longrightarrow> proxy_Listen parse H (CoAPProxy s) ctx_done e"
| http: "he_cancelled v \<longrightarrow> ctx_done \<Longrightarrow> http_Listen v p = e \<Longrightarrow> proxy_Listen parse H (HTTPProxy p) ctx_done e"
| ws: "he_cancelled v \<longrightarrow> ctx_done \<Longrightarrow> ws_Listen v p = e \<Longrightarrow> proxy_Listen parse H (WebSocketProxy p) ctx_done e"

subsection \<open>The error group\<close>

text \<open>Both functions take the number of calls of \<^verbatim>\<open>Go\<close> and the results in the order of the
  returns; \<open>None\<close> of \<open>eg_Wait\<close> is that it blocks.\<close>

record errgroup =
  eg_Wait :: "nat \<Rightarrow> err option list \<Rightarrow> err option option"
  eg_Done :: "nat \<Rightarrow> err option list \<Rightarrow> bool"

fun first_error :: "err option list \<Rightarrow> err option" where
  "first_error [] = None"
| "first_error (None # rs) = first_error rs"
| "first_error (Some e # rs) = Some e"

text \<open>\<^verbatim>\<open>Wait\<close> blocks until all function calls from the \<^verbatim>\<open>Go\<close> method have returned, then returns the
  first non-nil error from them; the derived context is cancelled the first time a function returns
  a non-nil error or the first time \<^verbatim>\<open>Wait\<close> returns.\<close>

definition errgroup_documented :: "errgroup \<Rightarrow> bool" where
  "errgroup_documented G \<longleftrightarrow> (\<forall>n rs.
     (length rs < n \<longrightarrow> eg_Wait G n rs = None) \<and> (length rs = n \<longrightarrow> eg_Wait G n rs = Some (first_error rs))
     \<and> ((\<exists>e. Some e \<in> set rs) \<longrightarrow> eg_Done G n rs) \<and> (eg_Done G n rs \<longrightarrow> (\<exists>e. Some e \<in> set rs) \<or> eg_Wait G n rs \<noteq> None))"

subsection \<open>The reference server\<close>

record ('h, 'c) main_sys =
  mn_started :: "('h, 'c) proxy list"
  mn_running :: "('h, 'c) proxy list"
  mn_handler :: bool
  mn_results :: "err option list"
  mn_cancelled :: bool
  mn_waited :: "err option option"

definition main_start :: "(string \<Rightarrow> err + url) \<Rightarrow> 'h \<Rightarrow> (string \<Rightarrow> proc_env) \<Rightarrow> ('h, 'c) main_sys" where
  "main_start url_Parse h env = (let ps = started (main_starts url_Parse h env) in
     \<lparr>mn_started = ps, mn_running = ps, mn_handler = True, mn_results = [], mn_cancelled = False, mn_waited = None\<rparr>)"

text \<open>The calls of \<^verbatim>\<open>Go\<close>: one per proxy and one for the signal handler.\<close>

definition go_calls :: "('h, 'c) main_sys \<Rightarrow> nat" where
  "go_calls m = Suc (length (mn_started m))"

definition main_ctx_done :: "errgroup \<Rightarrow> ('h, 'c) main_sys \<Rightarrow> bool" where
  "main_ctx_done G m \<longleftrightarrow> mn_cancelled m \<or> eg_Done G (go_calls m) (mn_results m)"

inductive main_step :: "errgroup \<Rightarrow> (bytes, bytes list, 'h, 'c) parser \<Rightarrow> ('h, 'c) Handler \<Rightarrow> ('h, 'c) main_sys \<Rightarrow> ('h, 'c) main_sys \<Rightarrow> bool"
  for G parse H where
  proxy_returns: "p \<in> set (mn_running m) \<Longrightarrow> proxy_Listen parse H p (main_ctx_done G m) e \<Longrightarrow>
     main_step G parse H m (m\<lparr>mn_running := remove1 p (mn_running m), mn_results := mn_results m @ [e]\<rparr>)"
| signal: "mn_handler m \<Longrightarrow> StopSignalHandler True = (e, cancel) \<Longrightarrow>
     main_step G parse H m (m\<lparr>mn_handler := False, mn_cancelled := mn_cancelled m \<or> cancel, mn_results := mn_results m @ [e]\<rparr>)"
| handler_ends: "mn_handler m \<Longrightarrow> main_ctx_done G m \<Longrightarrow> StopSignalHandler False = (e, cancel) \<Longrightarrow>
     main_step G parse H m (m\<lparr>mn_handler := False, mn_cancelled := mn_cancelled m \<or> cancel, mn_results := mn_results m @ [e]\<rparr>)"
| wait_returns: "mn_waited m = None \<Longrightarrow> eg_Wait G (go_calls m) (mn_results m) = Some e \<Longrightarrow>
     main_step G parse H m (m\<lparr>mn_waited := Some e\<rparr>)"

definition main_init :: "('h, 'c) main_sys \<Rightarrow> bool" where
  "main_init m \<longleftrightarrow> (\<exists>url_Parse h env. m = main_start url_Parse h env)"

text \<open>The last message of \<^verbatim>\<open>main\<close>.\<close>

fun main_report :: "err option \<Rightarrow> string" where
  "main_report (Some e) = ''mProxy service terminated with error: '' @ Error e"
| "main_report None = ''mProxy service stopped''"

subsection \<open>The production server\<close>

datatype prod_phase = Waiting | Stopping | Exited main_end

record prod_sys =
  ps_server :: "tcp_Config \<times> nat option"
  ps_results :: "err option list"
  ps_signalled :: bool
  ps_cancelled :: bool
  ps_phase :: prod_phase

definition prod_init :: "prod_sys \<Rightarrow> bool" where
  "prod_init s \<longleftrightarrow> (\<exists>parsed cfg srv. load_config parsed = Inr cfg \<and> production_server cfg = Some srv
     \<and> s = \<lparr>ps_server = srv, ps_results = [], ps_signalled = False, ps_cancelled = False, ps_phase = Waiting\<rparr>)"

text \<open>One call of \<^verbatim>\<open>Go\<close>; \<^verbatim>\<open>NewMQTT\<close> returns no error.\<close>

definition prod_ctx_done :: "errgroup \<Rightarrow> prod_sys \<Rightarrow> bool" where
  "prod_ctx_done G s \<longleftrightarrow> ps_cancelled s \<or> eg_Done G 1 (ps_results s)"

inductive prod_step :: "errgroup \<Rightarrow> prod_sys \<Rightarrow> prod_sys \<Rightarrow> bool" for G where
  proxy_returns: "ps_results s = [] \<Longrightarrow> \<nexists>x. ps_phase s = Exited x \<Longrightarrow> tcp_Listen (ps_server s) (prod_ctx_done G s) e \<Longrightarrow>
     prod_step G s (s\<lparr>ps_results := [e]\<rparr>)"
| signal: "ps_phase s = Waiting \<Longrightarrow> prod_step G s (s\<lparr>ps_signalled := True, ps_cancelled := True, ps_phase := Stopping\<rparr>)"
| ctx_done: "ps_phase s = Waiting \<Longrightarrow> prod_ctx_done G s \<Longrightarrow> prod_step G s (s\<lparr>ps_cancelled := True, ps_phase := Stopping\<rparr>)"
| group_done: "ps_phase s = Stopping \<Longrightarrow> eg_Wait G 1 (ps_results s) = Some e \<Longrightarrow> prod_step G s (s\<lparr>ps_phase := Exited (GroupDone e)\<rparr>)"
| timed_out: "ps_phase s = Stopping \<Longrightarrow> prod_step G s (s\<lparr>ps_phase := Exited ShutdownTimedOut\<rparr>)"

section \<open>What Listen may return\<close>

inductive_cases tcp_Listen_cases: "tcp_Listen s d e"
inductive_cases udp_Listen_cases: "udp_Listen parse H s d e"
inductive_cases proxy_Listen_cases: "proxy_Listen parse H p d e"

lemma tcp_start_init: "snd s = snd (tcp_New cfg) \<Longrightarrow> fst s = fst (tcp_New cfg) \<Longrightarrow> tcp_init (tcp_start s)"
  by (auto simp: tcp_init_def tcp_start_def)

text \<open>A server on a socket returns without being told to only when it cannot listen.\<close>

lemma tcp_Listen_early: "tcp_Listen s False e \<Longrightarrow> e \<noteq> None"
  by (auto elim: tcp_Listen_cases)

lemma udp_Listen_early: "udp_Listen parse H s False e \<Longrightarrow> e \<noteq> None"
  by (auto elim: udp_Listen_cases)

lemma tcp_stops: "tcp_Listen s True None"
proof -
  let ?s = "tcp_start s"
  have "tcp_step ?s (?s\<lparr>ts_phase := Closing\<rparr>)" by (rule tcp_step.ctx_cancelled) (simp add: tcp_start_def)
  moreover have "tcp_step (?s\<lparr>ts_phase := Closing\<rparr>) (?s\<lparr>ts_phase := TcpServer.Draining\<rparr>)"
    using tcp_step.accept_done [of "?s\<lparr>ts_phase := Closing\<rparr>"] by (simp add: tcp_start_def)
  moreover have "tcp_step (?s\<lparr>ts_phase := TcpServer.Draining\<rparr>) (?s\<lparr>ts_phase := Stopped None\<rparr>)"
    using tcp_step.drained [of "?s\<lparr>ts_phase := TcpServer.Draining\<rparr>"] by (simp add: tcp_start_def)
  ultimately have "tcp_step\<^sup>*\<^sup>* ?s (?s\<lparr>ts_phase := Stopped None\<rparr>)" by (rule converse_rtranclp_into_rtranclp [OF _ converse_rtranclp_into_rtranclp [OF _ r_into_rtranclp]])
  then show ?thesis using tcp_Listen.stops [of s "?s\<lparr>ts_phase := Stopped None\<rparr>" None] by (simp add: tcp_open_def)
qed

lemma udp_can_stop:
  assumes "udp_init s"
  shows "\<exists>e. udp_Listen parse H s True e"
proof -
  have i: "listen_init (udp_start s)" using assms by (simp add: listen_init_def udp_start_def)
  let ?l = "(udp_start s)\<lparr>ul_done := True, ul_sys := settle True (ul_sys (udp_start s))\<rparr>"
  have st: "listen_step parse H (udp_start s) ?l" by (rule listen_step.ctx_done)
  have "listen_inv ?l" using listen_machine.inv_step [OF listen_machine.inv_init [OF i] st] .
  then obtain l e where l: "(listen_step parse H)\<^sup>*\<^sup>* ?l l" "ul_phase l = Returned e" using listen_returns [of ?l parse H] by auto
  have "(listen_step parse H)\<^sup>*\<^sup>* (udp_start s) l" using converse_rtranclp_into_rtranclp [OF st l(1)] .
  then show ?thesis using udp_Listen.stops [of s None None "[]", OF _ _ l(2)] by (auto simp: udp_open_def)
qed

lemma http_can_stop: "\<exists>v. he_cancelled v \<and> http_Listen v p = None"
  by (rule exI [of _ "\<lparr>he_cancelled = True, he_serve = (\<lambda>_ _. EOF), he_Shutdown = (\<lambda>_. None)\<rparr>"]) (simp add: http_Listen_def)

fun well_made :: "('h, 'c) proxy \<Rightarrow> bool" where
  "well_made (CoAPProxy s) = udp_init s"
| "well_made _ = True"

lemma proxy_can_stop: "well_made p \<Longrightarrow> \<exists>e. proxy_Listen parse H p True e"
proof (cases p)
  case (MQTTProxy s)
  then show ?thesis using tcp_stops [of s] by (auto intro: proxy_Listen.mqtt)
next
  case (CoAPProxy s)
  moreover assume "well_made p"
  ultimately show ?thesis using udp_can_stop [of s parse H] by (auto intro: proxy_Listen.coap)
next
  case (HTTPProxy q)
  then show ?thesis using http_can_stop [of q] by (auto intro: proxy_Listen.http)
next
  case (WebSocketProxy q)
  then show ?thesis using http_can_stop [of q] by (auto simp: ws_Listen_http [symmetric] intro: proxy_Listen.ws)
qed

text \<open>The proxies with a server of this repository; the others run Go's HTTP server.\<close>

fun on_socket :: "('h, 'c) proxy \<Rightarrow> bool" where
  "on_socket (MQTTProxy s) = True"
| "on_socket (CoAPProxy s) = True"
| "on_socket _ = False"

lemma proxy_Listen_early: "proxy_Listen parse H p False None \<Longrightarrow> \<not> on_socket p"
  by (auto elim!: proxy_Listen_cases dest: tcp_Listen_early udp_Listen_early)

lemma NewCoAP_init: "NewCoAP cfg h = Some s \<Longrightarrow> udp_init s"
  unfolding NewCoAP_def udp_init_def by blast

lemma started_well_made: "p \<in> set (started (main_starts url_Parse h env)) \<Longrightarrow> well_made p"
proof -
  have "startCoAPProxy h env q = Started p \<Longrightarrow> well_made p" for q
    by (auto simp: startCoAPProxy_def split: sum.splits option.splits intro: NewCoAP_init)
  moreover have "startMQTTProxy env q = Started p \<Longrightarrow> well_made p" "startWebSocketProxy env q = Started p \<Longrightarrow> well_made p"
    "startHTTPProxy url_Parse env q = Started p \<Longrightarrow> well_made p" for q
    by (auto simp: startMQTTProxy_def startWebSocketProxy_def startHTTPProxy_def Let_def split: sum.splits)
  moreover assume "p \<in> set (started (main_starts url_Parse h env))"
  ultimately show ?thesis unfolding started_set main_starts_def by auto
qed

section \<open>The reference server\<close>

definition main_inv :: "errgroup \<Rightarrow> ('h, 'c) main_sys \<Rightarrow> bool" where
  [inv_defs]: "main_inv G m \<longleftrightarrow> length (mn_results m) + length (mn_running m) + (if mn_handler m then 1 else 0) = go_calls m
     \<and> (\<forall>e. mn_waited m = Some e \<longrightarrow> mn_running m = [] \<and> \<not> mn_handler m \<and> e = first_error (mn_results m))
     \<and> (\<not> main_ctx_done G m \<longrightarrow> mn_handler m \<and> set (mn_results m) \<subseteq> {None}
          \<and> filter on_socket (mn_running m) = filter on_socket (mn_started m))
     \<and> (mn_cancelled m \<longrightarrow> \<not> mn_handler m)
     \<and> (\<not> mn_handler m \<longrightarrow> mn_cancelled m \<or> (\<exists>x. Some x \<in> set (mn_results m))) \<and> (\<forall>p \<in> set (mn_running m). well_made p)"

text \<open>A task that has returned: the group only learns of one result more.\<close>

lemma group_facts:
  assumes "errgroup_documented G"
  shows "eg_Wait G n rs = Some e \<Longrightarrow> length rs \<le> n \<Longrightarrow> length rs = n \<and> e = first_error rs"
    and "Some x \<in> set rs \<Longrightarrow> eg_Done G n rs"
    and "eg_Done G n rs \<Longrightarrow> length rs < n \<Longrightarrow> eg_Done G n (rs @ [r])"
    and "eg_Done G n rs \<Longrightarrow> length rs < n \<Longrightarrow> \<exists>x. Some x \<in> set rs"
proof -
  note doc = assms [unfolded errgroup_documented_def, rule_format, of rs n]
  show "length rs = n \<and> e = first_error rs" if "eg_Wait G n rs = Some e" "length rs \<le> n"
    using doc that by (cases "length rs = n") simp_all
  show done_if: "eg_Done G n rs" if "Some x \<in> set rs" for x rs
    using assms [unfolded errgroup_documented_def, rule_format, of rs n] that by blast
  show "eg_Done G n (rs @ [r])" if "eg_Done G n rs" "length rs < n"
    using doc that done_if [of _ "rs @ [r]"] by auto
  show "\<exists>x. Some x \<in> set rs" if "eg_Done G n rs" "length rs < n"
    using doc that by auto
qed

lemma ctx_stays_done:
  assumes "errgroup_documented G" "main_inv G m" "main_ctx_done G m" "main_step G parse H m m'"
  shows "main_ctx_done G m'"
  using assms(4,2,3)
proof (induction rule: main_step.induct)
  case (proxy_returns p m e)
  have "length (mn_results m) < go_calls m" using proxy_returns by (cases "mn_running m") (auto simp: main_inv_def)
  then show ?case using proxy_returns.prems(2) group_facts(3) [OF assms(1)] by (auto simp: main_ctx_done_def go_calls_def)
next
  case (signal m e cancel)
  then show ?case by (auto simp: main_ctx_done_def StopSignalHandler_def)
next
  case (handler_ends m e cancel)
  have "length (mn_results m) < go_calls m" using handler_ends by (auto simp: main_inv_def)
  then show ?case using handler_ends.prems(2) group_facts(3) [OF assms(1)] by (auto simp: main_ctx_done_def go_calls_def)
next
  case (wait_returns m e)
  then show ?case by (simp add: main_ctx_done_def go_calls_def)
qed

lemma filter_remove1: "\<not> P x \<Longrightarrow> filter P (remove1 x xs) = filter P xs"
  by (induction xs) auto

lemma remove1_length: "x \<in> set xs \<Longrightarrow> Suc (length (remove1 x xs)) = length xs"
  by (simp add: length_remove1) (metis Suc_pred length_pos_if_in_set)

lemma main_inv_proxy:
  assumes "errgroup_documented G" "main_inv G m" "p \<in> set (mn_running m)" "proxy_Listen parse H p (main_ctx_done G m) e"
  shows "main_inv G (m\<lparr>mn_running := remove1 p (mn_running m), mn_results := mn_results m @ [e]\<rparr>)" (is "main_inv G ?m")
proof -
  have st: "main_step G parse H m ?m" by (rule main_step.proxy_returns [OF assms(3,4)])
  have early: "e = None \<and> \<not> on_socket p \<and> \<not> main_ctx_done G m" if "\<not> main_ctx_done G ?m"
  proof -
    have nd: "\<not> main_ctx_done G m" using ctx_stays_done [OF assms(1,2) _ st] that by blast
    have "Some x \<notin> set (mn_results m @ [e])" for x using that group_facts(2) [OF assms(1), of x "mn_results m @ [e]" "go_calls ?m"]
      by (auto simp: main_ctx_done_def)
    then have "e = None" by (cases e) auto
    then show ?thesis using proxy_Listen_early [of parse H p] assms(4) nd by simp
  qed
  have "mn_waited m = None" using assms(2,3) by (cases "mn_waited m") (auto simp: main_inv_def)
  then show ?thesis using assms(2,3) early remove1_length [OF assms(3)] set_remove1_subset [of p "mn_running m"]
    by (auto simp: main_inv_def go_calls_def filter_remove1)
qed

text \<open>The context is done because of a signal or a failure.\<close>

lemma done_because:
  assumes "errgroup_documented G" "main_inv G m" "main_ctx_done G m"
  shows "mn_cancelled m \<or> (\<exists>x. Some x \<in> set (mn_results m))"
proof (cases "mn_handler m")
  case True
  then have "length (mn_results m) < go_calls m" using assms(2) by (simp add: main_inv_def)
  then show ?thesis using group_facts(4) [OF assms(1)] assms(3) by (auto simp: main_ctx_done_def)
qed (use assms(2) in \<open>auto simp: main_inv_def\<close>)

lemma main_inv_handler:
  assumes "errgroup_documented G" "main_inv G m" "mn_handler m" "cancel \<or> main_ctx_done G m"
  shows "main_inv G (m\<lparr>mn_handler := False, mn_cancelled := mn_cancelled m \<or> cancel, mn_results := mn_results m @ [None]\<rparr>)"
    (is "main_inv G ?m")
proof -
  have "length (mn_results m) < go_calls m" using assms(2,3) by (auto simp: main_inv_def)
  then have "main_ctx_done G ?m" using assms(4) group_facts(3) [OF assms(1)] by (auto simp: main_ctx_done_def go_calls_def)
  moreover have "mn_waited m = None" using assms(2,3) by (cases "mn_waited m") (auto simp: main_inv_def)
  moreover have "mn_cancelled m \<or> cancel \<or> (\<exists>x. Some x \<in> set (mn_results m))"
    using done_because [OF assms(1,2)] assms(4) by blast
  ultimately show ?thesis using assms(2,3) by (auto simp: main_inv_def go_calls_def)
qed

lemma main_inv_step:
  assumes "errgroup_documented G" "main_step G parse H m m'" "main_inv G m"
  shows "main_inv G m'"
  using assms(2,3)
proof (induction rule: main_step.induct)
  case (proxy_returns p m e)
  then show ?case using main_inv_proxy [OF assms(1)] by blast
next
  case (signal m e cancel)
  then show ?case using main_inv_handler [OF assms(1), of m cancel] by (auto simp: StopSignalHandler_def)
next
  case (handler_ends m e cancel)
  then show ?case using main_inv_handler [OF assms(1), of m cancel] by (auto simp: StopSignalHandler_def)
next
  case (wait_returns m e)
  then have "length (mn_results m) \<le> go_calls m" by (simp add: main_inv_def)
  from group_facts(1) [OF assms(1) wait_returns(2) this] wait_returns show ?case
    by (auto simp: main_inv_def main_ctx_done_def go_calls_def split: if_splits)
qed

interpretation main_machine: inv_system main_init "main_step G parse H" "\<lambda>m. errgroup_documented G \<longrightarrow> main_inv G m" for G parse H
proof
  show "main_init m \<Longrightarrow> errgroup_documented G \<longrightarrow> main_inv G m" for m
    by (auto simp: main_init_def main_start_def main_inv_def go_calls_def Let_def started_well_made)
  show "errgroup_documented G \<longrightarrow> main_inv G m \<Longrightarrow> main_step G parse H m m' \<Longrightarrow> errgroup_documented G \<longrightarrow> main_inv G m'" for m m'
    using main_inv_step by blast
qed

text \<open>Once the context is done, every step leads nearer to the end.\<close>

definition main_left :: "('h, 'c) main_sys \<Rightarrow> nat" where
  "main_left m = length (mn_running m) + (if mn_handler m then 1 else 0) + (if mn_waited m = None then 1 else 0)"

lemma main_descends: "main_step G parse H m m' \<Longrightarrow> main_left m' < main_left m"
  by (induction rule: main_step.induct) (auto simp: main_left_def dest!: remove1_length)

lemma main_moves:
  assumes "errgroup_documented G" "main_inv G m" "main_ctx_done G m" "mn_waited m = None"
  shows "\<exists>m'. main_step G parse H m m'"
proof (cases "mn_running m")
  case (Cons p ps)
  then obtain e where "proxy_Listen parse H p (main_ctx_done G m) e"
    using proxy_can_stop [of p parse H] assms(2,3) by (auto simp: main_inv_def)
  then show ?thesis using main_step.proxy_returns [of p m parse H G e] Cons by auto
next
  case Nil
  show ?thesis
  proof (cases "mn_handler m")
    case True
    from main_step.handler_ends [OF this assms(3)] show ?thesis by (auto simp: StopSignalHandler_def)
  next
    case False
    then have "eg_Wait G (go_calls m) (mn_results m) = Some (first_error (mn_results m))"
      using Nil assms(1,2) by (auto simp: main_inv_def errgroup_documented_def)
    from main_step.wait_returns [OF assms(4) this] show ?thesis by blast
  qed
qed

interpretation main_exit: winding_down "main_step G parse H" "\<lambda>m. errgroup_documented G \<and> main_inv G m \<and> main_ctx_done G m"
    "\<lambda>m. mn_waited m \<noteq> None" main_left for G parse H
proof (unfold_locales, goal_cases)
  case (1 m m')
  then show ?case using main_inv_step [of G parse H m m'] ctx_stays_done [of G m parse H m'] main_descends [of G parse H m m'] by blast
next
  case (2 m)
  then show ?case using main_moves [of G m parse H] by blast
qed

section \<open>The production server\<close>

definition prod_inv :: "errgroup \<Rightarrow> prod_sys \<Rightarrow> bool" where
  [inv_defs]: "prod_inv G s \<longleftrightarrow> length (ps_results s) \<le> 1
     \<and> (\<exists>cfg. ps_server s = NewMQTT cfg)
     \<and> (ps_phase s = Waiting \<longleftrightarrow> \<not> ps_cancelled s) \<and> (ps_signalled s \<longrightarrow> ps_cancelled s)
     \<and> (\<forall>e \<in> set (ps_results s). tcp_Listen (ps_server s) True e \<and> (e = None \<longrightarrow> ps_signalled s))
     \<and> (ps_cancelled s \<longrightarrow> ps_signalled s \<or> (\<exists>x. ps_results s = [Some x]))
     \<and> (\<forall>e. ps_phase s = Exited (GroupDone e) \<longrightarrow> ps_results s = [e])"

lemma tcp_Listen_done: "tcp_Listen s d e \<Longrightarrow> tcp_Listen s True e"
  by (auto elim!: tcp_Listen_cases intro: tcp_Listen.intros)

lemma prod_group:
  assumes "errgroup_documented G" "length (ps_results s) \<le> 1"
  shows "eg_Wait G 1 (ps_results s) = Some e \<Longrightarrow> ps_results s = [e]"
proof (cases "ps_results s")
  case (Cons r rs)
  then have rs: "ps_results s = [r]" using assms(2) by simp
  show "eg_Wait G 1 (ps_results s) = Some e \<Longrightarrow> ps_results s = [e]"
    using group_facts(1) [OF assms(1), of 1 "[r]" e] unfolding rs by (cases r) simp_all
qed (use group_facts(1) [OF assms(1), of 1 "[]" e] in simp)

lemma prod_done_early:
  assumes "errgroup_documented G" "prod_inv G s" "\<not> ps_cancelled s" "prod_ctx_done G s"
  shows "\<exists>x. ps_results s = [Some x]"
proof -
  from assms(3,4) have "eg_Done G 1 (ps_results s)" by (simp add: prod_ctx_done_def)
  then have "(\<exists>e. Some e \<in> set (ps_results s)) \<or> eg_Wait G 1 (ps_results s) \<noteq> None"
    using assms(1) unfolding errgroup_documented_def by blast
  then have "ps_results s \<noteq> []" using prod_group [OF assms(1), of s] by auto
  then obtain r where r: "ps_results s = [r]" using assms(2) by (cases "ps_results s") (auto simp: prod_inv_def)
  moreover have "r \<noteq> None" using assms(2,3) r by (auto simp: prod_inv_def)
  ultimately show ?thesis by auto
qed

lemma prod_inv_step:
  assumes "errgroup_documented G" "prod_step G s t" "prod_inv G s"
  shows "prod_inv G t"
  using assms(2,3)
proof (induction rule: prod_step.induct)
  case (proxy_returns s e)
  have "ps_signalled s" if "e = None"
  proof (rule ccontr)
    assume "\<not> ps_signalled s"
    with proxy_returns have "\<not> ps_cancelled s" by (auto simp: prod_inv_def)
    with prod_done_early [OF assms(1) proxy_returns.prems] proxy_returns.hyps(1) have "\<not> prod_ctx_done G s" by auto
    with proxy_returns.hyps(3) tcp_Listen_early [of "ps_server s" None] that show False by simp
  qed
  then show ?case using proxy_returns tcp_Listen_done by (auto simp: prod_inv_def)
next
  case (signal s)
  then show ?case by (auto simp: prod_inv_def)
next
  case (ctx_done s)
  then have "\<not> ps_cancelled s" by (simp add: prod_inv_def)
  from prod_done_early [OF assms(1) ctx_done.prems this ctx_done.hyps(2)] ctx_done show ?case by (auto simp: prod_inv_def)
next
  case (group_done s e)
  then show ?case using prod_group [OF assms(1), of s e] by (auto simp: prod_inv_def)
next
  case (timed_out s)
  then show ?case by (auto simp: prod_inv_def)
qed

interpretation prod_machine: inv_system prod_init "prod_step G" "\<lambda>s. errgroup_documented G \<longrightarrow> prod_inv G s" for G
proof
  show "prod_init s \<Longrightarrow> errgroup_documented G \<longrightarrow> prod_inv G s" for s
    by (auto simp: prod_init_def prod_inv_def production_server_def) (metis)
  show "errgroup_documented G \<longrightarrow> prod_inv G s \<Longrightarrow> prod_step G s t \<Longrightarrow> errgroup_documented G \<longrightarrow> prod_inv G t" for s t
    using prod_inv_step by blast
qed

fun prod_phases_left :: "prod_phase \<Rightarrow> nat" where
  "prod_phases_left Waiting = 2"
| "prod_phases_left Stopping = 1"
| "prod_phases_left (Exited x) = 0"

interpretation prod_exit: winding_down "prod_step G" "\<lambda>s. ps_phase s \<noteq> Waiting" "\<lambda>s. \<exists>x. ps_phase s = Exited x"
    "\<lambda>s. prod_phases_left (ps_phase s) + (1 - length (ps_results s))" for G
proof (unfold_locales, goal_cases)
  case (1 s t)
  from 1(2,1) show ?case by (induction rule: prod_step.induct) auto
next
  case (2 s)
  then have "ps_phase s = Stopping" by (cases "ps_phase s") auto
  from prod_step.timed_out [OF this] show ?case by blast
qed

section \<open>Properties\<close>

lemma results_grow: "main_step G parse H m m' \<Longrightarrow> set (mn_results m) \<subseteq> set (mn_results m')"
  by (induction rule: main_step.induct) auto

lemma results_grow_run: "(main_step G parse H ^^ n) m m' \<Longrightarrow> set (mn_results m) \<subseteq> set (mn_results m')"
  by (induction n arbitrary: m') (auto dest: results_grow)

lemma first_error_None: "first_error rs = None \<longleftrightarrow> (\<forall>x. Some x \<notin> set rs)"
  by (induction rs rule: first_error.induct) auto

text \<open>C14 (safety). The proxies of the reference server stop together and for a reason. Under every
  interleaving the shared context is done exactly when a signal has come or some proxy has
  returned an error; until then the signal handler waits and every MQTT and CoAP proxy that
  was started is running; and the process reports its end only when all of them have
  returned, with the first error there was.\<close>

theorem main_stops_together:
  assumes "errgroup_documented G" "reach main_init (main_step G parse H) m"
  shows "(main_ctx_done G m \<longleftrightarrow> mn_cancelled m \<or> (\<exists>x. Some x \<in> set (mn_results m)))
    \<and> (\<not> main_ctx_done G m \<longrightarrow> mn_handler m \<and> filter on_socket (mn_running m) = filter on_socket (mn_started m))
    \<and> (\<forall>e. mn_waited m = Some e \<longrightarrow> mn_running m = [] \<and> \<not> mn_handler m \<and> e = first_error (mn_results m))"
proof -
  have i: "main_inv G m" using main_machine.reach_inv [OF assms(2)] assms(1) by blast
  moreover have "main_ctx_done G m" if "mn_cancelled m \<or> (\<exists>x. Some x \<in> set (mn_results m))"
    using that group_facts(2) [OF assms(1)] by (auto simp: main_ctx_done_def)
  ultimately show ?thesis using done_because [OF assms(1) i] unfolding main_inv_def by blast
qed


text \<open>An error group as documented, and a process one of whose ports is taken.\<close>

definition sample_group :: errgroup where
  "sample_group = \<lparr>eg_Wait = (\<lambda>n rs. if length rs < n then None else Some (first_error rs)),
     eg_Done = (\<lambda>n rs. \<exists>r \<in> set rs. r \<noteq> None)\<rparr>"

lemma sample_group_ok: "errgroup_documented sample_group"
  by (auto simp: errgroup_documented_def sample_group_def)

abbreviation sample_step :: "(log, unit) main_sys \<Rightarrow> (log, unit) main_sys \<Rightarrow> bool" where
  "sample_step \<equiv> main_step sample_group plain_parse simple_Handler"

lemma port_taken: "\<exists>m x. reach main_init sample_step m \<and> mn_results m = [Some x] \<and> \<not> mn_cancelled m"
proof -
  let ?m = "main_start (\<lambda>u. Inl EOF) [] (\<lambda>p. sample_proc []) :: (log, unit) main_sys"
  have "\<exists>s. startMQTTProxy (\<lambda>p. sample_proc []) mqttWithoutTLS = (Started (MQTTProxy s) :: (log, unit) start)"
    using sample_proc_config [of "[]"] by (auto simp: startMQTTProxy_def choose_port_def mqtt_ports_def prefix_defs)
  then obtain s where "startMQTTProxy (\<lambda>p. sample_proc []) mqttWithoutTLS = (Started (MQTTProxy s) :: (log, unit) start)" by blast
  then have p: "MQTTProxy s \<in> set (mn_running ?m)"
    by (simp add: main_start_def started_set main_starts_def Let_def)
  have l: "proxy_Listen plain_parse simple_Handler (MQTTProxy s) (main_ctx_done sample_group ?m)
      (Some (Wrapf (''failed to listen on '' @ tcp_Address (fst s) @ '': '') EOF []))"
    by (intro proxy_Listen.mqtt tcp_Listen.fails [of s EOF]) (simp add: tcp_open_def)
  have "reach main_init sample_step ?m" by (rule reach_init) (auto simp: main_init_def)
  from reach_step [OF this, OF main_step.proxy_returns [OF p l]] show ?thesis
    by (intro exI conjI) (auto simp: main_start_def Let_def)
qed

theorem main_stops_together_witness:
  "\<exists>m. reach main_init sample_step m \<and> \<not> mn_cancelled m \<and> main_ctx_done sample_group m"
proof -
  obtain m x where m: "reach main_init sample_step m" "mn_results m = [Some x]" "\<not> mn_cancelled m" using port_taken by blast
  from main_stops_together [OF sample_group_ok m(1)] m show ?thesis by (intro exI [of _ m]) simp
qed

lemma main_final: "main_inv G m \<Longrightarrow> mn_waited m \<noteq> None \<Longrightarrow> \<not> main_step G parse H m u"
  by (auto simp: main_inv_def elim!: main_step.cases)



text \<open>The signal comes, the proxy drains, the process exits.\<close>

lemma production_run: "\<exists>s x. reach prod_init (prod_step sample_group) s \<and> ps_phase s = Exited x \<and> exit_status x = 0"
proof -
  have "production_server prod_defaults \<noteq> None"
    by (simp add: production_server_def mqttProxyConfig_def prod_defaults_def Let_def)
  then obtain srv where srv: "production_server prod_defaults = Some srv" by blast
  have ok: "load_config (Inr prod_defaults) = Inr prod_defaults" by (simp add: load_config_def)
  let ?s = "\<lparr>ps_server = srv, ps_results = [], ps_signalled = False, ps_cancelled = False, ps_phase = Waiting\<rparr>"
  let ?s1 = "?s\<lparr>ps_signalled := True, ps_cancelled := True, ps_phase := Stopping\<rparr>"
  have r: "reach prod_init (prod_step sample_group) ?s" using srv ok unfolding prod_init_def by (intro reach_init) blast
  have s1: "prod_step sample_group ?s ?s1" by (rule prod_step.signal) simp
  have "prod_ctx_done sample_group ?s1" by (simp add: prod_ctx_done_def)
  then have s2: "prod_step sample_group ?s1 (?s1\<lparr>ps_results := [None]\<rparr>)"
    using tcp_stops [of srv] by (intro prod_step.proxy_returns) simp_all
  have "prod_step sample_group (?s1\<lparr>ps_results := [None]\<rparr>) (?s1\<lparr>ps_results := [None], ps_phase := Exited (GroupDone None)\<rparr>)"
    using prod_step.group_done [of "?s1\<lparr>ps_results := [None]\<rparr>" sample_group None] by (simp add: sample_group_def)
  from reach_step [OF reach_step [OF reach_step [OF r, OF s1], OF s2], OF this] show ?thesis by (intro exI conjI) auto
qed


text \<open>The shutdown of the production server ends after at most two steps of the select.\<close>

lemma production_exits:
  assumes "(prod_step G ^^ n) s t" "ps_phase s \<noteq> Waiting"
  shows "n \<le> 2 \<and> ((\<nexists>u. prod_step G t u) \<longrightarrow> (\<exists>x. ps_phase t = Exited x))"
proof -
  have "prod_phases_left (ps_phase s) \<le> 1" using assms(2) by (cases "ps_phase s") simp_all
  then show ?thesis using prod_exit.run_bounded [OF assms] prod_exit.final_goal [OF assms] by auto
qed

end
