(* ===== verification/SessionSpec.thy ===== *)
theory SessionSpec
  imports UdpServer
begin

text \<open>
  What the session manager promises, without its store and pointers: a table from client
  addresses to the time of their last activity. The operations on the table are the
  specification, \<open>sm_table\<close> is the table a manager stands for, and each operation of
  \<^verbatim>\<open>src/pkg/server/udp/session.go\<close> is shown to do to it what the specification says. The locale
  \<open>session_table\<close> is what a client of the manager may rely on; in it, a client that keeps
  sending keeps its session.
\<close>

section \<open>Specification\<close>

type_synonym table = "string \<rightharpoonup> time"

definition spec_create :: "int \<Rightarrow> string \<Rightarrow> bool \<Rightarrow> time \<Rightarrow> table \<Rightarrow> bool \<times> table" where
  "spec_create limit a reachable now m = (
     if a \<in> dom m then (True, m(a \<mapsto> now))
     else if limit > 0 \<and> int (card (dom m)) \<ge> limit \<or> \<not> reachable then (False, m)
     else (True, m(a \<mapsto> now)))"

definition spec_cleanup :: "duration \<Rightarrow> time \<Rightarrow> table \<Rightarrow> table" where
  "spec_cleanup timeout now m = (\<lambda>a. case m a of Some t \<Rightarrow> if time_sub now t > timeout then None else Some t | None \<Rightarrow> None)"

lemma cleanup_dom: "dom (spec_cleanup timeout now m) \<subseteq> dom m"
  by (auto simp: spec_cleanup_def split: option.splits)

definition sm_table :: "('h, 'c) SessionManager \<Rightarrow> table" where
  "sm_table sm a = map_option (\<lambda>ref. GetLastActivity (sm_heap sm ! ref)) (sm_Get a sm)"

section \<open>Refinement\<close>

lemma table_cong:
  "sm_sessions sm' = sm_sessions sm \<Longrightarrow> (\<And>a ref. go_get (sm_sessions sm) a = Some ref \<Longrightarrow>
     ss_LastActivity (sm_heap sm' ! ref) = ss_LastActivity (sm_heap sm ! ref)) \<Longrightarrow> sm_table sm' = sm_table sm"
  by (auto simp: sm_table_def sm_Get_def GetLastActivity_def fun_eq_iff intro: option.map_cong0)

lemma table_dom: "dom (sm_table sm) = dom (go_get (sm_sessions sm))"
  by (auto simp: sm_table_def sm_Get_def)

lemma table_card: "sm_inv sm \<Longrightarrow> int (card (dom (sm_table sm))) = sm_Count sm"
  using distinct_card [of "map fst (sm_sessions sm)"]
  by (simp add: table_dom sm_inv_def go_map_def sm_Count_def dom_map_of_conv_image_fst)

lemma table_touch:
  assumes "sm_inv sm" "go_get (sm_sessions sm) a = Some ref"
  shows "sm_table (touch now ref sm) = (sm_table sm)(a \<mapsto> now)"
proof
  fix b
  show "sm_table (touch now ref sm) b = ((sm_table sm)(a \<mapsto> now)) b"
  proof (cases "go_get (sm_sessions sm) b")
    case None
    then show ?thesis using assms(2) by (auto simp: sm_table_def sm_Get_def touch_def)
  next
    case (Some r)
    have "r = ref \<longleftrightarrow> b = a" using sm_ref_inj [OF assms(1) Some, of a] assms(2) Some by auto
    then show ?thesis using Some sm_ref_bound [OF assms(1) Some]
      by (auto simp: sm_table_def sm_Get_def touch_def UpdateActivity_def GetLastActivity_def)
  qed
qed

lemma table_create:
  assumes "sm_inv sm" "GetOrCreate a target resolve dial sid now sm = (r, sm')"
  shows "(\<exists>x. r = Inr x, sm_table sm') = spec_create (sm_maxSessions sm) a (resolve = None \<and> dial = None) now (sm_table sm)"
proof (cases "go_get (sm_sessions sm) a")
  case (Some ref)
  then have "a \<in> dom (sm_table sm)" by (auto simp: table_dom)
  then show ?thesis using assms(2) Some table_touch [OF assms(1) Some] by (auto simp: GetOrCreate_def spec_create_def)
next
  case None
  then have d: "a \<notin> dom (sm_table sm)" by (auto simp: table_dom)
  have old: "ss_LastActivity ((sm_heap sm @ [s]) ! ref) = ss_LastActivity (sm_heap sm ! ref)" if "go_get (sm_sessions sm) b = Some ref" for b ref s
    using sm_ref_bound [OF assms(1) that] by (simp add: nth_append)
  then have new: "sm_table (sm\<lparr>sm_heap := sm_heap sm @ [new_session sid a now], sm_sessions := go_put a (length (sm_heap sm)) (sm_sessions sm)\<rparr>)
      = (sm_table sm)(a \<mapsto> now)"
    by (auto simp: sm_table_def sm_Get_def GetLastActivity_def new_session_def fun_eq_iff intro!: option.map_cong0)
  show ?thesis
    using assms(2) None d table_card [OF assms(1)] new
    by (auto simp: GetOrCreate_def sm_create_def spec_create_def sm_Count_def Let_def split: option.splits if_splits)
qed

lemma table_remove: "sm_table (sm_Remove a sm) = (sm_table sm)(a := None)"
  by (auto simp: sm_table_def sm_Get_def sm_Remove_def fun_eq_iff)

lemma table_cleanup:
  assumes "sm_inv sm" "go_map order" "set order = set (sm_sessions sm)"
  shows "sm_table (cleanupExpired H timeout now order sm) = spec_cleanup timeout now (sm_table sm)"
proof
  fix a
  let ?ks = "cleanup_scan timeout now order sm"
  have e: "cleanupExpired H timeout now order sm = cleanup_apply H ?ks sm" by (simp add: cleanupExpired_def Let_def)
  show "sm_table (cleanupExpired H timeout now order sm) a = spec_cleanup timeout now (sm_table sm) a"
  proof (cases "go_get (sm_sessions sm) a")
    case None
    then show ?thesis by (auto simp: e sm_table_def sm_Get_def spec_cleanup_def cleanup_apply_get)
  next
    case (Some ref)
    have "sm_heap (cleanup_apply H ?ks sm) ! ref = sm_heap sm ! ref" if "a \<notin> set ?ks"
      by (rule cleanup_apply_other) (use that sm_ref_inj [OF assms(1) Some] in blast)
    with Some cleanup_scan_iff [OF assms Some, of timeout now] show ?thesis
      by (auto simp: e sm_table_def sm_Get_def spec_cleanup_def cleanup_apply_get expired_def GetLastActivity_def)
  qed
qed

lemma table_force_close:
  assumes "sm_inv sm" "set order = set (sm_sessions sm)"
  shows "sm_table (ForceCloseAll H order sm) = Map.empty"
proof -
  have "\<forall>(k, r) \<in> set order. r < length (sm_heap sm)" using assms by (auto simp: sm_inv_def list_all_iff)
  then show ?thesis using force_close_all [of sm order H] assms(2) by (auto simp: sm_table_def sm_Get_def)
qed

section \<open>The interface\<close>

text \<open>The operations of a manager, each without interruption, as its clients see them.\<close>

datatype table_op = Create string time | Remove string | Clean time

fun spec_op :: "int \<Rightarrow> duration \<Rightarrow> table_op \<Rightarrow> table \<Rightarrow> table set" where
  "spec_op limit timeout (Create a now) m = (\<lambda>reachable. snd (spec_create limit a reachable now m)) ` UNIV"
| "spec_op limit timeout (Remove a) m = {m(a := None)}"
| "spec_op limit timeout (Clean now) m = {spec_cleanup timeout now m}"

inductive runs :: "('op \<Rightarrow> 's \<Rightarrow> 's \<Rightarrow> bool) \<Rightarrow> 'op list \<Rightarrow> 's \<Rightarrow> 's \<Rightarrow> bool" for does where
  runs_Nil: "runs does [] s s"
| runs_Cons: "does op s t \<Longrightarrow> runs does ops t u \<Longrightarrow> runs does (op # ops) s u"

text \<open>A client that was last active at \<open>t0\<close>, is never removed, and sends often enough for every cleanup.\<close>

fun keeps_active :: "duration \<Rightarrow> string \<Rightarrow> time \<Rightarrow> table_op list \<Rightarrow> bool" where
  "keeps_active timeout a t0 [] = True"
| "keeps_active timeout a t0 (Create b now # ops) = keeps_active timeout a (if b = a then now else t0) ops"
| "keeps_active timeout a t0 (Remove b # ops) = (b \<noteq> a \<and> keeps_active timeout a t0 ops)"
| "keeps_active timeout a t0 (Clean now # ops) = (time_sub now t0 \<le> timeout \<and> keeps_active timeout a t0 ops)"

locale session_table =
  fixes contents :: "'s \<Rightarrow> table"
    and ok :: "'s \<Rightarrow> bool"
    and does :: "table_op \<Rightarrow> 's \<Rightarrow> 's \<Rightarrow> bool"
    and limit :: "'s \<Rightarrow> int"
    and timeout :: duration
  assumes keeps_ok: "ok s \<Longrightarrow> does op s t \<Longrightarrow> ok t \<and> limit t = limit s"
    and refines: "ok s \<Longrightarrow> does op s t \<Longrightarrow> contents t \<in> spec_op (limit s) timeout op (contents s)"
    and finite_contents: "ok s \<Longrightarrow> finite (dom (contents s))"
begin

lemma active_kept:
  "runs does ops s u \<Longrightarrow> ok s \<Longrightarrow> contents s a = Some t0 \<Longrightarrow> keeps_active timeout a t0 ops \<Longrightarrow> contents u a \<noteq> None"
proof (induction ops arbitrary: s t0)
  case Nil
  then show ?case by (auto elim: runs.cases)
next
  case (Cons op ops)
  from Cons.prems(1) obtain t where t: "does op s t" "runs does ops t u" by (auto elim: runs.cases)
  have "ok t" using keeps_ok [OF Cons.prems(2) t(1)] by simp
  moreover obtain t1 where "contents t a = Some t1" "keeps_active timeout a t1 ops"
    using refines [OF Cons.prems(2) t(1)] Cons.prems(3,4)
    by (cases op) (auto simp: spec_create_def spec_cleanup_def split: if_splits)
  ultimately show ?case using Cons.IH [OF t(2)] by blast
qed

lemma bounded: "runs does ops s u \<Longrightarrow> ok s \<Longrightarrow> 0 < limit s \<Longrightarrow> int (card (dom (contents s))) \<le> limit s \<Longrightarrow> int (card (dom (contents u))) \<le> limit s"
proof (induction ops arbitrary: s)
  case Nil
  then show ?case by (auto elim: runs.cases)
next
  case (Cons op ops)
  from Cons.prems(1) obtain t where t: "does op s t" "runs does ops t u" by (auto elim: runs.cases)
  have sub: "card A \<le> card (dom (contents s))" if "A \<subseteq> dom (contents s)" for A
    using card_mono [OF finite_contents [OF Cons.prems(2)] that] .
  have "int (card (dom (contents t))) \<le> limit s"
    using refines [OF Cons.prems(2) t(1)] Cons.prems(3,4) sub [of "dom (contents t)"] finite_contents [OF Cons.prems(2)] cleanup_dom
    by (cases op) (fastforce simp: spec_create_def card_insert_if split: if_splits)+
  then show ?case using Cons.IH [OF t(2)] keeps_ok [OF Cons.prems(2) t(1)] Cons.prems(3) by auto
qed

end

inductive sm_does :: "('h, 'c) Handler \<Rightarrow> duration \<Rightarrow> table_op \<Rightarrow> ('h, 'c) SessionManager \<Rightarrow> ('h, 'c) SessionManager \<Rightarrow> bool"
  for H timeout where
  creates: "GetOrCreate a target resolve dial sid now sm = (r, sm') \<Longrightarrow> sm_does H timeout (Create a now) sm sm'"
| removes: "sm_does H timeout (Remove a) sm (sm_Remove a sm)"
| cleans: "go_map order \<Longrightarrow> set order = set (sm_sessions sm) \<Longrightarrow>
     sm_does H timeout (Clean now) sm (cleanupExpired H timeout now order sm)"

lemma GetOrCreate_keeps:
  assumes "sm_inv sm" "GetOrCreate a target resolve dial sid now sm = (r, sm')"
  shows "sm_inv sm' \<and> sm_maxSessions sm' = sm_maxSessions sm"
proof -
  have "sm_inv sm'"
    using assms(2) sm_inv_touch [OF assms(1)] sm_inv_create [OF assms(1), of a target resolve dial sid now]
    by (auto simp: GetOrCreate_def split: option.splits)
  moreover have "sm_maxSessions sm' = sm_maxSessions sm"
    using assms(2) by (auto simp: GetOrCreate_def sm_create_def touch_def Let_def split: option.splits if_splits)
  ultimately show ?thesis ..
qed

lemma Remove_max: "sm_maxSessions (sm_Remove a sm) = sm_maxSessions sm"
  by (simp add: sm_Remove_def)

lemma cleanup_apply_max: "sm_maxSessions (cleanup_apply H ks sm) = sm_maxSessions sm"
  by (induction H ks sm rule: cleanup_apply.induct) (auto simp: sm_Remove_def split: option.splits)

interpretation sm_sessions_table: session_table sm_table sm_inv "sm_does H timeout" sm_maxSessions timeout for H timeout
proof (unfold_locales, goal_cases)
  case (1 s op t)
  from 1(2,1) show ?case
    by (induction rule: sm_does.induct)
      (auto simp: sm_inv_Remove Remove_max sm_inv_cleanup_apply cleanupExpired_def cleanup_apply_max Let_def dest: GetOrCreate_keeps)
next
  case (2 s op t)
  from 2(2,1) show ?case
  proof (induction rule: sm_does.induct)
    case (creates a target resolve dial sid now sm r sm')
    from arg_cong [OF table_create [OF creates.prems creates.hyps], of snd] show ?case by (simp add: image_iff) blast
  qed (auto simp: table_remove table_cleanup)
next
  case (3 s)
  show ?case by (simp add: table_dom finite_dom_map_of)
qed

section \<open>Properties\<close>

text \<open>C13 (refinement). The session manager is a table of last activities with a limit. For every manager
  that meets the invariant: \<^verbatim>\<open>GetOrCreate\<close> succeeds and updates the table exactly as specified,
  with the limit and the two network calls deciding about a new client; \<^verbatim>\<open>Remove\<close> takes out one
  entry; an uninterrupted cleanup takes out exactly the expired ones, in whatever order it
  goes; a forced shutdown all; \<^verbatim>\<open>Count\<close> is the size.\<close>

theorem sessions_refine_table:
  assumes "sm_inv sm" "GetOrCreate a target resolve dial sid now sm = (r, sm')"
    and "go_map order" "set order = set (sm_sessions sm)"
  shows "((\<exists>x. r = Inr x), sm_table sm') = spec_create (sm_maxSessions sm) a (resolve = None \<and> dial = None) now (sm_table sm)
    \<and> sm_table (sm_Remove a sm) = (sm_table sm)(a := None)
    \<and> sm_table (cleanupExpired H timeout now order sm) = spec_cleanup timeout now (sm_table sm)
    \<and> sm_table (ForceCloseAll H order sm) = Map.empty
    \<and> sm_Count sm = int (card (dom (sm_table sm)))"
  using table_create [OF assms(1,2)] table_cleanup [OF assms(1,3,4)] table_force_close [OF assms(1,4)] table_card [OF assms(1)]
  by (simp add: table_remove)

theorem sessions_refine_table_witness:
  "((\<exists>x. fst (GetOrCreate ''c'' ''t'' None None ''s2'' 100 sample_sm) = Inr x),
     sm_table (snd (GetOrCreate ''c'' ''t'' None None ''s2'' 100 sample_sm))) = (False, sm_table sample_sm)
   \<and> sm_table (cleanupExpired (logged NoopHandler) 50 100 [(''b'', 1), (''a'', 0)] sample_sm) ''a'' = None"
proof -
  have i: "sm_inv sample_sm" by (simp add: sm_inv_def sample_sm_def go_map_def new_session_def)
  obtain r sm' where g: "GetOrCreate ''c'' ''t'' None None ''s2'' 100 sample_sm = (r, sm')"
    by (cases "GetOrCreate ''c'' ''t'' None None ''s2'' 100 sample_sm")
  have o: "go_map [(''b'', 1 :: nat), (''a'', 0)]" "set [(''b'', 1 :: nat), (''a'', 0)] = set (sm_sessions sample_sm)"
    by (auto simp: go_map_def sample_sm_def)
  have d: "dom (sm_table sample_sm) = {''a'', ''b''}" by (auto simp: table_dom sample_sm_def split: if_splits)
  have t: "sm_table sample_sm ''a'' = Some 0" by (simp add: sm_table_def sm_Get_def GetLastActivity_def sample_sm_def new_session_def)
  have "spec_create (sm_maxSessions sample_sm) ''c'' (None = None \<and> None = None) 100 (sm_table sample_sm) = (False, sm_table sample_sm)"
    unfolding spec_create_def d by (simp add: sample_sm_def)
  moreover have "spec_cleanup 50 100 (sm_table sample_sm) ''a'' = None"
    by (simp add: spec_cleanup_def t time_sub_def min_int64_def max_int64_def)
  ultimately show ?thesis
    using sessions_refine_table [OF i g o, of "logged NoopHandler" 50] g by simp
qed

text \<open>A client that keeps sending keeps its session through any sequence of operations for it and for
  others, and the limit holds, as long as each cleanup runs without interruption.\<close>

lemma active_client_kept:
  "runs (sm_does H timeout) ops sm sm' \<Longrightarrow> sm_inv sm \<Longrightarrow> sm_table sm a = Some t0 \<Longrightarrow> keeps_active timeout a t0 ops \<Longrightarrow> sm_Get a sm' \<noteq> None"
  using sm_sessions_table.active_kept [of H timeout ops sm sm' a t0] by (auto simp: sm_table_def)

text \<open>The cleanup scans under the read lock and removes under the write lock: in between a
  datagram comes.\<close>

definition race_run :: "udp_event list" where
  "race_run = first_contact ''s0'' 0 0 @ [Scans 100 [(''a'', 0)], Arrives ''a'' ''d'', LooksUp 100, Processes 0 False ''d'', Sweeps]"

text \<open>The cleanup does not look at the clock again before it removes a session: a client whose
  datagram is received and relayed between its two critical sections loses the session
  although it was active at that very moment, its backend connection is closed and the
  handler is told that it disconnected.\<close>

lemma active_session_swept:
  "\<exists>s. reach udp_init (udp_step plain_parse (logged (NoopHandler :: (unit, unit) Handler))) s
     \<and> udp_run plain_parse (logged NoopHandler) race_run one_start = Some s
     \<and> sm_Get ''a'' (ud_sm s) = None \<and> ss_backendClosed (sm_heap (ud_sm s) ! 0)
     \<and> GetLastActivity (sm_heap (ud_sm s) ! 0) = 100 \<and> udp_SessionTimeout (ud_config s) = 30
     \<and> ud_net s = [(ToBackend 0, ''d''), (ToBackend 0, ''d'')] \<and> fst (sm_handler (ud_sm s)) = [''OnDisconnect'']"
proof -
  have "\<exists>s. udp_run plain_parse (logged (NoopHandler :: (unit, unit) Handler)) race_run one_start = Some s
     \<and> sm_Get ''a'' (ud_sm s) = None \<and> ss_backendClosed (sm_heap (ud_sm s) ! 0)
     \<and> GetLastActivity (sm_heap (ud_sm s) ! 0) = 100 \<and> udp_SessionTimeout (ud_config s) = 30
     \<and> ud_net s = [(ToBackend 0, ''d''), (ToBackend 0, ''d'')] \<and> fst (sm_handler (ud_sm s)) = [''OnDisconnect'']"
    by (simp add: race_run_def udp_eval touch_def UpdateActivity_def)
  then show ?thesis using udp_run_reach [OF one_start_reach] by blast
qed

end
