(* ===== verification/UdpFair.thy ===== *)
theory UdpFair
  imports UdpListen
begin

text \<open>
  The shutdown of the UDP server under a fair scheduler. \<open>UdpListen\<close> shows that \<^verbatim>\<open>Listen\<close> can
  always go on to return; here it does return, on every infinite run in which the read loop,
  the workers and \<^verbatim>\<open>Listen\<close> itself are treated fairly, whatever the downstream readers and the
  cleaner do in between and however many packets are still queued. The read loop has to be
  scheduled only after the socket is closed, since before that it may block in
  \<^verbatim>\<open>ReadFromUDP\<close>, and a worker may take further packets from the queue after the context is
  done, as the \<^verbatim>\<open>select\<close> of \<^verbatim>\<open>packetWorker\<close> allows it.
\<close>

section \<open>The goroutines\<close>

datatype listen_task = ReadLoop | Workers | ListenBody

text \<open>A worker goes on with a packet it holds, or returns.\<close>

definition worker_event :: "udp_event \<Rightarrow> bool" where
  "worker_event ev = (case ev of Creates a data resolve dial sessionID now \<Rightarrow> True | Processes ref isNew data \<Rightarrow> True | _ \<Rightarrow> False)"

definition read_loop_act :: "('h, 'c) udp_listen \<Rightarrow> ('h, 'c) udp_listen \<Rightarrow> bool" where
  "read_loop_act l l' \<longleftrightarrow> ul_phase l \<noteq> Serving \<and> ul_done l \<and> ul_reading l \<and> l' = l\<lparr>ul_reading := False\<rparr>"

definition worker_act :: "(bytes, bytes list, 'h, 'c) parser \<Rightarrow> ('h, 'c) Handler \<Rightarrow> ('h, 'c) udp_listen \<Rightarrow> ('h, 'c) udp_listen \<Rightarrow> bool" where
  "worker_act parse H l l' \<longleftrightarrow>
     (\<exists>ev t. worker_event ev \<and> udp_exec parse H ev (ul_sys l) = Some t \<and> l' = l\<lparr>ul_sys := settle (ul_done l) t\<rparr>)
   \<or> (busy (ul_sys l) < ul_workers l \<and> ul_done l \<and> l' = l\<lparr>ul_workers := ul_workers l - 1\<rparr>)"

text \<open>The next statement of \<^verbatim>\<open>Listen\<close>: a step that changes the phase.\<close>

definition body_act :: "(bytes, bytes list, 'h, 'c) parser \<Rightarrow> ('h, 'c) Handler \<Rightarrow> ('h, 'c) udp_listen \<Rightarrow> ('h, 'c) udp_listen \<Rightarrow> bool" where
  "body_act parse H l l' \<longleftrightarrow> listen_step parse H l l' \<and> ul_phase l' \<noteq> ul_phase l"

fun listen_act :: "(bytes, bytes list, 'h, 'c) parser \<Rightarrow> ('h, 'c) Handler \<Rightarrow> listen_task \<Rightarrow> ('h, 'c) udp_listen \<Rightarrow> ('h, 'c) udp_listen \<Rightarrow> bool" where
  "listen_act parse H ReadLoop l l' = read_loop_act l l'"
| "listen_act parse H Workers l l' = worker_act parse H l l'"
| "listen_act parse H ListenBody l l' = body_act parse H l l'"

text \<open>The actions are steps of the server.\<close>

lemma worker_may_happen: "worker_event ev \<Longrightarrow> may_happen ev l"
  by (cases ev) (simp_all add: worker_event_def)

lemma worker_act_step: "worker_act parse H l l' \<Longrightarrow> listen_step parse H l l'"
  unfolding worker_act_def by (blast intro: listen_step.work listen_step.worker_returns worker_may_happen)

lemma listen_act_step: "listen_act parse H k l l' \<Longrightarrow> listen_step parse H l l'"
  by (cases k) (simp_all add: read_loop_act_def body_act_def worker_act_step listen_step.read_loop_returns)

section \<open>What no step undoes\<close>

text \<open>The packets on their way through the queue and the workers. Without the read loop they only get fewer.\<close>

definition backlog :: "('h, 'c) udp_sys \<Rightarrow> nat" where
  "backlog s = 3 * length (ud_packetCh s) + 2 * length (ud_missed s) + length (ud_found s)"

lemma backlog_settle [simp]: "backlog (settle b s) = backlog s"
  by (simp add: backlog_def)

lemma downstream_backlog: "downstream_round parse H ref ok res now s = (go, t) \<Longrightarrow> backlog t = backlog s"
  by (auto simp: downstream_round_def session_parse_def backlog_def Let_def split: if_splits read_result.splits prod.splits)

lemma length_removed: "x \<in> set xs \<Longrightarrow> length xs = Suc (length (remove1 x xs))"
  by (cases xs) (auto simp: length_remove1 one_less)

lemma exec_backlog:
  assumes "udp_exec parse H ev s = Some t" "\<nexists>a data. ev = Arrives a data"
  shows "backlog t \<le> backlog s \<and> (worker_event ev \<longrightarrow> backlog t < backlog s)"
proof (cases ev)
  case (Reads ref ok res now)
  then show ?thesis using assms(1) downstream_backlog [of parse H ref ok res now s]
    by (auto simp: worker_event_def reader_removes_def backlog_def split: if_splits prod.splits bool.splits)
qed (use assms in \<open>auto simp: worker_event_def packet_found_def session_parse_def backlog_def Let_def
      split: list.splits option.splits prod.splits sum.splits if_splits dest!: length_removed\<close>)

text \<open>A state in which the cancellation has reached every session can stay as it is.\<close>

lemma settled_stays:
  assumes "l' = l\<lparr>ul_done := True, ul_sys := settle True (ul_sys l)\<rparr>"
  shows "listen_step parse H l l' \<and> listen_step parse H l' l'"
proof -
  have "settle True (settle True s) = settle True s" for s :: "('a, 'b) udp_sys" by (simp add: settle_def comp_def)
  then have "l'\<lparr>ul_done := True, ul_sys := settle True (ul_sys l')\<rparr> = l'" by (simp add: assms)
  then show ?thesis using listen_step.ctx_done [of parse H l] listen_step.ctx_done [of parse H l'] assms by simp
qed

text \<open>Once the context is done: how each step moves the shutdown.\<close>

lemma step_monotone:
  assumes "listen_step parse H l l'" "ul_done l"
  shows "ul_done l' \<and> phases_left (ul_phase l') \<le> phases_left (ul_phase l) \<and> (ul_reading l' \<longrightarrow> ul_reading l)
    \<and> ul_workers l' \<le> ul_workers l \<and> (\<not> ul_reading l \<longrightarrow> backlog (ul_sys l') \<le> backlog (ul_sys l))
    \<and> (ul_phase l' \<noteq> ul_phase l \<longrightarrow> phases_left (ul_phase l') < phases_left (ul_phase l))"
  using assms
proof (induction rule: listen_step.induct)
  case (work ev l t)
  show ?case
  proof (cases "\<exists>a data. ev = Arrives a data")
    case False
    with exec_backlog [OF work(2)] work(3) show ?thesis by simp
  qed (use work in auto)
qed (auto simp: backlog_def)

section \<open>Every fair run returns\<close>

text \<open>First the socket is closed and the read loop ends.\<close>

definition serving_left :: "('h, 'c) udp_listen \<Rightarrow> nat" where
  "serving_left l = phases_left (ul_phase l) + (if ul_reading l then 1 else 0)"

definition serving_helper :: "('h, 'c) udp_listen \<Rightarrow> listen_task" where
  "serving_helper l = (if ul_phase l = Serving then ListenBody else ReadLoop)"

lemma phases_left_eq: "listen_step parse H l l' \<Longrightarrow> ul_done l \<Longrightarrow> phases_left (ul_phase l') = phases_left (ul_phase l) \<Longrightarrow> ul_phase l' = ul_phase l"
  by (metis step_monotone less_irrefl)

lemma body_nearer: "body_act parse H l l' \<Longrightarrow> ul_done l \<Longrightarrow> phases_left (ul_phase l') < phases_left (ul_phase l)"
  by (meson body_act_def step_monotone)

lemma body_Serving: "ul_phase l = Serving \<Longrightarrow> ul_done l \<Longrightarrow> \<exists>l'. body_act parse H l l'"
  unfolding body_act_def by (rule exI [of _ "l\<lparr>ul_phase := ClosingListener\<rparr>"]) (simp add: listen_step.close_listener)

interpretation closing: fair_progress "listen_step parse H" ul_done "\<lambda>l. \<not> ul_reading l" serving_left serving_helper
    "listen_act parse H" for parse H
proof
  fix l l' :: "('a, 'b) udp_listen"
  assume l: "ul_done l" "\<not> \<not> ul_reading l"
  show "\<exists>l'. listen_act parse H (serving_helper l) l l'"
    using l body_Serving [of l parse H] by (auto simp: serving_helper_def read_loop_act_def)
  show "listen_act parse H (serving_helper l) l l' \<Longrightarrow> serving_left l' < serving_left l"
    using l body_nearer [of parse H l l'] step_monotone [OF listen_act_step, of parse H "serving_helper l" l l']
    by (auto simp: serving_helper_def read_loop_act_def serving_left_def split: if_splits)
  assume "listen_step parse H l l'"
  from step_monotone [OF this l(1)] phases_left_eq [OF this l(1)] l(2)
  show "ul_done l' \<and> serving_left l' \<le> serving_left l \<and> (serving_left l' = serving_left l \<longrightarrow> serving_helper l' = serving_helper l)"
    by (auto simp: serving_left_def serving_helper_def split: if_splits)
qed

text \<open>Then the channel is closed, the workers empty their hands and return, and the sessions drain.\<close>

definition stopping_left :: "('h, 'c) udp_listen \<Rightarrow> nat" where
  "stopping_left l = phases_left (ul_phase l) + ul_workers l + backlog (ul_sys l)"

definition stopping_helper :: "('h, 'c) udp_listen \<Rightarrow> listen_task" where
  "stopping_helper l = (if ul_phase l = StoppingWorkers \<and> ul_workers l \<noteq> 0 then Workers else ListenBody)"

lemma worker_enabled:
  assumes "ul_done l" "ul_workers l \<noteq> 0"
  shows "\<exists>l'. worker_act parse H l l'"
proof (cases "busy (ul_sys l) = 0")
  case True
  with assms show ?thesis unfolding worker_act_def by (intro exI disjI2) simp
next
  case False
  have "\<exists>ev t. worker_event ev \<and> udp_exec parse H ev (ul_sys l) = Some t"
  proof (cases "ud_missed (ul_sys l)")
    case (Cons p ps)
    then show ?thesis
      by (intro exI [of _ "Creates (fst p) (snd p) None None [] 0"]) (auto simp: worker_event_def Let_def split: prod.splits sum.splits)
  next
    case Nil
    with False obtain p ps where p: "ud_found (ul_sys l) = p # ps" by (cases "ud_found (ul_sys l)") (auto simp: busy_def)
    obtain ref isNew data where "p = (ref, isNew, data)" by (cases p)
    with p show ?thesis by (intro exI [of _ "Processes ref isNew data"]) (simp add: worker_event_def)
  qed
  then show ?thesis unfolding worker_act_def by blast
qed

lemma body_enabled:
  assumes "listen_inv l" "ul_done l" "\<not> ul_reading l" "\<nexists>e. ul_phase l = Returned e" "ul_phase l = StoppingWorkers \<longrightarrow> ul_workers l = 0"
  shows "\<exists>l'. body_act parse H l l'"
proof (cases "ul_phase l")
  case Serving
  then show ?thesis using assms(2) by (rule body_Serving)
next
  case ClosingListener
  from listen_step.close_channel [OF this assms(3), of parse H] ClosingListener show ?thesis by (auto simp: body_act_def)
next
  case StoppingWorkers
  from listen_step.workers_done [OF this, of parse H] StoppingWorkers assms(5) show ?thesis by (auto simp: body_act_def)
next
  case (Draining c)
  from drain_returns [OF assms(1) this, of parse H] Draining show ?thesis by (fastforce simp: body_act_def)
qed (use assms(4) in blast)

lemma worker_nearer:
  assumes "worker_act parse H l l'"
  shows "ul_workers l' + backlog (ul_sys l') < ul_workers l + backlog (ul_sys l)"
  using assms exec_backlog by (fastforce simp: worker_act_def worker_event_def)

interpretation stopping: fair_progress "listen_step parse H" "\<lambda>l. listen_inv l \<and> ul_done l \<and> \<not> ul_reading l"
    "\<lambda>l. \<exists>e. ul_phase l = Returned e" stopping_left stopping_helper "listen_act parse H" for parse H
proof
  fix l l' :: "('a, 'b) udp_listen"
  assume l: "listen_inv l \<and> ul_done l \<and> \<not> ul_reading l" "\<nexists>e. ul_phase l = Returned e"
  show "\<exists>l'. listen_act parse H (stopping_helper l) l l'"
    using l worker_enabled [of l parse H] body_enabled [of l parse H] by (auto simp: stopping_helper_def)
  show "stopping_left l' < stopping_left l" if "listen_act parse H (stopping_helper l) l l'"
    using l that step_monotone [OF listen_act_step [OF that]] body_nearer [of parse H l l'] worker_nearer [of parse H l l']
    by (auto simp: stopping_helper_def stopping_left_def split: if_splits)
  assume st: "listen_step parse H l l'"
  from step_monotone [OF st] phases_left_eq [OF st] listen_inv_step [OF st] l(1)
  show "(listen_inv l' \<and> ul_done l' \<and> \<not> ul_reading l') \<and> stopping_left l' \<le> stopping_left l
    \<and> (stopping_left l' = stopping_left l \<longrightarrow> stopping_helper l' = stopping_helper l)"
    by (auto simp: stopping_left_def stopping_helper_def)
qed

text \<open>Fair runs exist from every state that is reached: one that goes on to return and stays there.\<close>

lemma returned_no_act:
  assumes "listen_inv l" "ul_phase l = Returned e"
  shows "\<not> listen_act parse H k l l'"
proof -
  have idle: "ul_workers l = 0" "\<not> ul_reading l" "ud_missed (ul_sys l) = []" "ud_found (ul_sys l) = []"
    using assms by (auto simp: listen_inv_def pool_stopped_def channel_closed_def busy_def)
  then have "\<not> worker_act parse H l l'" by (auto simp: worker_act_def worker_event_def split: udp_event.splits)
  moreover have "ul_phase t = ul_phase l" if "listen_step parse H l t" for t
    using that assms(2) by cases auto
  ultimately show ?thesis using idle by (cases k) (auto simp: read_loop_act_def body_act_def)
qed

lemma fair_run_exists:
  assumes "listen_inv l" "ul_done l"
  shows "\<exists>run. run 0 = l \<and> (\<forall>i. listen_step parse H (run i) (run (Suc i))) \<and> (\<forall>k. weakly_fair (listen_act parse H k) run)"
proof -
  from listen_returns [OF assms, of parse H] obtain t e where t: "(listen_step parse H)\<^sup>*\<^sup>* l t" "ul_phase t = Returned e" by blast
  let ?u = "t\<lparr>ul_done := True, ul_sys := settle True (ul_sys t)\<rparr>"
  have u: "listen_step parse H t ?u" "listen_step parse H ?u ?u" using settled_stays [OF refl] by blast+
  have star: "(listen_step parse H)\<^sup>*\<^sup>* l ?u" by (rule rtranclp.rtrancl_into_rtrancl [OF t(1) u(1)])
  have inv: "listen_inv ?u" by (rule listen_machine.star_inv [OF star assms(1)])
  from star_run [OF star u(2)] obtain run n where
    run: "run 0 = l" "\<And>i. listen_step parse H (run i) (run (Suc i))" "\<And>i. n \<le> i \<Longrightarrow> run i = ?u" by blast
  have "weakly_fair (listen_act parse H k) run" for k
    by (rule settled_fair [OF run(3)]) (use returned_no_act [OF inv] t(2) in auto)
  with run(1,2) show ?thesis by blast
qed

section \<open>Properties\<close>

text \<open>C17 (liveness). The UDP server stops: on every infinite run from a state in which the context is done,
  whatever datagrams are queued or in progress and whatever the downstream readers and the
  cleaner do meanwhile, \<^verbatim>\<open>Listen\<close> returns, provided that its own goroutine and the workers are not
  passed over for ever while they can go on, and the read loop is not once the socket is closed.\<close>

theorem udp_listen_returns:
  assumes "reach listen_init (listen_step parse H) (run n)" "ul_done (run n)"
    and "\<forall>i. listen_step parse H (run i) (run (Suc i))"
    and "\<forall>k. weakly_fair (listen_act parse H k) run"
  shows "\<exists>i\<ge>n. \<exists>e. ul_phase (run i) = Returned e \<and> busy (ul_sys (run i)) = 0 \<and> sm_Count (ud_sm (ul_sys (run i))) = 0"
proof -
  have stays: "ul_done (run i) \<Longrightarrow> ul_done (run (Suc i))" for i using step_monotone assms(3) by blast
  have done_from: "reach listen_init (listen_step parse H) (run (n + k)) \<and> ul_done (run (n + k))" for k
    by (induction k) (use assms(1-3) stays in \<open>auto intro: reach_step\<close>)
  obtain i where i: "n \<le> i" "\<not> ul_reading (run i)"
    using closing.fair_goal [where run = run and n = n and parse = parse and H = H] assms by blast
  with done_from [of "i - n"] have "listen_inv (run i) \<and> ul_done (run i) \<and> \<not> ul_reading (run i)"
    using listen_machine.reach_inv [of parse H "run i"] by simp
  then obtain j e where j: "i \<le> j" "ul_phase (run j) = Returned e"
    using stopping.fair_goal [where run = run and n = i and parse = parse and H = H] assms by blast
  have "listen_inv (run j)" using done_from [of "j - n"] i(1) j(1) listen_machine.reach_inv [of parse H "run j"] by simp
  then show ?thesis using i(1) j by (intro exI [of _ j]) (auto simp: listen_inv_def pool_stopped_def sm_Count_0)
qed

lemma udp_listen_returns_witness:
  "\<exists>run i e. run 0 = one_listen\<lparr>ul_done := True, ul_sys := settle True one_start\<rparr>
     \<and> (\<forall>k. weakly_fair (listen_act plain_parse (logged (NoopHandler :: (unit, unit) Handler)) k) run) \<and> ul_phase (run i) = Returned e"
proof -
  let ?l = "one_listen\<lparr>ul_done := True, ul_sys := settle True one_start\<rparr>"
  let ?H = "logged (NoopHandler :: (unit, unit) Handler)"
  have r: "reach listen_init (listen_step plain_parse ?H) ?l" by (rule one_listen_reach)
  obtain run where run: "run 0 = ?l" "\<forall>i. listen_step plain_parse ?H (run i) (run (Suc i))"
    "\<forall>k. weakly_fair (listen_act plain_parse ?H k) run"
    using fair_run_exists [OF listen_machine.reach_inv [OF r], of plain_parse ?H] by auto
  from udp_listen_returns [of plain_parse ?H run 0] r run show ?thesis by auto
qed

end
