(* ===== verification/Connection.thy ===== *)
theory Connection
  imports WebsocketParser
begin

text \<open>
  A whole connection: both directions at work on one session. The decision on a packet
  depends on what the packets of either direction before it have done to the session, so the
  guarantee of a single stream does not carry over by itself. The locale \<open>duplex\<close> is a parser
  that is a gatekeeper in each direction; in it, what a side has received after any schedule
  of rounds is computed round by round. It is interpreted for the MQTT parser and, by the
  equality of the two session loops, gives the guarantee for TCP and for WebSocket
  connections alike (\<^verbatim>\<open>src/pkg/server/tcp/server.go\<close>, \<^verbatim>\<open>src/pkg/parser/websocket/parser.go\<close>).
\<close>

section \<open>Definitions\<close>

text \<open>A sink that records whole messages: a write that fails leaves no complete message behind.\<close>

definition message_log :: "('m \<Rightarrow> 'm list \<Rightarrow> err option \<times> 'm list) \<Rightarrow> bool" where
  "message_log send \<longleftrightarrow> (\<forall>m w. send m w = (None, w @ [m]) \<or> (\<exists>e. send m w = (Some e, w)))"

fun side_r :: "Direction \<Rightarrow> ('r, 'w, 's) tcp_conn \<Rightarrow> 'r" where
  "side_r Upstream t = tc_in_r t"
| "side_r Downstream t = tc_out_r t"

fun side_w :: "Direction \<Rightarrow> ('r, 'w, 's) tcp_conn \<Rightarrow> 'w" where
  "side_w Upstream t = tc_out_w t"
| "side_w Downstream t = tc_in_w t"

text \<open>What a round sends in a direction: the packet at hand in the form the handler gave it, if the
  stream is running, the packet is approved in the session as it is now, and the write succeeds.\<close>

definition round_sent :: "('r \<Rightarrow> (err + 'm) \<times> 'r) \<Rightarrow> ('m \<Rightarrow> 'm list \<Rightarrow> err option \<times> 'm list)
    \<Rightarrow> (Direction \<Rightarrow> 'm \<Rightarrow> 's \<Rightarrow> err option) \<Rightarrow> (Direction \<Rightarrow> 'm \<Rightarrow> 's \<Rightarrow> 'm) \<Rightarrow> tcp_Config \<Rightarrow> Direction
    \<Rightarrow> Direction \<times> round_env \<Rightarrow> ('r, 'm list, 's) tcp_conn \<Rightarrow> 'm list" where
  "round_sent recv send verdict forwarded c dir dv t = (
     if fst dv = dir \<and> dir \<notin> fst ` set (tc_errCh t) \<and> round_guard c (snd dv) = None
     then (case fst (recv (side_r dir t)) of
        Inl e \<Rightarrow> []
      | Inr m \<Rightarrow> (if verdict dir m (tc_session t) = None
                     \<and> fst (send (forwarded dir m (tc_session t)) (side_w dir t)) = None
                  then [forwarded dir m (tc_session t)] else []))
     else [])"

text \<open>What all rounds of a schedule send, each in the connection its predecessors left.\<close>

fun conn_sent :: "('r \<Rightarrow> (err + 'm) \<times> 'r) \<Rightarrow> ('m \<Rightarrow> 'm list \<Rightarrow> err option \<times> 'm list)
    \<Rightarrow> (Direction \<Rightarrow> 'm \<Rightarrow> 's \<Rightarrow> err option) \<Rightarrow> (Direction \<Rightarrow> 'm \<Rightarrow> 's \<Rightarrow> 'm)
    \<Rightarrow> (Direction \<Rightarrow> 'r \<Rightarrow> 'm list \<Rightarrow> 's \<Rightarrow> err option \<times> 'r \<times> 'm list \<times> 's) \<Rightarrow> tcp_Config \<Rightarrow> Direction
    \<Rightarrow> (Direction \<times> round_env) list \<Rightarrow> ('r, 'm list, 's) tcp_conn \<Rightarrow> 'm list" where
  "conn_sent recv send verdict forwarded parse c dir [] t = []"
| "conn_sent recv send verdict forwarded parse c dir (dv # sched) t =
     round_sent recv send verdict forwarded c dir dv t
     @ conn_sent recv send verdict forwarded parse c dir sched (conn_round parse c dv t)"

section \<open>Both directions\<close>

locale duplex =
  fixes parse :: "Direction \<Rightarrow> 'r \<Rightarrow> 'm list \<Rightarrow> 's \<Rightarrow> err option \<times> 'r \<times> 'm list \<times> 's"
    and recv :: "'r \<Rightarrow> (err + 'm) \<times> 'r"
    and send :: "'m \<Rightarrow> 'm list \<Rightarrow> err option \<times> 'm list"
    and verdict :: "Direction \<Rightarrow> 'm \<Rightarrow> 's \<Rightarrow> err option"
    and forwarded :: "Direction \<Rightarrow> 'm \<Rightarrow> 's \<Rightarrow> 'm"
    and after :: "Direction \<Rightarrow> 'm \<Rightarrow> 's \<Rightarrow> 's"
  assumes gate: "gatekeeper (parse dir) recv send (verdict dir) (forwarded dir) (after dir)"
begin

text \<open>One call of the parser writes the approved packet or nothing.\<close>

lemma parse_writes:
  assumes "message_log send"
  shows "fst (snd (snd (parse dir r w s))) = w @ (case fst (recv r) of Inl e \<Rightarrow> []
    | Inr m \<Rightarrow> if verdict dir m s = None \<and> fst (send (forwarded dir m s) w) = None then [forwarded dir m s] else [])"
proof -
  obtain x r' where r: "recv r = (x, r')" by (cases "recv r")
  show ?thesis
  proof (cases x)
    case (Inl e)
    then show ?thesis using gatekeeper.on_recv_error [OF gate, of r e r' dir w s] r by auto
  next
    case (Inr m)
    let ?f = "forwarded dir m s"
    consider "send ?f w = (None, w @ [?f])" | e where "send ?f w = (Some e, w)" using assms unfolding message_log_def by blast
    then show ?thesis
      using gatekeeper.on_denied [OF gate, of r m r' dir s _ w] gatekeeper.on_allowed [OF gate, of r m r' dir s w "w @ [?f]"]
        gatekeeper.on_send_error [OF gate, of r m r' dir s w _ w] r Inr
      by cases (cases "verdict dir m s"; force)+
  qed
qed

lemma round_writes:
  assumes "message_log send"
  shows "side_w dir (conn_round parse c dv t) = side_w dir t @ round_sent recv send verdict forwarded c dir dv t"
proof -
  obtain d v where dv: "dv = (d, v)" by (cases dv)
  show ?thesis
  proof (cases "d = dir \<and> dir \<notin> fst ` set (tc_errCh t) \<and> round_guard c v = None")
    case True
    obtain e r' w' s' where p: "parse dir (side_r dir t) (side_w dir t) (tc_session t) = (e, r', w', s')"
      by (cases "parse dir (side_r dir t) (side_w dir t) (tc_session t)")
    have "side_w dir (conn_round parse c dv t) = w'"
      using True p by (cases dir; cases e) (simp_all add: dv conn_round_def Let_def)
    moreover have "w' = side_w dir t @ round_sent recv send verdict forwarded c dir dv t"
      using parse_writes [OF assms, of dir "side_r dir t" "side_w dir t" "tc_session t"] p True by (simp add: dv round_sent_def)
    ultimately show ?thesis by simp
  next
    case False
    then have "round_sent recv send verdict forwarded c dir dv t = []" by (auto simp: dv round_sent_def)
    moreover have "side_w dir (conn_round parse c dv t) = side_w dir t"
      using False by (cases dir; cases d) (auto simp: dv conn_round_def Let_def split: option.splits prod.splits)
    ultimately show ?thesis by simp
  qed
qed

lemma run_writes:
  assumes "message_log send"
  shows "side_w dir (conn_run parse c sched t) = side_w dir t @ conn_sent recv send verdict forwarded parse c dir sched t"
  using round_writes [OF assms] by (induction sched arbitrary: t) (simp_all add: conn_run_def)

end

interpretation mqtt_duplex: duplex "\<lambda>dir. mqtt_Parse ReadPacket Write dir H" ReadPacket Write
    "\<lambda>dir. mqtt_verdict dir H" "\<lambda>dir. mqtt_forwarded dir H" "\<lambda>dir. mqtt_after dir H"
  for ReadPacket Write H
  by unfold_locales

abbreviation mqtt_sent :: "('r \<Rightarrow> (err + 'x ControlPacket) \<times> 'r) \<Rightarrow> ('x ControlPacket \<Rightarrow> 'x ControlPacket list \<Rightarrow> err option \<times> 'x ControlPacket list)
    \<Rightarrow> ('h, 'c) Handler \<Rightarrow> tcp_Config \<Rightarrow> Direction \<Rightarrow> (Direction \<times> round_env) list
    \<Rightarrow> ('r, 'x ControlPacket list, ('h, 'c) session) tcp_conn \<Rightarrow> 'x ControlPacket list" where
  "mqtt_sent ReadPacket Write H \<equiv> conn_sent ReadPacket Write (\<lambda>dir. mqtt_verdict dir H) (\<lambda>dir. mqtt_forwarded dir H)
     (\<lambda>dir. mqtt_Parse ReadPacket Write dir H)"

text \<open>The connection as it starts.\<close>

definition conn_start :: "'c Context \<Rightarrow> 'h \<Rightarrow> 'r \<Rightarrow> 'w \<Rightarrow> 'r \<Rightarrow> 'w \<Rightarrow> ('r, 'w, ('h, 'c) session) tcp_conn" where
  "conn_start hctx h in_r in_w out_r out_w =
     \<lparr>tc_in_r = in_r, tc_in_w = in_w, tc_out_r = out_r, tc_out_w = out_w, tc_session = (hctx, h), tc_errCh = []\<rparr>"

lemma mqtt_run_writes:
  assumes "message_log Write"
  shows "tc_out_w (conn_run (\<lambda>dir. mqtt_Parse ReadPacket Write dir H) c sched t) = tc_out_w t @ mqtt_sent ReadPacket Write H c Upstream sched t"
    and "tc_in_w (conn_run (\<lambda>dir. mqtt_Parse ReadPacket Write dir H) c sched t) = tc_in_w t @ mqtt_sent ReadPacket Write H c Downstream sched t"
  using mqtt_duplex.run_writes [OF assms, where dir = Upstream and ReadPacket = ReadPacket and H = H and c = c and sched = sched and t = t]
    mqtt_duplex.run_writes [OF assms, where dir = Downstream and ReadPacket = ReadPacket and H = H and c = c and sched = sched and t = t]
  by simp_all

lemma ws_run: "fold (ws_round parse) sched t = conn_run parse c (map (\<lambda>d. (d, quiet)) sched) t"
  by (induction sched arbitrary: t) (simp_all add: conn_run_def ws_round_tcp [where c = c])

section \<open>Properties\<close>


text \<open>A client that publishes to an allowed and then to a forbidden topic, and a backend that answers.\<close>

definition mixed_rounds :: "(Direction \<times> round_env) list" where
  "mixed_rounds = [(Upstream, quiet), (Downstream, quiet), (Upstream, quiet), (Downstream, quiet)]"

lemma mixed_connection:
  "handleConn (mqtt_Parse list_recv log_send) sample_tcp (forbids ''x'') ''s'' ''r'' None None mixed_rounds
     [pub ''a'', pub ''x''] [] [OtherPacket 7] [] ()
   = Some (Some (Wrapf ''publish authorization failed: '' ErrUnauthorized []), [OtherPacket 7], [pub ''a''], ())"
  by (simp add: mixed_rounds_def handleConn_def conn_run_def conn_round_def pub_def forbids_def NoopHandler_def mqtt_Parse_def
      mqtt_handle_def mqtt_handlers log_send_def EOF_def ErrUnauthorized_def)

lemma log_send_log: "message_log log_send"
  by (simp add: message_log_def log_send_def)



text \<open>A session from a page of the proxy's own host.\<close>

definition ws_request :: http_Request where
  "ws_request = sample_request\<lparr>hr_Header := [(''Origin'', [''http://'' @ hr_Host sample_request])]\<rparr>"

lemma ws_session_run:
  "\<exists>h'. ws_ServeHTTP (mqtt_Parse list_recv log_send) (\<lambda>u. Inr (hr_URL sample_request)) u_Path [] (forbids ''x'')
     (\<lambda>ok. if ok then None else Some EOF) (\<lambda>t. None) ''s'' ws_request [Upstream, Downstream, Upstream, Downstream]
     [pub ''a'', pub ''x''] [] [OtherPacket 7] [] () = Some (Served, [OtherPacket 7], [pub ''a''], h')"
  by (simp add: ws_ServeHTTP_def ws_round_def buildTargetURL_def CheckOrigin_def header_Get_def ws_request_def pub_def forbids_def NoopHandler_def
      mqtt_Parse_def mqtt_handle_def mqtt_handlers log_send_def)


end
