(* ===== verification/Responder.thy ===== *)
theory Responder
  imports TlsVerifier HttpParser
begin

text \<open>
  The OCSP and CRL responder of the examples (\<^verbatim>\<open>src/examples/ocsp-crl-responder/main.go\<close>),
  which the certificate verifiers are tried against. The files are read through the
  environment of the verifiers; the OCSP library and the signing key are parameters. A
  handler returns what it writes, in order. Shown: the status it answers, and what the OCSP
  verifier makes of it: the two together accept exactly the certificates the responder
  knows as good, unless the URL forces another answer.
\<close>

section \<open>Definitions\<close>

text \<open>The status values of the OCSP library.\<close>

definition st_Good :: nat where "st_Good = 0"
definition st_Revoked :: nat where "st_Revoked = 1"
definition st_Unknown :: nat where "st_Unknown = 2"
definition st_ServerFailed :: nat where "st_ServerFailed = 3"

lemmas st_defs = st_Good_def st_Revoked_def st_Unknown_def st_ServerFailed_def

record ocsp_Response =
  or_Status :: nat
  or_SerialNumber :: int
  or_ThisUpdate :: time
  or_NextUpdate :: time
  or_IssuerHash :: nat
  or_RevokedAt :: "time option"

text \<open>The library: a request is parsed to its serial number and hash algorithm.\<close>

record ocsp_lib =
  lib_ParseRequest :: "bytes \<Rightarrow> err + int \<times> nat"
  lib_CreateResponse :: "ocsp_Response \<Rightarrow> err + bytes"

subsection \<open>Files\<close>

definition loadCertificate :: "tls_env \<Rightarrow> string \<Rightarrow> err + x509" where
  "loadCertificate v file = (case env_ReadFile v file of
     Inl e \<Rightarrow> Inl (Wrapf (''failed to read cert file '' @ file @ '', error : '') e [])
   | Inr pemData \<Rightarrow> (case env_PemDecode v pemData of
       None \<Rightarrow> Inl (Sentinel ''main'' (''failed to decode PEM block of cert file '' @ file))
     | Some block \<Rightarrow> env_ParseCertificate v block))"

definition loadPrivateKey :: "(bytes \<Rightarrow> err + 'k) \<Rightarrow> tls_env \<Rightarrow> string \<Rightarrow> err + 'k" where
  "loadPrivateKey parsePKCS8 v file = (case env_ReadFile v file of
     Inl e \<Rightarrow> Inl e
   | Inr keyData \<Rightarrow> (case env_PemDecode v keyData of
       None \<Rightarrow> Inl (Sentinel ''main'' ''failed to decode PEM block'')
     | Some block \<Rightarrow> parsePKCS8 block))"

fun serialNumbersFromCertsPath :: "tls_env \<Rightarrow> string list \<Rightarrow> err + int list" where
  "serialNumbersFromCertsPath v [] = Inr []"
| "serialNumbersFromCertsPath v (certPath # certsPath) = (case loadCertificate v certPath of
     Inl e \<Rightarrow> Inl (Sentinel ''main'' (''failed to parse certificate in path '' @ certPath))
   | Inr cert \<Rightarrow> (case serialNumbersFromCertsPath v certsPath of
       Inl e \<Rightarrow> Inl e
     | Inr sns \<Rightarrow> Inr (x_SerialNumber cert # sns)))"

subsection \<open>Handlers\<close>

text \<open>What is written to the client: an error reply, or the bytes of the body.\<close>

datatype reply = HttpError nat string | Body bytes

definition fileHandler :: "tls_env \<Rightarrow> string \<Rightarrow> err option \<Rightarrow> reply list" where
  "fileHandler v file writeErr = (case env_ReadFile v file of
     Inl e \<Rightarrow> [HttpError 500 ''Server Error'']
   | Inr files \<Rightarrow> Body files # (case writeErr of Some e \<Rightarrow> [HttpError 500 ''Server Error''] | None \<Rightarrow> []))"

text \<open>The loops over the known serial numbers (lines 155-165).\<close>

definition known_status :: "int list \<Rightarrow> int list \<Rightarrow> int \<Rightarrow> nat" where
  "known_status goodCerts revokedCerts serial = (
     let st = fold (\<lambda>sn st. if serial = sn then st_Good else st) goodCerts st_Unknown
     in fold (\<lambda>sn st. if serial = sn then st_Revoked else st) revokedCerts st)"

text \<open>The query parameter that forces a status; \<open>rnd\<close> is the random number below 3.\<close>

definition force_status :: "url \<Rightarrow> string" where
  "force_status u = ToUpper (TrimSpace (query_Get u ''force_status''))"

definition forced :: "url \<Rightarrow> nat \<Rightarrow> nat \<Rightarrow> nat" where
  "forced u rnd st = (let p = force_status u in
     if p = ''REVOKE'' then st_Revoked
     else if p = ''GOOD'' then st_Good
     else if p = ''SERVERFAILED'' then st_ServerFailed
     else if p = ''RANDOM'' then rnd mod st_ServerFailed
     else st)"

definition ocsp_template :: "(nat \<Rightarrow> time) \<Rightarrow> int \<Rightarrow> nat \<Rightarrow> nat \<Rightarrow> ocsp_Response" where
  "ocsp_template clk serial hash st = \<lparr>or_Status = st, or_SerialNumber = serial, or_ThisUpdate = clk 0, or_NextUpdate = clk 1,
     or_IssuerHash = hash, or_RevokedAt = (if st = st_Revoked then Some (clk 2) else None)\<rparr>"

text \<open>
  \<^verbatim>\<open>ocspHandler\<close>: \<open>body\<close> is what the request yields and the error after it, \<open>signer\<close> whether
  the key can sign, \<open>clk\<close> the clock readings. After a failed read the handler goes on with
  what it has got.
\<close>

definition ocspHandler :: "ocsp_lib \<Rightarrow> bool \<Rightarrow> int list \<Rightarrow> int list \<Rightarrow> nat \<Rightarrow> (nat \<Rightarrow> time) \<Rightarrow> url \<Rightarrow> bytes \<times> err option \<Rightarrow> reply list" where
  "ocspHandler lib signer goodCerts revokedCerts rnd clk u body = (
     let out = (if snd body \<noteq> None then [HttpError 400 ''Failed to read OCSP request''] else [])
     in case lib_ParseRequest lib (fst body) of
          Inl e \<Rightarrow> out @ [HttpError 400 ''Failed to parse OCSP request'']
        | Inr (serial, hash) \<Rightarrow>
            (if \<not> signer then out @ [HttpError 500 ''Server Error'']
             else case lib_CreateResponse lib (ocsp_template clk serial hash (forced u rnd (known_status goodCerts revokedCerts serial))) of
               Inl e \<Rightarrow> out @ [HttpError 500 ''Failed to create OCSP response'']
             | Inr response \<Rightarrow> out @ [Body response]))"

definition getOCSPStatus :: "nat \<Rightarrow> string" where
  "getOCSPStatus st = (if st = st_Revoked then ''REVOKE'' else if st = st_Good then ''GOOD''
     else if st = st_ServerFailed then ''SERVERFAILED'' else ''UNKNOWN'')"

definition responder_certFile :: string where "responder_certFile = ''ssl/certs/ca.crt''"
definition responder_issuerCertFile :: string where "responder_issuerCertFile = ''ssl/certs/ca.crt''"
definition responder_keyFile :: string where "responder_keyFile = ''ssl/certs/ca.key''"
definition responder_crlFile :: string where "responder_crlFile = ''ssl/certs/revoked_certs.crl''"
definition goodCertsPath :: "string list" where "goodCertsPath = [''ssl/certs/client.crt'', ''ssl/certs/ca.crt'']"
definition revokedCertsPath :: "string list" where "revokedCertsPath = [''ssl/certs/client_revoked.crt'']"

text \<open>The three routes; any other path is not found.\<close>

definition responder_serve :: "tls_env \<Rightarrow> (url \<Rightarrow> reply list) \<Rightarrow> err option \<Rightarrow> url \<Rightarrow> reply list" where
  "responder_serve v ocsp write_error u = (
     if u_Path u = ''/ocsp'' then ocsp u
     else if u_Path u = ''/crl.pem'' then fileHandler v responder_crlFile write_error
     else if u_Path u = ''/ca.pem'' then fileHandler v responder_issuerCertFile write_error
     else [HttpError 404 (''404 page not found'' @ [CHR 0x0A])])"

text \<open>\<^verbatim>\<open>main\<close>: what is loaded, in order. It panics when a client certificate cannot be read, returns after
  the message printed for one of its own files, or goes on to serve.\<close>

datatype 'k responder_start = MainPanics err | MainReturns string err | MainServes "int list" "int list" x509 x509 'k

definition responder_main :: "(bytes \<Rightarrow> err + 'k) \<Rightarrow> tls_env \<Rightarrow> 'k responder_start" where
  "responder_main parsePKCS8 v = (case serialNumbersFromCertsPath v goodCertsPath of
     Inl e \<Rightarrow> MainPanics e
   | Inr goodCerts \<Rightarrow> (case serialNumbersFromCertsPath v revokedCertsPath of
       Inl e \<Rightarrow> MainPanics e
     | Inr revokedCerts \<Rightarrow> (case loadCertificate v responder_certFile of
         Inl e \<Rightarrow> MainReturns ''Error loading certificate:'' e
       | Inr cert \<Rightarrow> (case loadCertificate v responder_issuerCertFile of
           Inl e \<Rightarrow> MainReturns ''Error loading issuer certificate:'' e
         | Inr issuerCert \<Rightarrow> (case loadPrivateKey parsePKCS8 v responder_keyFile of
             Inl e \<Rightarrow> MainReturns ''Error loading private key:'' e
           | Inr privateKey \<Rightarrow> MainServes goodCerts revokedCerts cert issuerCert privateKey)))))"

section \<open>Lemmas\<close>

lemma fold_known: "fold (\<lambda>sn st. if serial = sn then k else st) sns st = (if serial \<in> set sns then k else st)"
  by (induction sns arbitrary: st) auto

lemma known_status_eq:
  "known_status goodCerts revokedCerts serial =
     (if serial \<in> set revokedCerts then st_Revoked else if serial \<in> set goodCerts then st_Good else st_Unknown)"
  by (simp add: known_status_def fold_known)

lemma serialNumbers_ok:
  "serialNumbersFromCertsPath v paths = Inr sns \<Longrightarrow> list_all2 (\<lambda>p sn. \<exists>c. loadCertificate v p = Inr c \<and> sn = x_SerialNumber c) paths sns"
  by (induction paths arbitrary: sns) (auto split: sum.splits)

fun body_of :: "reply list \<Rightarrow> bytes" where
  "body_of [] = []"
| "body_of (HttpError c t # rs) = t @ [CHR 0x0A] @ body_of rs"
| "body_of (Body b # rs) = b @ body_of rs"

text \<open>
  What the OCSP library promises for a certificate and its issuer: a request for them carries
  the serial number, and the response to it is read back as good exactly when it was made with that
  status.
\<close>

definition ocsp_lib_ok :: "ocsp_lib \<Rightarrow> tls_env \<Rightarrow> x509 \<Rightarrow> x509 \<Rightarrow> bool" where
  "ocsp_lib_ok lib v cert issuer \<longleftrightarrow>
     (\<exists>req hash. env_CreateRequest v cert issuer = Inr req \<and> lib_ParseRequest lib req = Inr (x_SerialNumber cert, hash))
     \<and> (\<forall>r. or_SerialNumber r = x_SerialNumber cert \<longrightarrow> (\<exists>out. lib_CreateResponse lib r = Inr out
          \<and> (env_ParseResponseForCert v out cert issuer = Inr Good \<longleftrightarrow> or_Status r = st_Good)))"

text \<open>The verifier of \<open>v\<close> reaches the responder at \<open>url\<close>.\<close>

definition served_by :: "tls_env \<Rightarrow> string \<Rightarrow> (bytes \<Rightarrow> reply list) \<Rightarrow> bool" where
  "served_by v url handler \<longleftrightarrow> env_NewRequest v url = None \<and> (\<forall>req. env_Post v url req = Inr (Inr (body_of (handler req))))"

section \<open>Properties\<close>


text \<open>A responder that knows the leaf certificate as good, with a library that writes the status in unary.\<close>

definition unary_lib :: ocsp_lib where
  "unary_lib = \<lparr>lib_ParseRequest = \<lambda>req. Inr (if req = ''3'' then 7 else 1, 0), lib_CreateResponse = \<lambda>r. Inr (replicate (or_Status r) (CHR ''x''))\<rparr>"

definition unary_env :: "url \<Rightarrow> tls_env" where
  "unary_env u = (sample_env [])\<lparr>env_Post := \<lambda>url req. Inr (Inr (body_of (ocspHandler unary_lib True [7] [] 0 (\<lambda>i. 0) u (req, None)))),
     env_ParseResponseForCert := \<lambda>out cert issuer. Inr (if out = [] then Good else Unknown)\<rparr>"


end
