(* ===== verification/Backends.thy ===== *)
theory Backends
  imports WebsocketParser
begin

text \<open>
  The echo servers of \<^verbatim>\<open>src/examples/server\<close>, the backends the proxy is tried out with: the
  CoAP server (\<^verbatim>\<open>coap/main.go\<close>) and the HTTP and WebSocket server (\<^verbatim>\<open>http-echo/main.go\<close>). The
  CoAP library, the text of an HTTP request (\<^verbatim>\<open>Request.Write\<close>) and the sockets are arguments.
  Shown: what the WebSocket loop sends back, also when a write fails, and that it serves
  every origin.
\<close>

section \<open>Definitions\<close>

subsection \<open>CoAP\<close>

record 'code coap_Response =
  cr_Code :: 'code
  cr_Token :: bytes
  cr_ContentFormat :: string
  cr_Body :: string

definition coap_echo_port :: string where
  "coap_echo_port = ''5683''"

text \<open>\<open>Content\<close> is the code of that name and \<open>code_String\<close> the text of a code in the library.\<close>

definition handleRequest :: "'code \<Rightarrow> ('code \<Rightarrow> string) \<Rightarrow> 'code \<Rightarrow> bytes \<Rightarrow> ('code coap_Response \<Rightarrow> err option) \<Rightarrow> 'code coap_Response \<times> string option" where
  "handleRequest Content code_String code token WriteMessage = (
     let resp = \<lparr>cr_Code = Content, cr_Token = token, cr_ContentFormat = ''text/plain'', cr_Body = code_String code @ '' OK''\<rparr>
     in (resp, case WriteMessage resp of Some e \<Rightarrow> Some (''Cannot send response: '' @ Error e) | None \<Rightarrow> None))"

definition coap_echo_main :: "(string \<Rightarrow> err) \<Rightarrow> string" where
  "coap_echo_main ListenAndServe = Error (ListenAndServe ('':'' @ coap_echo_port))"

subsection \<open>HTTP and WebSocket\<close>

definition http_echo_port :: string where
  "http_echo_port = ''8888''"

definition echo_CheckOrigin :: "http_Request \<Rightarrow> bool" where
  "echo_CheckOrigin r = True"

record echo_reply =
  er_status :: nat
  er_header :: "(string \<times> string) list"
  er_body :: bytes

definition notFoundHandler :: "http_Request \<Rightarrow> echo_reply" where
  "notFoundHandler r = \<lparr>er_status = 404, er_header = [], er_body = ''404 page not found'' @ [CHR 0x0A]\<rparr>"

definition echoHandler :: "(http_Request \<Rightarrow> bytes) \<Rightarrow> http_Request \<Rightarrow> echo_reply" where
  "echoHandler request_Write r = \<lparr>er_status = 200,
     er_header = [(''Access-Control-Allow-Origin'', ''*''), (''Content-Type'', header_Get (hr_Header r) ''Content-Type'')],
     er_body = request_Write r\<rparr>"

text \<open>
  The loop of \<^verbatim>\<open>wsHandler\<close> over the messages that come in, until a read or a write fails: a
  message is a type and its bytes.
\<close>

fun ws_echo :: "((int \<times> bytes) \<Rightarrow> 'w \<Rightarrow> err option \<times> 'w) \<Rightarrow> (int \<times> bytes) list \<Rightarrow> err \<Rightarrow> 'w \<Rightarrow> string \<times> 'w" where
  "ws_echo WriteMessage [] read_error w = (''Read error: '' @ Error read_error, w)"
| "ws_echo WriteMessage (m # ms) read_error w = (case WriteMessage m w of
     (Some e, w) \<Rightarrow> (''Write error: '' @ Error e, w)
   | (None, w) \<Rightarrow> ws_echo WriteMessage ms read_error w)"

definition wsHandler :: "(bool \<Rightarrow> err option) \<Rightarrow> http_Request \<Rightarrow> ((int \<times> bytes) \<Rightarrow> 'w \<Rightarrow> err option \<times> 'w)
    \<Rightarrow> (int \<times> bytes) list \<Rightarrow> err \<Rightarrow> 'w \<Rightarrow> string \<times> 'w" where
  "wsHandler Upgrade r WriteMessage ms read_error w = (case Upgrade (echo_CheckOrigin r) of
     Some e \<Rightarrow> (''WebSocket upgrade error: '' @ Error e, w)
   | None \<Rightarrow> ws_echo WriteMessage ms read_error w)"

text \<open>The three patterns of the multiplexer.\<close>

datatype echo_route = EchoHandler | WsHandler | NotFoundHandler

definition echo_routes :: "string \<Rightarrow> echo_route" where
  "echo_routes path = (if path = ''/messages/http'' then EchoHandler
     else if path = ''/messages/ws'' then WsHandler else NotFoundHandler)"

text \<open>\<^verbatim>\<open>main\<close> serves until \<^verbatim>\<open>ListenAndServe\<close> returns and panics with its error.\<close>

definition http_echo_main :: "(string \<Rightarrow> (string \<Rightarrow> echo_route) \<Rightarrow> err option) \<Rightarrow> err option" where
  "http_echo_main ListenAndServe = ListenAndServe ('':'' @ http_echo_port) echo_routes"

section \<open>Lemmas\<close>

text \<open>The loop sends back what it read, as it came and in order, up to the first write that fails.\<close>

lemma ws_echo_exact:
  "snd (ws_echo (\<lambda>m w. (if length w < n then None else Some EOF, if length w < n then w @ [m] else w)) ms e w)
   = w @ take (n - length w) ms"
  by (induction ms arbitrary: w) (auto simp: take_Cons' Suc_diff_Suc)

lemma ws_echo_all: "ws_echo (\<lambda>m w. (None, w @ [m])) ms e w = (''Read error: '' @ Error e, w @ ms)"
  by (induction ms arbitrary: w) auto

text \<open>Every origin is served, unlike by the proxy, and the bytes of a request come back.\<close>

lemma echo_open: "wsHandler (\<lambda>ok. if ok then None else Some EOF) r (\<lambda>m w. (None, w @ [m])) ms e [] = (''Read error: '' @ Error e, ms)"
  by (simp add: wsHandler_def echo_CheckOrigin_def ws_echo_all)

end
