(* ===== verification/TestClient.thy ===== *)
theory TestClient
  imports Errors
begin

text \<open>
  The test client (\<^verbatim>\<open>src/test/client/session.go\<close>), which publishes and subscribes through the
  proxy. The MQTT client and UUID libraries are arguments: what their calls return. A
  session that cannot be made leaves a nil pointer whose field \<^verbatim>\<open>main\<close> then reads: \<open>ClientPanics\<close>.
  Shown: the number of attempts to connect, that a failed connection is reported as made, and
  that the program never comes to its end.
\<close>

section \<open>Definitions\<close>

datatype mode = publisher | subscriber

definition defUsername :: string where "defUsername = []"
definition defToken :: string where "defToken = []"
definition defURL :: string where "defURL = ''localhost:8080/mqtt''"
definition defScheme :: string where "defScheme = ''ws''"
definition defRetry :: int where "defRetry = 0"
definition defMode :: mode where "defMode = publisher"
definition defChannel :: string where "defChannel = []"
definition defPubPoolSize :: nat where "defPubPoolSize = 1"

text \<open>\<open>cn_connected\<close> and \<open>cn_attempts\<close> are the state of the client of the library.\<close>

record conn =
  cn_ID :: string
  cn_username :: string
  cn_token :: string
  cn_url :: string
  cn_scheme :: string
  cn_retry :: int
  cn_connected :: bool
  cn_attempts :: nat

definition zero_conn :: conn where
  "zero_conn = \<lparr>cn_ID = [], cn_username = [], cn_token = [], cn_url = [], cn_scheme = [], cn_retry = 0,
     cn_connected = False, cn_attempts = 0\<rparr>"

record client_session =
  se_conn :: conn
  se_mode :: mode
  se_channel :: string
  se_qos :: nat

record client_config =
  cc_url :: string
  cc_scheme :: string
  cc_username :: string
  cc_token :: string
  cc_mode :: mode
  cc_retry :: int

definition conn_id :: "err + string \<Rightarrow> err + string" where
  "conn_id uuid = (case uuid of Inl e \<Rightarrow> Inl e | Inr i \<Rightarrow> Inr i)"

text \<open>The loop of \<^verbatim>\<open>New\<close>: \<open>i\<close> attempts made, \<open>n\<close> still allowed; \<open>connect i\<close> is the error of attempt \<open>i\<close>.\<close>

fun connect_loop :: "nat \<Rightarrow> nat \<Rightarrow> (nat \<Rightarrow> err option) \<Rightarrow> conn \<Rightarrow> conn \<times> string list" where
  "connect_loop i 0 connect c = (c, [])"
| "connect_loop i (Suc n) connect c = (case connect i of
     None \<Rightarrow> (c\<lparr>cn_connected := True, cn_attempts := Suc i\<rparr>, [])
   | Some e \<Rightarrow> (case connect_loop (Suc i) n connect (c\<lparr>cn_attempts := Suc i\<rparr>) of (c, out) \<Rightarrow> (c, Error e # out)))"

text \<open>\<^verbatim>\<open>New\<close>, a method whose receiver is \<open>c\<close>; the loop runs while \<^verbatim>\<open>i <= c.retry\<close>.\<close>

definition conn_New :: "conn \<Rightarrow> client_config \<Rightarrow> err + string \<Rightarrow> (nat \<Rightarrow> err option) \<Rightarrow> err + conn \<times> string list" where
  "conn_New c cfg uuid connect = (case conn_id uuid of
     Inl e \<Rightarrow> Inl e
   | Inr cid \<Rightarrow> Inr (connect_loop 0 (nat (cn_retry c + 1)) connect
       \<lparr>cn_ID = cid, cn_username = cc_username cfg, cn_token = cc_token cfg, cn_url = cc_url cfg,
        cn_scheme = cc_scheme cfg, cn_retry = cc_retry cfg, cn_connected = False, cn_attempts = 0\<rparr>))"

definition config_load :: client_config where
  "config_load = \<lparr>cc_url = defURL, cc_scheme = defScheme, cc_username = defUsername, cc_token = defToken,
     cc_mode = defMode, cc_retry = defRetry\<rparr>"

text \<open>\<^verbatim>\<open>random\<close>: the results of the publications at the ticks; what is sent to the channel.\<close>

fun random :: "err option list \<Rightarrow> err list" where
  "random [] = []"
| "random (None # rs) = random rs"
| "random (Some e # rs) = [e]"

text \<open>
  \<^verbatim>\<open>main\<close>: \<open>uuid k\<close> and \<open>connect k\<close> are those of the \<open>k\<close>-th call of \<^verbatim>\<open>New\<close>, \<open>publishes\<close> the results of
  the publishers. It prints the first error of the channel and waits for a second one.
\<close>

datatype client_end = ClientPanics | WaitsForFirst | WaitsForSecond err | Ends err err

definition client_wait :: "err list \<Rightarrow> client_end" where
  "client_wait errc = (case errc of [] \<Rightarrow> WaitsForFirst | [e] \<Rightarrow> WaitsForSecond e | e # e' # es \<Rightarrow> Ends e e')"

text \<open>The herd of publishers: the \<open>k\<close>-th call of \<^verbatim>\<open>New\<close> and the following, \<open>n\<close> of them; \<open>None\<close> is the panic.\<close>

fun publishers :: "(nat \<Rightarrow> err + string) \<Rightarrow> (nat \<Rightarrow> nat \<Rightarrow> err option) \<Rightarrow> nat \<Rightarrow> nat \<Rightarrow> string list \<Rightarrow> client_session list option \<times> string list" where
  "publishers uuid connect k 0 out = (Some [], out)"
| "publishers uuid connect k (Suc n) out = (case conn_New zero_conn config_load (uuid k) (connect k) of
     Inl e \<Rightarrow> (None, out @ [''Error making New publisher connection '' @ Error e])
   | Inr (c, o1) \<Rightarrow> (case publishers uuid connect (Suc k) n (out @ o1) of
       (None, out) \<Rightarrow> (None, out)
     | (Some ss, out) \<Rightarrow> (Some (\<lparr>se_conn = c, se_mode = publisher, se_channel = defChannel, se_qos = 2\<rparr> # ss), out)))"

definition client_main :: "(nat \<Rightarrow> err + string) \<Rightarrow> (nat \<Rightarrow> nat \<Rightarrow> err option) \<Rightarrow> err option \<Rightarrow> (nat \<Rightarrow> err option list) \<Rightarrow> client_end \<times> string list" where
  "client_main uuid connect subscribe publishes = (case conn_New zero_conn config_load (uuid 0) (connect 0) of
     Inl e \<Rightarrow> (ClientPanics, [''Error making New subscriber connection '' @ Error e])
   | Inr (sconn, out) \<Rightarrow>
       (let out = out @ (case subscribe of Some e \<Rightarrow> [''Error subscribing '' @ Error e] | None \<Rightarrow> [])
        in case conn_New zero_conn config_load (uuid 1) (connect 1) of
             Inl e \<Rightarrow> (ClientPanics, out @ [''Error making New publisher connection '' @ Error e])
           | Inr (pconn, o1) \<Rightarrow> (case publishers uuid connect 2 defPubPoolSize (out @ o1) of
               (None, out) \<Rightarrow> (ClientPanics, out)
             | (Some ss, out) \<Rightarrow>
                 (let r = client_wait (concat (map (\<lambda>k. random (publishes k)) [0 ..< length ss]));
                      out = out @ [''Connected! Waiting for publisher to start...'']
                  in case r of
                       WaitsForSecond e \<Rightarrow> (r, out @ [''Error during publish:  '' @ Error e])
                     | Ends e e' \<Rightarrow> (r, out @ [''Error during publish:  '' @ Error e])
                     | _ \<Rightarrow> (r, out)))))"

section \<open>Lemmas\<close>

lemma connect_loop_attempts:
  "cn_attempts (fst (connect_loop i n connect c)) \<le> max (cn_attempts c) (i + n)"
  by (induction i n connect c rule: connect_loop.induct) (auto split: option.splits prod.splits)

text \<open>The configured number of retries is not used: \<^verbatim>\<open>New\<close> looks at its receiver, which \<^verbatim>\<open>main\<close> leaves zero, so there
  is one attempt; and when it fails the connection is returned without an error.\<close>

lemma retry_ignored:
  assumes "connect 0 = Some e"
  shows "\<exists>c. conn_New zero_conn cfg (Inr cid) connect = Inr (c, [Error e]) \<and> cn_attempts c = 1 \<and> \<not> cn_connected c \<and> cn_retry c = cc_retry cfg"
  using assms by (simp add: conn_New_def conn_id_def zero_conn_def)

lemma random_at_most_one: "length (random rs) \<le> 1"
  by (induction rs rule: random.induct) auto

lemma publishers_count: "publishers uuid connect k n out = (Some ss, out') \<Longrightarrow> length ss = n"
  by (induction uuid connect k n out arbitrary: ss out' rule: publishers.induct) (auto split: sum.splits prod.splits option.splits)

text \<open>Only one publisher is made and it reports at most one error, so the second wait never ends.\<close>

lemma client_never_ends: "fst (client_main uuid connect subscribe publishes) \<noteq> Ends e e'"
  using random_at_most_one [of "publishes 0"]
  by (auto simp: client_main_def client_wait_def defPubPoolSize_def Let_def
      split: sum.splits prod.splits option.splits list.splits dest!: publishers_count)

text \<open>A broker that cannot be reached is announced as connected.\<close>

lemma connected_announced:
  "client_main (\<lambda>k. Inr ''c'') (\<lambda>k i. Some EOF) None (\<lambda>k. []) = (WaitsForFirst, [''EOF'', ''EOF'', ''EOF'', ''Connected! Waiting for publisher to start...''])"
  by (simp add: client_main_def conn_New_def conn_id_def zero_conn_def client_wait_def defPubPoolSize_def EOF_def Let_def)

end
