(* ===== verification/Spec2Isabelle.thy ===== *)
theory Spec2Isabelle
  imports Lifecycle SessionSpec UdpFair Connection Responder Backends TestClient
begin

text \<open>
  \<^bold>\<open>mProxy, a verification library.\<close> mProxy is a protocol proxy: it accepts MQTT, MQTT over
  WebSocket, HTTP and CoAP clients, asks a handler to authorise what they do, and relays the
  approved traffic to a backend. This library models the Go sources under \<^verbatim>\<open>src/\<close> and proves
  what makes each part correct. Every definition follows one function, method or type of
  the sources and carries its name where HOL leaves it free.

  \<^bold>\<open>How the program is put together.\<close> \<^verbatim>\<open>cmd/main.go\<close> and \<^verbatim>\<open>cmd/production/main.go\<close> read the
  configuration (\<^verbatim>\<open>config.go\<close>, \<^verbatim>\<open>pkg/tls\<close>) and start proxies (\<^verbatim>\<open>pkg/proxy\<close>); a proxy joins a
  server (\<^verbatim>\<open>pkg/server/tcp\<close>, \<^verbatim>\<open>pkg/server/udp\<close>, or Go's HTTP server), a parser
  (\<^verbatim>\<open>pkg/parser\<close>) and a handler (\<^verbatim>\<open>pkg/handler\<close>). The server runs one streaming loop per
  direction of a connection, or one worker per datagram; each round calls the parser, which
  reads a packet, asks the handler and writes the packet the handler left. The production
  server wraps its handler in rate limiting (\<^verbatim>\<open>pkg/ratelimit\<close>) and metrics
  (\<^verbatim>\<open>pkg/metrics\<close>), and monitors a circuit breaker (\<^verbatim>\<open>pkg/breaker\<close>), a connection pool
  (\<^verbatim>\<open>pkg/pool\<close>) and health checks (\<^verbatim>\<open>pkg/health\<close>).

  \<^bold>\<open>Theories.\<close>
  \<^item> \<open>Prelude\<close>: 64-bit integers with wrap-around, saturating time differences, Go maps as
    association lists, reachability, the locale \<open>inv_system\<close> of invariants and the locales
    \<open>progress\<close>, \<open>winding_down\<close> and \<open>fair_progress\<close> of shutdowns. \<open>Float64\<close>: rounding of
    64-bit floats and \<^verbatim>\<open>Duration.Seconds\<close>. \<open>Json\<close>: the encoder of \<^verbatim>\<open>encoding/json\<close> and its round trip. \<open>Errors\<close> (\<^verbatim>\<open>pkg/errors\<close>), \<open>Handler\<close> (\<^verbatim>\<open>pkg/handler\<close>).
  \<^item> \<open>Breaker\<close> (\<^verbatim>\<open>pkg/breaker\<close>): the counters under every interleaving, refinement of the
    abstract pattern closed, open, half-open, when a call is let through, tripping and
    recovery, the chain of notifications.
  \<^item> \<open>Ratelimit\<close> (\<^verbatim>\<open>pkg/ratelimit\<close>): the token bucket in floating point, the bound on what it
    admits in any window of time, the limiter per client with its bound on clients. The
    locale \<open>budget_gate\<close> carries the argument for both.
  \<^item> \<open>Pool\<close> (\<^verbatim>\<open>pkg/pool\<close>): limits and conservation of connections under every interleaving,
    what \<^verbatim>\<open>Get\<close> and \<^verbatim>\<open>Put\<close> do, lost wake-ups.
  \<^item> \<open>Parser\<close>, \<open>MqttParser\<close>, \<open>CoapParser\<close>, \<open>HttpParser\<close>, \<open>WebsocketParser\<close> (\<^verbatim>\<open>pkg/parser\<close>): what
    is forwarded and that nothing is without approval. The locales \<open>gatekeeper\<close> and
    \<open>list_gatekeeper\<close> state the contract of a parser that a streaming server relies on.
  \<^item> \<open>TcpServer\<close> (\<^verbatim>\<open>pkg/server/tcp\<close>): the streaming loop, one connection, the accept loop with its
    semaphore, a shutdown that ends on every path. \<open>UdpSession\<close>, \<open>UdpServer\<close>, \<open>UdpRelay\<close>, \<open>UdpListen\<close>,
    \<open>UdpFair\<close> (\<^verbatim>\<open>pkg/server/udp\<close>): sessions and their cleanup, the events of workers and readers, every
    datagram on the network traced back to its client and its approval, the worker pool and the
    shutdown, which a fair scheduler always brings to its end. \<open>SessionSpec\<close>: the table of last activities the session manager implements (the
    locale \<open>session_table\<close>), and the race in which the cleanup does not.
  \<^item> \<open>Connection\<close>: a whole MQTT connection over TCP or WebSocket, both directions on one session; the
    locale \<open>duplex\<close>.
  \<^item> \<open>TlsVerifier\<close>, \<open>TlsConfig\<close> (\<^verbatim>\<open>pkg/tls\<close>): CRL and OCSP checks of client certificates and the
    configurations that demand them; the locales \<open>chain_verifier\<close> and \<open>two_verifiers\<close>.
    \<open>Responder\<close> (\<^verbatim>\<open>examples/ocsp-crl-responder\<close>): the other side of the OCSP check.
  \<^item> \<open>Backends\<close> (\<^verbatim>\<open>examples/server\<close>): the echo servers. \<open>TestClient\<close> (\<^verbatim>\<open>test/client\<close>): the client that
    tries the proxy out.
  \<^item> \<open>Proxy\<close> (\<^verbatim>\<open>pkg/proxy\<close>, \<^verbatim>\<open>config.go\<close>), \<open>Cmd\<close> (\<^verbatim>\<open>cmd/main.go\<close>, \<^verbatim>\<open>examples/simple\<close>): which server is
    started for which environment; the locale \<open>starter\<close> is what the four start functions share.
  \<^item> \<open>Metrics\<close> (\<^verbatim>\<open>pkg/metrics\<close>), \<open>Health\<close> (\<^verbatim>\<open>pkg/health\<close>), \<open>ProdHandlers\<close>, \<open>Production\<close>
    (\<^verbatim>\<open>cmd/production\<close>): the handler stack with the rate bounds it inherits, the metrics and
    their operations, the health endpoints with their bodies, and the addresses, parts and breaker
    metrics of the production server.
  \<^item> \<open>Lifecycle\<close> (both \<^verbatim>\<open>main\<close> functions): what \<^verbatim>\<open>Listen\<close> of a proxy may return, from the steps of its
    server; that the proxies stop together and only on a signal or a failure, that the process
    ends, and with which status.

  \<^bold>\<open>Conventions.\<close> A struct is a record, an error a value of \<open>err\<close>, a nil error \<open>None\<close>; a panic is
  \<open>None\<close> or a constructor of its own. Strings and byte slices are lists of characters of 8
  bits; text functions are those on ASCII. Every clock reading is an argument, times are
  nanoseconds of the monotonic clock. A method that changes something through a pointer
  returns it. The environment (sockets, files, the HTTP, TLS, MQTT, CoAP, WebSocket,
  Prometheus and OCSP libraries) is given by arguments, and where more than its type is used, that
  is a hypothesis of the property with a witness for it. Logging is left out, except in \<open>Cmd\<close>,
  where it is what the handler does.

  Goroutines that share state are step relations with one rule per critical section or channel
  operation, so a property holds under every interleaving; each invariant is an
  interpretation of \<open>inv_system\<close>. Shutdowns are interpretations of \<open>progress\<close>, where some step
  always leads nearer to the end, of \<open>winding_down\<close>, where every step does and the length of
  a run is bounded, or of \<open>fair_progress\<close>, where other steps may come between and the end is
  reached on every infinite run that is weakly fair to the goroutines.

  \<^bold>\<open>Loops.\<close> A loop over data is structural recursion. The loops that wait for the network
  (\<open>stream\<close>, \<open>ws_stream\<close>, \<open>ws_Read\<close>) take a number of rounds and return \<open>None\<close> while they are still
  running: \<open>mqtt_relays_approved_prefix\<close> shows that one round more than there are packets is
  enough for the streaming loop, \<open>ws_read_in_order\<close> that two rounds more than there are
  messages are enough for \<^verbatim>\<open>Read\<close>. A connection with both directions is run by a schedule of rounds.

  \<^bold>\<open>Not modelled.\<close> The rendering of times, which is an argument of the health endpoints; the
  content of log messages outside \<open>Cmd\<close> and \<open>TestClient\<close>; what the Prometheus library does with the
  metrics, other than the rules by which it panics; the error group that runs
  the proxies, whose documented behaviour is a hypothesis (\<open>errgroup_documented\<close>) of the
  properties of \<open>Lifecycle\<close>; reading of environment variables, which a library does; package
  documentation. Timers are choices: a timeout may occur at any moment at which it is waited for.
\<close>

section \<open>Across the components\<close>

text \<open>C40 (error). The rate limits of the production server guard the \<^verbatim>\<open>CONNECT\<close> packet only, and no
  part of the proxy demands one: a client whose first packet is a \<^verbatim>\<open>PUBLISH\<close> has it
  forwarded to the backend whatever is left in the buckets, even none, without a token
  being taken.\<close>

theorem publish_needs_no_connect:
  "\<exists>s'. handleConn (mqtt_Parse list_recv log_send) c (production ov NoopHandler) sid remote None None
      [(Upstream, quiet), (Upstream, quiet), (Downstream, quiet)] [PUBLISH p] [] [] [] s
    = Some (None, [], [PUBLISH p], s')
    \<and> pd_global s' = pd_global s \<and> pd_perClient s' = pd_perClient s"
  by (simp add: handleConn_def conn_run_def conn_round_def mqtt_Parse_def mqtt_handle_def mqtt_handlers
      production_def InstrumentedHandler_def RateLimitedHandler_def in_AuthPublish_def in_OnDisconnect_def count_mqtt_def
      pass_notify_def tick_def emit_def NoopHandler_def log_send_def EOF_def Let_def)

end
